(* ===== verification/Prelude.thy ===== *)
theory Prelude
  imports Main "HOL-Library.Sublist" "HOL-Library.AList"
begin

text \<open>
  What every other theory of the development shares: the collections of rewrite rules,
  the generic list facts, the loop \<open>process_until\<close> that a Go \<open>for range\<close> with an early
  return becomes, and the two interfaces that several components implement: a table of slots
  addressed by a key (\<open>keyed_slots\<close>, with \<open>owned_slots\<close> for the stronger contract in which a
  slot is cleared only by its current holder) and a family of operations that keep an
  invariant (\<open>invariant_ops\<close>).
\<close>

named_theorems frame_simps \<open>which fields an operation leaves alone\<close>
named_theorems wf_intros \<open>operations keep the well-formedness of the database\<close>

section \<open>Lists\<close>

lemma sorted_map_filter: "sorted (map f xs) \<Longrightarrow> sorted (map f (filter P xs))"
  by (induction xs) auto

lemma distinct_map_filter': "distinct (map f xs) \<Longrightarrow> distinct (map f (filter P xs))"
  by (induction xs) auto

lemma inj_on_key: "distinct (map f xs) \<Longrightarrow> x \<in> set xs \<Longrightarrow> y \<in> set xs \<Longrightarrow> f x = f y \<Longrightarrow> x = y"
  by (metis distinct_map inj_onD)

lemma map_key_cong: "(\<And>x. x \<in> set xs \<Longrightarrow> f (g x) = f x) \<Longrightarrow> map f (map g xs) = map f xs"
  by simp

lemma find_key_Some:
  "distinct (map f xs) \<Longrightarrow> x \<in> set xs \<Longrightarrow> find (\<lambda>y. f y = f x) xs = Some x"
  by (induction xs) force+

lemma find_in_set: "find P xs = Some x \<Longrightarrow> x \<in> set xs \<and> P x"
  by (induction xs) (auto split: if_splits)

lemma find_append: "find P (xs @ ys) = (case find P xs of None \<Rightarrow> find P ys | Some x \<Rightarrow> Some x)"
  by (induction xs) auto

lemma find_map_upd:
  "(\<And>x. P (g x) = P x) \<Longrightarrow> find P (map g xs) = map_option g (find P xs)"
  by (induction xs) auto

lemma find_None_filter: "find P xs = None \<longleftrightarrow> filter P xs = []"
  by (induction xs) auto

lemma filter_neq_id: "x \<notin> f ` set xs \<Longrightarrow> filter (\<lambda>y. f y \<noteq> x) xs = xs"
  by (induction xs) auto

lemma sum_list_filter_le: "sum_list (map f (filter P xs)) \<le> sum_list (map (f :: 'a \<Rightarrow> nat) xs)"
  by (induction xs) auto

section \<open>A loop that stops early\<close>

text \<open>
  \<open>process_until step es s\<close> handles the elements of \<open>es\<close> in order, threading the state,
  and returns as soon as one step says so (\<open>False\<close>), as a \<open>for _, e := range es\<close> whose
  body may \<open>return\<close>.
\<close>

fun process_until :: "('e \<Rightarrow> 's \<Rightarrow> bool \<times> 's) \<Rightarrow> 'e list \<Rightarrow> 's \<Rightarrow> 's" where
  "process_until step [] s = s"
| "process_until step (e # es) s =
     (case step e s of (go, s') \<Rightarrow> if go then process_until step es s' else s')"

lemma process_until_inv:
  assumes "\<And>e s. e \<in> set es \<Longrightarrow> I s \<Longrightarrow> I (snd (step e s))" and "I s"
  shows "I (process_until step es s)"
  using assms
proof (induction es arbitrary: s)
  case Nil
  then show ?case by simp
next
  case (Cons e es)
  obtain go s' where st: "step e s = (go, s')" by fastforce
  then have "I s'" using Cons.prems(1) [of e s] Cons.prems(2) by simp
  then show ?case using Cons.IH [of s'] Cons.prems(1) st by simp
qed

lemma process_until_all:
  assumes "\<And>e s. e \<in> set es \<Longrightarrow> I s \<Longrightarrow> fst (step e s) \<and> I (snd (step e s))" and "I s"
  shows "process_until step es s = fold (\<lambda>e s. snd (step e s)) es s"
  using assms
proof (induction es arbitrary: s)
  case Nil
  then show ?case by simp
next
  case (Cons e es)
  obtain go s' where st: "step e s = (go, s')" by fastforce
  then have "go" "I s'" using Cons.prems(1) [of e s] Cons.prems(2) by simp_all
  then show ?case using Cons.IH [of s'] Cons.prems(1) st by simp
qed

section \<open>Interfaces\<close>

text \<open>
  A table of slots: \<open>put\<close> fills a key's slot, \<open>del\<close> empties it on behalf of the value that
  claims to hold it, \<open>get\<close> reads it. The provider promises that a stored value is found
  again, that other keys do not notice, and that the holder can clear its slot.
\<close>

locale keyed_slots =
  fixes put :: "'k \<Rightarrow> 'v \<Rightarrow> 's \<Rightarrow> 's"
    and get :: "'k \<Rightarrow> 's \<Rightarrow> 'v option"
    and del :: "'k \<Rightarrow> 'v \<Rightarrow> 's \<Rightarrow> 's"
  assumes get_put: "get k' (put k v s) = (if k' = k then Some v else get k' s)"
    and get_del_own: "get k s = Some v \<Longrightarrow> get k (del k v s) = None"
    and get_del_other: "k' \<noteq> k \<Longrightarrow> get k' (del k v s) = get k' s"
begin

lemma put_then_del: "get k (del k v (put k v s)) = None"
  by (rule get_del_own) (simp add: get_put)

lemma put_overwrites: "get k' (put k w (put k v s)) = get k' (put k w s)"
  by (simp add: get_put)

lemma put_commute: "k \<noteq> k' \<Longrightarrow> get j (put k v (put k' v' s)) = get j (put k' v' (put k v s))"
  by (simp add: get_put)

end

text \<open>
  The stronger contract: a \<open>del\<close> on behalf of a value that is not (or no longer) the one in
  the slot changes nothing. It is what makes a late clean-up of a replaced holder harmless.
\<close>

locale owned_slots = keyed_slots +
  assumes get_del_stale: "get k s \<noteq> Some v \<Longrightarrow> get k' (del k v s) = get k' s"
begin

lemma stale_cleanup_harmless: "v \<noteq> w \<Longrightarrow> get k (del k v (put k w (put k v s))) = Some w"
  using get_del_stale [of k "put k w (put k v s)" v k] by (simp add: get_put)

lemma get_del: "get k' (del k v s) = (if k' = k \<and> get k s = Some v then None else get k' s)"
  using get_del_own get_del_other get_del_stale by (metis (full_types))

end

text \<open>Operations that keep an invariant, and what follows for every sequence of them.\<close>

locale invariant_ops =
  fixes apply_op :: "'op \<Rightarrow> 's \<Rightarrow> 's"
    and allowed :: "'op \<Rightarrow> bool"
    and inv :: "'s \<Rightarrow> bool"
  assumes op_inv: "allowed op \<Longrightarrow> inv s \<Longrightarrow> inv (apply_op op s)"
begin

lemma ops_inv: "list_all allowed ops \<Longrightarrow> inv s \<Longrightarrow> inv (fold apply_op ops s)"
  by (induction ops arbitrary: s) (auto intro: op_inv)

lemma ops_inv_split:
  "list_all allowed (ops @ ops') \<Longrightarrow> inv s \<Longrightarrow> inv (fold apply_op ops s) \<and> inv (fold apply_op (ops @ ops') s)"
  by (auto intro: ops_inv)

end

end
