(* ===== verification/GoStrings.thy ===== *)
theory GoStrings
  imports Prelude "HOL-Library.Char_ord"
begin

text \<open>
  The part of Go's standard library on strings and bytes that the program uses. A Go string
  (and a \<open>[]byte\<close>) is a list of bytes, here a \<open>string\<close> (\<open>char list\<close>). Runes are natural numbers;
  decoding follows \<open>unicode/utf8\<close>, an invalid byte being the replacement rune of width one.
  The table behind \<open>unicode.ToLower\<close> is outside the repository: the functions that lower-case
  take it as the argument \<open>ul\<close>, used for runes from 128 on; below 128 the mapping is ASCII's.
\<close>

type_synonym bytes = string
type_synonym rune = nat

abbreviation byte :: "char \<Rightarrow> nat" where "byte \<equiv> of_char"
abbreviation chr :: "nat \<Rightarrow> char" where "chr \<equiv> char_of"

section \<open>Prefixes, suffixes, search\<close>

definition HasPrefix :: "bytes \<Rightarrow> bytes \<Rightarrow> bool" where
  "HasPrefix s p = prefix p s"

definition HasSuffix :: "bytes \<Rightarrow> bytes \<Rightarrow> bool" where
  "HasSuffix s p = suffix p s"

definition TrimPrefix :: "bytes \<Rightarrow> bytes \<Rightarrow> bytes" where
  "TrimPrefix s p = (if HasPrefix s p then drop (length p) s else s)"

definition TrimSuffix :: "bytes \<Rightarrow> bytes \<Rightarrow> bytes" where
  "TrimSuffix s p = (if HasSuffix s p then take (length s - length p) s else s)"

definition Contains :: "bytes \<Rightarrow> bytes \<Rightarrow> bool" where
  "Contains s t = sublist t s"

definition LastIndex :: "bytes \<Rightarrow> bytes \<Rightarrow> nat option" where
  "LastIndex s t =
     (case filter (\<lambda>i. prefix t (drop i s)) (rev [0..<Suc (length s)]) of
        [] \<Rightarrow> None | i # _ \<Rightarrow> Some i)"

lemma LastIndex_Some:
  assumes "LastIndex s t = Some i"
  shows "i \<le> length s" and "s = take i s @ t @ drop (i + length t) s"
proof -
  from assms obtain js where f: "filter (\<lambda>i. prefix t (drop i s)) (rev [0..<Suc (length s)]) = i # js"
    by (auto simp: LastIndex_def split: list.splits)
  then have "i \<in> set (filter (\<lambda>i. prefix t (drop i s)) (rev [0..<Suc (length s)]))" by simp
  then have i: "i \<le> length s" "prefix t (drop i s)" by (auto simp del: upt_Suc)
  then show "i \<le> length s" by simp
  from i(2) obtain u where u: "drop i s = t @ u" by (auto simp: prefix_def)
  then have "drop (i + length t) s = u" by (metis append_eq_conv_conj drop_drop add.commute)
  with u show "s = take i s @ t @ drop (i + length t) s" by (metis append_take_drop_id)
qed

lemma LastIndex_None: "LastIndex s t = None \<longleftrightarrow> \<not> Contains s t"
proof
  assume "LastIndex s t = None"
  then have "filter (\<lambda>i. prefix t (drop i s)) (rev [0..<Suc (length s)]) = []"
    by (simp add: LastIndex_def split: list.splits del: upt_Suc)
  then have n: "\<forall>i \<le> length s. \<not> prefix t (drop i s)"
    unfolding filter_empty_conv by (metis atLeastLessThan_iff le_imp_less_Suc le0 set_rev set_upt)
  show "\<not> Contains s t"
  proof
    assume "Contains s t"
    then obtain a b where "s = a @ t @ b" by (auto simp: Contains_def sublist_def)
    with n show False by (metis append_eq_conv_conj le_add1 length_append prefixI)
  qed
next
  assume c: "\<not> Contains s t"
  show "LastIndex s t = None"
  proof (rule ccontr)
    assume "LastIndex s t \<noteq> None"
    then obtain i where "LastIndex s t = Some i" by auto
    then have "s = take i s @ t @ drop (i + length t) s" by (rule LastIndex_Some)
    then have "Contains s t" unfolding Contains_def sublist_def by blast
    with c show False by simp
  qed
qed

section \<open>Runes\<close>

definition RuneError :: rune where "RuneError = 65533"

definition is_cont :: "nat \<Rightarrow> bool" where "is_cont b = (128 \<le> b \<and> b \<le> 191)"

text \<open>
  \<open>utf8.DecodeRuneInString\<close>: the first rune and the number of bytes it takes, from the first
  byte \<open>b0\<close> and the following ones (\<open>0\<close>, which continues nothing, past the end).
\<close>

definition decode_nats :: "nat \<Rightarrow> nat \<Rightarrow> nat \<Rightarrow> nat \<Rightarrow> rune \<times> nat" where
  "decode_nats b0 b1 b2 b3 =
     (if b0 < 128 then (b0, 1)
      else if 194 \<le> b0 \<and> b0 \<le> 223 then
        (if is_cont b1 then ((b0 - 192) * 64 + (b1 - 128), 2) else (RuneError, 1))
      else if 224 \<le> b0 \<and> b0 \<le> 239 then
        (if (if b0 = 224 then 160 else 128) \<le> b1 \<and> b1 \<le> (if b0 = 237 then 159 else 191) \<and> is_cont b2
         then ((b0 - 224) * 4096 + (b1 - 128) * 64 + (b2 - 128), 3) else (RuneError, 1))
      else if 240 \<le> b0 \<and> b0 \<le> 244 then
        (if (if b0 = 240 then 144 else 128) \<le> b1 \<and> b1 \<le> (if b0 = 244 then 143 else 191)
            \<and> is_cont b2 \<and> is_cont b3
         then ((b0 - 240) * 262144 + (b1 - 128) * 4096 + (b2 - 128) * 64 + (b3 - 128), 4)
         else (RuneError, 1))
      else (RuneError, 1))"

definition byte_at :: "bytes \<Rightarrow> nat \<Rightarrow> nat" where
  "byte_at s i = (if i < length s then byte (s ! i) else 0)"

definition decode_rune :: "bytes \<Rightarrow> rune \<times> nat" where
  "decode_rune s =
     (if s = [] then (RuneError, 0)
      else decode_nats (byte_at s 0) (byte_at s 1) (byte_at s 2) (byte_at s 3))"

lemma decode_nats_width:
  "snd (decode_nats b0 b1 b2 b3) \<in> {1, 2, 3, 4}
   \<and> (snd (decode_nats b0 b1 b2 b3) \<ge> 2 \<longrightarrow> 0 < b1)
   \<and> (snd (decode_nats b0 b1 b2 b3) \<ge> 3 \<longrightarrow> 0 < b2)
   \<and> (snd (decode_nats b0 b1 b2 b3) \<ge> 4 \<longrightarrow> 0 < b3)"
proof -
  have "is_cont b \<longrightarrow> 0 < b" and "(if q then 160 else 128) \<le> b \<longrightarrow> 0 < b" and "(if q then 144 else 128) \<le> b \<longrightarrow> 0 < b"
    for b :: nat and q by (auto simp: is_cont_def)
  then show ?thesis unfolding decode_nats_def by (simp split: if_split)
qed

lemma decode_nats_rune: "fst (decode_nats b0 b1 b2 b3) < 128 \<longleftrightarrow> b0 < 128"
proof -
  have e: "\<not> RuneError < 128" by (simp add: RuneError_def)
  consider "b0 < 128" | "128 \<le> b0" "b0 < 194" | "194 \<le> b0" "b0 \<le> 223" | "224 \<le> b0" "b0 \<le> 239"
    | "240 \<le> b0" by linarith
  then show ?thesis
  proof cases
    case 3
    have "(b0 - 192) * 64 \<ge> 2 * 64" using 3 by (intro mult_le_mono1) linarith
    then show ?thesis using 3 e by (simp add: decode_nats_def)
  next
    case 4
    have "(b0 - 224) * 4096 + (b1 - 128) * 64 \<ge> 128" if "(if b0 = 224 then 160 else 128) \<le> b1"
    proof (cases "b0 = 224")
      case True
      then have "(b1 - 128) * 64 \<ge> 32 * 64" using that by (intro mult_le_mono1) simp
      then show ?thesis by simp
    next
      case False
      then have "(b0 - 224) * 4096 \<ge> 1 * 4096" using 4 by (intro mult_le_mono1) linarith
      then show ?thesis by simp
    qed
    then show ?thesis using 4 e by (force simp: decode_nats_def)
  next
    case 5
    have "(b0 - 240) * 262144 + (b1 - 128) * 4096 \<ge> 128" if "(if b0 = 240 then 144 else 128) \<le> b1"
    proof (cases "b0 = 240")
      case True
      then have "(b1 - 128) * 4096 \<ge> 16 * 4096" using that by (intro mult_le_mono1) simp
      then show ?thesis by simp
    next
      case False
      then have "(b0 - 240) * 262144 \<ge> 1 * 262144" using 5 by (intro mult_le_mono1) linarith
      then show ?thesis by simp
    qed
    then show ?thesis using 5 e by (force simp: decode_nats_def)
  qed (use e in \<open>simp_all add: decode_nats_def\<close>)
qed

lemma decode_rune_width: "s \<noteq> [] \<Longrightarrow> 0 < snd (decode_rune s) \<and> snd (decode_rune s) \<le> length s"
proof -
  assume s: "s \<noteq> []"
  have at: "0 < byte_at s i \<Longrightarrow> i < length s" for i by (simp add: byte_at_def split: if_splits)
  have len: "0 < length s" "Suc 0 \<le> length s" using s by (simp_all add: Suc_le_eq)
  show ?thesis
    using decode_nats_width [of "byte_at s 0" "byte_at s 1" "byte_at s 2" "byte_at s 3"]
      at [of 1] at [of 2] at [of 3] s len
    unfolding decode_rune_def by (simp only: if_False) (elim conjE insertE; simp)
qed

lemma decode_rune_ascii: "byte c < (128::nat) \<Longrightarrow> decode_rune (c # cs) = (byte c, 1)"
  by (simp add: decode_rune_def decode_nats_def byte_at_def)

lemma decode_rune_ascii_iff: "fst (decode_rune (c # cs)) < 128 \<longleftrightarrow> byte c < (128::nat)"
  by (simp add: decode_rune_def decode_nats_rune byte_at_def)

text \<open>The runes of a string with the bytes each was read from (\<open>for _, r := range s\<close>).\<close>

function utf8_chunks :: "bytes \<Rightarrow> (rune \<times> bytes) list" where
  "utf8_chunks s =
     (if s = [] then [] else
      let (r, n) = decode_rune s in (r, take n s) # utf8_chunks (drop n s))"
  by pat_completeness auto
termination
proof (relation "measure length", goal_cases)
  case (2 s x r n)
  then have "snd (decode_rune s) = n" by (cases "decode_rune s") simp
  with 2 decode_rune_width [of s] show ?case by simp
qed simp

declare utf8_chunks.simps [simp del]

lemma utf8_chunks_Nil [simp]: "utf8_chunks [] = []"
  by (simp add: utf8_chunks.simps)

definition utf8_decode :: "bytes \<Rightarrow> rune list" where
  "utf8_decode s = map fst (utf8_chunks s)"

text \<open>\<open>utf8.AppendRune\<close>.\<close>

definition encode_rune :: "rune \<Rightarrow> bytes" where
  "encode_rune r0 =
     (let r = (if (55296 \<le> r0 \<and> r0 \<le> 57343) \<or> 1114111 < r0 then RuneError else r0) in
      if r < 128 then [chr r]
      else if r < 2048 then [chr (192 + r div 64), chr (128 + r mod 64)]
      else if r < 65536 then
        [chr (224 + r div 4096), chr (128 + r div 64 mod 64), chr (128 + r mod 64)]
      else [chr (240 + r div 262144), chr (128 + r div 4096 mod 64),
            chr (128 + r div 64 mod 64), chr (128 + r mod 64)])"

definition utf8_encode :: "rune list \<Rightarrow> bytes" where
  "utf8_encode rs = concat (map encode_rune rs)"

definition utf8_valid :: "bytes \<Rightarrow> bool" where
  "utf8_valid s = list_all (\<lambda>(r, bs). \<not> (r = RuneError \<and> length bs = 1)) (utf8_chunks s)"

text \<open>What \<open>encoding/json\<close> makes of a string: invalid bytes become the replacement rune.\<close>

definition to_valid :: "bytes \<Rightarrow> bytes" where
  "to_valid s = concat (map (\<lambda>(r, bs). if r = RuneError \<and> length bs = 1 then encode_rune RuneError else bs)
     (utf8_chunks s))"

definition ascii :: "bytes \<Rightarrow> bool" where
  "ascii s = list_all (\<lambda>c. byte c < (128::nat)) s"

lemma ascii_simps [simp]:
  "ascii []" "ascii (c # s) \<longleftrightarrow> byte c < (128::nat) \<and> ascii s" "ascii (s @ t) \<longleftrightarrow> ascii s \<and> ascii t"
  by (auto simp: ascii_def)

lemma utf8_chunks_Cons_ascii:
  "byte c < (128::nat) \<Longrightarrow> utf8_chunks (c # s) = (byte c, [c]) # utf8_chunks s"
  by (subst utf8_chunks.simps) (simp add: decode_rune_ascii)

lemma utf8_chunks_ascii: "ascii s \<Longrightarrow> utf8_chunks s = map (\<lambda>c. (byte c, [c])) s"
  by (induction s) (auto simp: utf8_chunks_Cons_ascii)

lemma utf8_decode_ascii: "ascii s \<Longrightarrow> utf8_decode s = map byte s"
  by (simp add: utf8_decode_def utf8_chunks_ascii)

lemma utf8_decode_ascii_iff: "list_all (\<lambda>r. r < 128) (utf8_decode s) \<longleftrightarrow> ascii s"
proof (induction s rule: utf8_chunks.induct)
  case (1 s)
  show ?case
  proof (cases s)
    case Nil
    then show ?thesis by (simp add: utf8_decode_def)
  next
    case (Cons c cs)
    obtain r n where rn: "decode_rune s = (r, n)" by fastforce
    then have dec: "utf8_decode s = r # utf8_decode (drop n s)"
      unfolding utf8_decode_def by (subst utf8_chunks.simps) (simp add: Cons)
    have r: "r < 128 \<longleftrightarrow> byte c < (128::nat)"
      using decode_rune_ascii_iff [of c cs] rn Cons by simp
    have IH: "list_all (\<lambda>r. r < 128) (utf8_decode (drop n s)) \<longleftrightarrow> ascii (drop n s)"
      using 1 [of "(r, n)" r n] rn Cons by simp
    show ?thesis
    proof (cases "byte c < (128::nat)")
      case True
      then have "n = 1" using rn Cons decode_rune_ascii by simp
      then show ?thesis using True IH dec r Cons by simp
    next
      case False
      then show ?thesis using dec r Cons by simp
    qed
  qed
qed

lemma utf8_valid_ascii: "ascii s \<Longrightarrow> utf8_valid s"
  by (induction s) (auto simp: utf8_valid_def utf8_chunks_Cons_ascii RuneError_def)

lemma to_valid_ascii: "ascii s \<Longrightarrow> to_valid s = s"
  by (induction s) (auto simp: to_valid_def utf8_chunks_Cons_ascii RuneError_def)

text \<open>On ASCII no decoding is needed: the equations the evaluation of closed terms uses.\<close>

lemma utf8_code [code]:
  "utf8_valid s = (if ascii s then True else list_all (\<lambda>(r, bs). \<not> (r = RuneError \<and> length bs = 1)) (utf8_chunks s))"
  "to_valid s = (if ascii s then s else
     concat (map (\<lambda>(r, bs). if r = RuneError \<and> length bs = 1 then encode_rune RuneError else bs) (utf8_chunks s)))"
  "utf8_decode s = (if ascii s then map byte s else map fst (utf8_chunks s))"
  using utf8_valid_ascii to_valid_ascii utf8_decode_ascii
  by (simp_all add: utf8_valid_def to_valid_def utf8_decode_def)

lemma concat_chunks: "concat (map snd (utf8_chunks s)) = s"
proof (induction s rule: utf8_chunks.induct)
  case (1 s)
  show ?case
  proof (cases "s = []")
    case False
    obtain r n where rn: "decode_rune s = (r, n)" by fastforce
    then show ?thesis
      using 1 [of "(r, n)" r n] False by (simp add: utf8_chunks.simps [of s])
  qed simp
qed

lemma to_valid_valid:
  assumes "utf8_valid s"
  shows "to_valid s = s"
proof -
  have "map (\<lambda>(r, bs). if r = RuneError \<and> length bs = 1 then encode_rune RuneError else bs) (utf8_chunks s)
      = map snd (utf8_chunks s)"
    using assms by (force simp: utf8_valid_def list_all_iff)
  then show ?thesis by (simp only: to_valid_def concat_chunks)
qed

section \<open>Case and space\<close>

definition lower_ascii :: "nat \<Rightarrow> nat" where
  "lower_ascii b = (if 65 \<le> b \<and> b \<le> 90 then b + 32 else b)"

definition upper_ascii :: "nat \<Rightarrow> nat" where
  "upper_ascii b = (if 97 \<le> b \<and> b \<le> 122 then b - 32 else b)"

definition lower_rune :: "(rune \<Rightarrow> rune) \<Rightarrow> rune \<Rightarrow> rune" where
  "lower_rune ul r = (if r < 128 then lower_ascii r else ul r)"

text \<open>
  \<open>strings.ToLower\<close> and \<open>bytes.ToLower\<close>: byte by byte on ASCII, else rune by rune, in which
  case each invalid byte comes out as the three bytes of the replacement rune.
\<close>

definition ToLower :: "(rune \<Rightarrow> rune) \<Rightarrow> bytes \<Rightarrow> bytes" where
  "ToLower ul s =
     (if ascii s then map (\<lambda>c. chr (lower_ascii (byte c))) s
      else utf8_encode (map (lower_rune ul) (utf8_decode s)))"

lemma ToLower_ascii: "ascii s \<Longrightarrow> ToLower ul s = map (\<lambda>c. chr (lower_ascii (byte c))) s"
  by (simp add: ToLower_def)

text \<open>These evaluate \<open>ToLower\<close> on an ASCII literal inside an equation.\<close>

lemmas lower_eval = ToLower_ascii lower_ascii_def char_of_eq_iff take_bit_eq_mod

lemma length_ToLower_ascii: "ascii s \<Longrightarrow> length (ToLower ul s) = length s"
  by (simp add: ToLower_ascii)

lemma ToLower_append_ascii: "ascii s \<Longrightarrow> ascii t \<Longrightarrow> ToLower ul (s @ t) = ToLower ul s @ ToLower ul t"
  by (simp add: ToLower_ascii)

lemma ascii_ToLower: "ascii s \<Longrightarrow> ascii (ToLower ul s)"
  by (induction s) (auto simp: ToLower_ascii lower_ascii_def ascii_def list_all_iff)

definition no_upper :: "bytes \<Rightarrow> bool" where
  "no_upper s = list_all (\<lambda>c. \<not> (65 \<le> (byte c::nat) \<and> (byte c::nat) \<le> 90)) s"

lemma ToLower_id: "ascii s \<Longrightarrow> no_upper s \<Longrightarrow> ToLower ul s = s"
  by (induction s) (auto simp: ToLower_ascii lower_ascii_def no_upper_def)

lemma no_upper_ToLower: "ascii s \<Longrightarrow> no_upper (ToLower ul s)"
  by (induction s) (auto simp: ToLower_ascii lower_ascii_def no_upper_def)

text \<open>\<open>unicode.IsSpace\<close>.\<close>

definition is_space :: "rune \<Rightarrow> bool" where
  "is_space r = (r \<in> {9, 10, 11, 12, 13, 32, 133, 160, 5760, 8232, 8233, 8239, 8287, 12288}
     \<or> (8192 \<le> r \<and> r \<le> 8202))"

definition TrimSpace :: "bytes \<Rightarrow> bytes" where
  "TrimSpace s =
     concat (map snd (rev (dropWhile (is_space \<circ> fst) (rev (dropWhile (is_space \<circ> fst) (utf8_chunks s))))))"

text \<open>
  \<open>strings.EqualFold\<close> with an ASCII first argument: two runes fold together when they are
  equal up to ASCII case, or are \<open>k\<close> and the Kelvin sign, or \<open>s\<close> and the long s.
\<close>

definition fold_eq :: "rune \<Rightarrow> rune \<Rightarrow> bool" where
  "fold_eq a b = (a = b \<or> (a < 128 \<and> b < 128 \<and> lower_ascii a = lower_ascii b)
     \<or> (lower_ascii a = 107 \<and> b = 8490) \<or> (lower_ascii a = 115 \<and> b = 383))"

definition EqualFold :: "bytes \<Rightarrow> bytes \<Rightarrow> bool" where
  "EqualFold s t = list_all2 fold_eq (utf8_decode s) (utf8_decode t)"

lemma EqualFold_refl: "EqualFold s s"
  by (simp add: EqualFold_def list_all2_same fold_eq_def)

section \<open>Numbers and hex\<close>

definition hex_digit :: "nat \<Rightarrow> char" where
  "hex_digit n = (if n < 10 then chr (48 + n) else chr (87 + n))"

definition hex_encode :: "bytes \<Rightarrow> bytes" where
  "hex_encode bs = concat (map (\<lambda>c. [hex_digit (byte c div 16), hex_digit (byte c mod 16)]) bs)"

fun digits :: "nat \<Rightarrow> bytes" where
  "digits n = (if n < 10 then [chr (48 + n)] else digits (n div 10) @ [chr (48 + n mod 10)])"

declare digits.simps [simp del]

text \<open>\<open>strconv.Itoa\<close> and \<open>strconv.FormatInt(_, 10)\<close>.\<close>

definition Itoa :: "int \<Rightarrow> bytes" where
  "Itoa i = (if i < 0 then CHR ''-'' # digits (nat (- i)) else digits (nat i))"

definition is_digit :: "char \<Rightarrow> bool" where
  "is_digit c = (48 \<le> (byte c::nat) \<and> (byte c::nat) \<le> 57)"

definition parse_digits :: "bytes \<Rightarrow> int" where
  "parse_digits s = foldl (\<lambda>n c. n * 10 + (of_char c - 48)) 0 s"

text \<open>
  \<open>strconv.ParseInt(s, 10, 64)\<close> (and \<open>strconv.Atoi\<close> on a 64-bit platform): an optional sign,
  at least one digit, and a value that fits in 64 bits; anything else is an error.
\<close>

definition ParseInt64 :: "bytes \<Rightarrow> int option" where
  "ParseInt64 s =
     (let (neg, ds) = (case s of [] \<Rightarrow> (False, []) |
                         c # cs \<Rightarrow> if c = CHR ''-'' then (True, cs) else if c = CHR ''+'' then (False, cs)
                                   else (False, s)) in
      if ds = [] \<or> \<not> list_all is_digit ds then None
      else let n = parse_digits ds in
           if neg then (if n \<le> 2 ^ 63 then Some (- n) else None)
           else (if n < 2 ^ 63 then Some n else None))"

lemma length_hex_encode [simp]: "length (hex_encode bs) = 2 * length bs"
  by (induction bs) (auto simp: hex_encode_def)

lemma digits_nonempty [simp]: "digits n \<noteq> []"
  by (subst digits.simps) simp

lemma is_digit_chr: "n < 10 \<Longrightarrow> is_digit (chr (48 + n))"
  by (simp add: is_digit_def)

lemma digits_are_digits: "list_all is_digit (digits n)"
proof (induction n rule: digits.induct)
  case (1 n)
  then show ?case by (subst digits.simps) (auto simp: is_digit_chr)
qed

lemma parse_digits_snoc: "parse_digits (s @ [c]) = parse_digits s * 10 + (of_char c - 48)"
  by (simp add: parse_digits_def)

lemma of_char_digit: "n < 10 \<Longrightarrow> (of_char (chr (48 + n)) :: int) = 48 + int n"
  using of_nat_of_char [of "chr (48 + n)", where ?'a = int] by simp

lemma parse_digits_digits: "parse_digits (digits n) = int n"
proof (induction n rule: digits.induct)
  case (1 n)
  show ?case
  proof (cases "n < 10")
    case True
    then show ?thesis by (subst digits.simps) (simp add: parse_digits_def of_char_digit del: of_char_of)
  next
    case False
    have "int (n div 10) * 10 + int (n mod 10) = int n"
      by (metis div_mult_mod_eq of_nat_add of_nat_mult of_nat_numeral)
    then show ?thesis using 1 False
      by (subst digits.simps) (simp add: parse_digits_snoc of_char_digit del: of_char_of)
  qed
qed

lemma hd_digits: "hd (digits n) \<noteq> CHR ''-'' \<and> hd (digits n) \<noteq> CHR ''+''"
proof -
  have "is_digit (hd (digits n))"
    using digits_are_digits [of n] by (cases "digits n") (auto simp: digits_nonempty)
  then show ?thesis by (auto simp: is_digit_def)
qed

lemma ParseInt64_Itoa:
  assumes "- (2 ^ 63) \<le> i" and "i < 2 ^ 63"
  shows "ParseInt64 (Itoa i) = Some i"
proof (cases "i < 0")
  case True
  then show ?thesis
    using assms digits_are_digits [of "nat (- i)"]
    by (simp add: Itoa_def ParseInt64_def Let_def parse_digits_digits)
next
  case False
  obtain c cs where d: "digits (nat i) = c # cs" by (cases "digits (nat i)") auto
  have "c \<noteq> CHR ''-''" "c \<noteq> CHR ''+''" using hd_digits [of "nat i"] d by auto
  then show ?thesis
    using False assms digits_are_digits [of "nat i"] parse_digits_digits [of "nat i"] d
    by (simp add: Itoa_def ParseInt64_def Let_def)
qed

end
