(* ===== verification/GoHttp.thy ===== *)
theory GoHttp
  imports GoStrings
begin

text \<open>
  The part of \<open>net/http\<close> the program uses: header maps with canonical keys, requests and
  responses as the handlers see them, and the response writer. A header map is an association
  list with one entry per key (Go ranges over it in no fixed order). The writer records what
  the client receives: the status and headers are fixed by the first \<open>WriteHeader\<close>, and a
  handler that returns without any gets the server's implicit 200.
\<close>

type_synonym header = "(bytes \<times> bytes list) list"

section \<open>What lies outside the repository\<close>

text \<open>
  The Unicode lower-case table, SHA-256, bcrypt (\<open>golang.org/x/crypto\<close>), the database driver's
  error wording, and the rendering of a time in the server's time zone. \<open>pl_bcrypt_gen\<close> takes
  the salt it draws as its first argument and fails with \<open>None\<close>.
\<close>

record platform =
  pl_lower :: "rune \<Rightarrow> rune"
  pl_sha256 :: "bytes \<Rightarrow> bytes"
  pl_bcrypt_gen :: "bytes \<Rightarrow> bytes \<Rightarrow> bytes option"
  pl_bcrypt_cmp :: "bytes \<Rightarrow> bytes \<Rightarrow> bool"
  pl_pgmsg :: "bytes \<Rightarrow> bytes"
  pl_local_time :: "int \<Rightarrow> bytes"

section \<open>Header maps\<close>

definition token_byte :: "char \<Rightarrow> bool" where
  "token_byte c =
     (let b = byte c in (48 \<le> b \<and> b \<le> (57::nat)) \<or> (65 \<le> b \<and> b \<le> 90) \<or> (97 \<le> b \<and> b \<le> 122)
        \<or> c \<in> set ''!#$%&*+-.^_|~'' \<or> b = 39 \<or> b = 96)"

fun canon_bytes :: "bool \<Rightarrow> bytes \<Rightarrow> bytes" where
  "canon_bytes up [] = []"
| "canon_bytes up (c # cs) =
     chr (if up then upper_ascii (byte c) else lower_ascii (byte c)) # canon_bytes (c = CHR ''-'') cs"

text \<open>\<open>textproto.CanonicalMIMEHeaderKey\<close>: a key that is not a token is left as it is.\<close>

definition CanonicalKey :: "bytes \<Rightarrow> bytes" where
  "CanonicalKey k = (if list_all token_byte k then canon_bytes True k else k)"

definition Header_Get :: "header \<Rightarrow> bytes \<Rightarrow> bytes" where
  "Header_Get h k = (case map_of h (CanonicalKey k) of Some (v # _) \<Rightarrow> v | _ \<Rightarrow> [])"

definition Header_Set :: "bytes \<Rightarrow> bytes \<Rightarrow> header \<Rightarrow> header" where
  "Header_Set k v h = AList.update (CanonicalKey k) [v] h"

definition Header_Add :: "bytes \<Rightarrow> bytes \<Rightarrow> header \<Rightarrow> header" where
  "Header_Add k v h =
     AList.update (CanonicalKey k) ((case map_of h (CanonicalKey k) of None \<Rightarrow> [] | Some vs \<Rightarrow> vs) @ [v]) h"

definition Header_Del :: "bytes \<Rightarrow> header \<Rightarrow> header" where
  "Header_Del k h = AList.delete (CanonicalKey k) h"

lemma Header_Get_Set:
  "Header_Get (Header_Set k v h) k' = (if CanonicalKey k' = CanonicalKey k then v else Header_Get h k')"
  by (simp add: Header_Get_def Header_Set_def update_conv')

lemma Header_Get_Del:
  "Header_Get (Header_Del k h) k' = (if CanonicalKey k' = CanonicalKey k then [] else Header_Get h k')"
  by (simp add: Header_Get_def Header_Del_def delete_conv')

lemma map_of_Header_Set: "map_of (Header_Set k v h) = (map_of h)(CanonicalKey k \<mapsto> [v])"
  by (simp add: Header_Set_def update_conv')

lemma distinct_Header_Set: "distinct (map fst h) \<Longrightarrow> distinct (map fst (Header_Set k v h))"
  by (simp add: Header_Set_def distinct_update)

section \<open>Requests and responses\<close>

text \<open>
  A body read from the network: its bytes, and whether the stream ends in an error instead of
  an end of file.
\<close>

record body =
  body_data :: bytes
  body_err :: bool

record request =
  req_method :: bytes
  req_host :: bytes
  req_path :: bytes       \<comment> \<open>\<open>URL.Path\<close>, percent-decoded\<close>
  req_rawpath :: bytes    \<comment> \<open>\<open>URL.RawPath\<close>, the encoding hint\<close>
  req_query :: bytes      \<comment> \<open>\<open>URL.RawQuery\<close>\<close>
  req_header :: header
  req_body :: body
  req_remote :: bytes     \<comment> \<open>\<open>RemoteAddr\<close>\<close>

record response =
  resp_status :: int
  resp_header :: header
  resp_body :: body

text \<open>\<open>io.ReadAll(r)\<close> and \<open>io.ReadAll(io.LimitReader(r, n))\<close>; \<open>None\<close> is a read error.\<close>

definition ReadAll :: "body \<Rightarrow> bytes option" where
  "ReadAll b = (if body_err b then None else Some (body_data b))"

definition ReadAll_limit :: "nat \<Rightarrow> body \<Rightarrow> bytes option" where
  "ReadAll_limit n b =
     (if n \<le> length (body_data b) then Some (take n (body_data b)) else ReadAll b)"

lemma ReadAll_limit_length: "ReadAll_limit n b = Some s \<Longrightarrow> length s \<le> n"
  by (auto simp: ReadAll_limit_def ReadAll_def split: if_splits)

lemma ReadAll_limit_short:
  "ReadAll_limit n b = Some s \<Longrightarrow> length s < n \<Longrightarrow> s = body_data b \<and> \<not> body_err b"
  by (auto simp: ReadAll_limit_def ReadAll_def split: if_splits)

section \<open>The response writer\<close>

text \<open>
  \<open>w_header\<close> is the mutable header map, \<open>w_sent\<close> the status and headers once they are on the
  wire, \<open>w_out\<close> the body written (to a HEAD request the server sends the headers only), \<open>w_broken\<close> a client connection on which body writes fail, and
  \<open>w_hijacker\<close> whether the writer supports taking over the connection.
\<close>

record writer =
  w_header :: header
  w_sent :: "(int \<times> header) option"
  w_out :: bytes
  w_broken :: bool
  w_hijacker :: bool

definition new_writer :: writer where
  "new_writer = \<lparr>w_header = [], w_sent = None, w_out = [], w_broken = False, w_hijacker = True\<rparr>"

definition w_set :: "bytes \<Rightarrow> bytes \<Rightarrow> writer \<Rightarrow> writer" where
  "w_set k v w = w\<lparr>w_header := Header_Set k v (w_header w)\<rparr>"

text \<open>
  An informational status is passed on at once and is not the answer: the next status written, or the implied 200, is. A status outside
  of 100 to 999 makes \<open>WriteHeader\<close> panic; who writes one that is not a constant tests \<open>valid_status\<close>.
\<close>

definition informational :: "int \<Rightarrow> bool" where
  "informational code = (100 \<le> code \<and> code \<le> 199 \<and> code \<noteq> 101)"

definition valid_status :: "int \<Rightarrow> bool" where
  "valid_status code = (100 \<le> code \<and> code \<le> 999)"

lemma informational_numeral [simp]:
  "informational (numeral n) = (100 \<le> (numeral n :: int) \<and> (numeral n :: int) \<le> 199 \<and> (numeral n :: int) \<noteq> 101)"
  by (simp add: informational_def)

lemma valid_status_numeral [simp]: "valid_status (numeral n) = (100 \<le> (numeral n :: int) \<and> (numeral n :: int) \<le> 999)"
  by (simp add: valid_status_def)

definition WriteHeader :: "int \<Rightarrow> writer \<Rightarrow> writer" where
  "WriteHeader code w =
     (if w_sent w \<noteq> None then w
      else if informational code then w
      else w\<lparr>w_sent := Some (code, w_header w)\<rparr>)"

definition Write :: "bytes \<Rightarrow> writer \<Rightarrow> writer" where
  "Write p w = (let w' = WriteHeader 200 w in if w_broken w then w' else w'\<lparr>w_out := w_out w' @ p\<rparr>)"

text \<open>The status the client gets, and the header map the handler has answered with, when it returns.\<close>

definition client_status :: "writer \<Rightarrow> int" where
  "client_status w = (case w_sent w of None \<Rightarrow> 200 | Some (code, _) \<Rightarrow> code)"

definition handler_header :: "writer \<Rightarrow> header" where
  "handler_header w = (case w_sent w of None \<Rightarrow> w_header w | Some (_, h) \<Rightarrow> h)"

text \<open>
  The header the client gets: \<open>net/http\<close> completes the handler's map before it writes it (\<open>chunkWriter.writeHeader\<close>). It adds the date, and
  for a body without a content type or encoding the type it sniffs from the first 512 bytes; \<open>Connection\<close> and \<open>Transfer-Encoding\<close> are its
  own, and so is a \<open>Content-Length\<close> the handler has not set; statuses that have no body lose the headers that
  describe one. What it sniffs, the date and the lines that frame the exchange are given by \<open>net_http\<close>.
\<close>

record net_http =
  nh_sniff :: "bytes \<Rightarrow> bytes"
  nh_date :: bytes
  nh_framing :: header

definition body_allowed :: "int \<Rightarrow> bool" where
  "body_allowed code = (\<not> (100 \<le> code \<and> code \<le> 199) \<and> code \<noteq> 204 \<and> code \<noteq> 304)"

definition dropped_names :: "int \<Rightarrow> bytes list" where
  "dropped_names code = [''Connection'', ''Transfer-Encoding'']
     @ (if body_allowed code then [] else [''Content-Length'']) @ (if code = 304 then [''Content-Type''] else [])"

definition client_header :: "net_http \<Rightarrow> writer \<Rightarrow> header" where
  "client_header net w =
     (let h = handler_header w; code = client_status w;
          kept = filter (\<lambda>(k, vs). k \<notin> set (dropped_names code)) h;
          missing = (\<lambda>k. k \<notin> fst ` set h);
          ctype = (if body_allowed code \<and> missing ''Content-Type'' \<and> missing ''Transfer-Encoding''
                     \<and> Header_Get h ''Content-Encoding'' = [] \<and> w_out w \<noteq> []
                   then [(''Content-Type'', [nh_sniff net (take 512 (w_out w))])] else []);
          date = (if missing ''Date'' then [(''Date'', [nh_date net])] else []);
          framing = filter (\<lambda>(k, vs). k = ''Connection'' \<or> k = ''Transfer-Encoding'' \<or> (k = ''Content-Length'' \<and> missing k)) (nh_framing net) in
      kept @ ctype @ date @ framing)"

definition net_names :: "bytes list" where
  "net_names = [''Connection'', ''Transfer-Encoding'', ''Content-Length'', ''Content-Type'', ''Date'']"

lemma map_of_filter_key: "P k \<Longrightarrow> map_of (filter (\<lambda>(k, v). P k) h) k = map_of h k"
  by (induction h) auto

text \<open>A line of the handler's reaches the client unless it is dropped; and only \<open>net/http\<close>'s own names are added.\<close>

lemma client_header_present:
  assumes "map_of (handler_header w) k = Some vs" and "k \<notin> set (dropped_names (client_status w))"
  shows "map_of (client_header net w) k = Some vs"
  using assms by (simp add: client_header_def Let_def map_of_filter_key [where P = "\<lambda>k. k \<notin> set (dropped_names (client_status w))"] map_add_def
      split: option.split)

lemma client_header_kept:
  "(k, vs) \<in> set (handler_header w) \<Longrightarrow> k \<notin> set (dropped_names (client_status w)) \<Longrightarrow> (k, vs) \<in> set (client_header net w)"
  by (simp add: client_header_def Let_def)

lemma client_header_added:
  "(k, vs) \<in> set (client_header net w) \<Longrightarrow> (k, vs) \<in> set (handler_header w) \<or> k \<in> {''Connection'', ''Transfer-Encoding''}
     \<or> (k \<in> {''Content-Length'', ''Content-Type'', ''Date''} \<and> k \<notin> fst ` set (handler_header w))"
  by (auto simp: client_header_def Let_def split: if_splits)

lemma client_keeps:
  assumes "Header_Get (handler_header w) k = v" and "v \<noteq> []" and "CanonicalKey k \<notin> set (dropped_names (client_status w))"
  shows "Header_Get (client_header net w) k = v"
proof -
  obtain vs where "map_of (handler_header w) (CanonicalKey k) = Some vs"
    using assms(1,2) by (cases "map_of (handler_header w) (CanonicalKey k)") (auto simp: Header_Get_def)
  from this client_header_present [OF this assms(3)] show ?thesis using assms(1) by (simp add: Header_Get_def)
qed

lemma client_retry_after:
  assumes "Header_Get (handler_header w) ''Retry-After'' = v" and "v \<noteq> []"
  shows "Header_Get (client_header net w) ''Retry-After'' = v"
proof (rule client_keeps [OF assms])
  have "CanonicalKey ''Retry-After'' = ''Retry-After''" by code_simp
  then show "CanonicalKey ''Retry-After'' \<notin> set (dropped_names (client_status w))" by (simp add: dropped_names_def)
qed

lemma client_header_absent:
  assumes "k \<notin> fst ` set (handler_header w)" and "k \<notin> set net_names"
  shows "k \<notin> fst ` set (client_header net w)"
  using assms by (auto simp: client_header_def Let_def net_names_def)

text \<open>\<open>http.Error\<close>: plain text whatever the body looks like.\<close>

definition http_Error :: "bytes \<Rightarrow> int \<Rightarrow> writer \<Rightarrow> writer" where
  "http_Error msg code w =
     Write (msg @ [chr 10])
       (WriteHeader code
         (w_set ''X-Content-Type-Options'' ''nosniff''
           (w_set ''Content-Type'' ''text/plain; charset=utf-8''
             (w\<lparr>w_header := Header_Del ''Content-Length'' (w_header w)\<rparr>))))"

lemmas writer_defs = WriteHeader_def Write_def w_set_def http_Error_def client_status_def
  handler_header_def Let_def

lemma w_set_simps [simp]:
  "w_sent (w_set k v w) = w_sent w" "w_out (w_set k v w) = w_out w" "w_broken (w_set k v w) = w_broken w"
  "w_header (w_set k v w) = Header_Set k v (w_header w)" "w_hijacker (w_set k v w) = w_hijacker w"
  by (simp_all add: w_set_def)

lemma WriteHeader_simps [simp]:
  "w_sent (WriteHeader c w) = (case w_sent w of None \<Rightarrow> if informational c then None else Some (c, w_header w) | Some x \<Rightarrow> Some x)"
  "w_out (WriteHeader c w) = w_out w" "w_broken (WriteHeader c w) = w_broken w"
  "w_header (WriteHeader c w) = w_header w" "w_hijacker (WriteHeader c w) = w_hijacker w"
  by (auto simp: WriteHeader_def split: option.split)

lemma Write_simps [simp]:
  "w_sent (Write p w) = (case w_sent w of None \<Rightarrow> Some (200, w_header w) | Some x \<Rightarrow> Some x)"
  "w_out (Write p w) = (if w_broken w then w_out w else w_out w @ p)" "w_broken (Write p w) = w_broken w"
  "w_header (Write p w) = w_header w" "w_hijacker (Write p w) = w_hijacker w"
  by (simp_all add: Write_def Let_def)

lemma http_Error_sent [simp]:
  "w_sent w = None \<Longrightarrow> \<not> informational code \<Longrightarrow> w_sent (http_Error msg code w) = Some (code,
     Header_Set ''X-Content-Type-Options'' ''nosniff''
       (Header_Set ''Content-Type'' ''text/plain; charset=utf-8'' (Header_Del ''Content-Length'' (w_header w))))"
  by (simp add: http_Error_def)

lemma http_Error_out [simp]:
  "w_out (http_Error msg code w) = (if w_broken w then w_out w else w_out w @ msg @ [chr 10])"
  by (simp add: http_Error_def)

lemma http_Error_status [simp]: "w_sent w = None \<Longrightarrow> \<not> informational code \<Longrightarrow> client_status (http_Error msg code w) = code"
  by (simp add: client_status_def)

section \<open>Time\<close>

text \<open>
  Times are microseconds since 1970 in UTC (the precision of \<open>TIMESTAMPTZ\<close>); \<open>rfc3339\<close> is
  \<open>t.UTC().Format(time.RFC3339)\<close> for the years 0 to 9999.
\<close>

definition civil :: "int \<Rightarrow> int \<times> int \<times> int" where
  "civil days =
     (let z = days + 719468; era = z div 146097; doe = z mod 146097;
          yoe = (doe - doe div 1460 + doe div 36524 - doe div 146096) div 365;
          doy = doe - (365 * yoe + yoe div 4 - yoe div 100);
          mp = (5 * doy + 2) div 153;
          d = doy - (153 * mp + 2) div 5 + 1;
          m = (if mp < 10 then mp + 3 else mp - 9);
          y = yoe + era * 400 + (if m \<le> 2 then 1 else 0) in (y, m, d))"

definition pad :: "nat \<Rightarrow> int \<Rightarrow> bytes" where
  "pad n i = (let s = Itoa i in replicate (n - length s) (CHR ''0'') @ s)"

definition rfc3339 :: "int \<Rightarrow> bytes" where
  "rfc3339 t =
     (let secs = t div 1000000; (y, m, d) = civil (secs div 86400); s = secs mod 86400 in
      pad 4 y @ ''-'' @ pad 2 m @ ''-'' @ pad 2 d @ ''T'' @ pad 2 (s div 3600) @ '':''
        @ pad 2 (s mod 3600 div 60) @ '':'' @ pad 2 (s mod 60) @ ''Z'')"

section \<open>Escaping and splitting\<close>

text \<open>\<open>html.EscapeString\<close>.\<close>

definition escape_char :: "char \<Rightarrow> bytes" where
  "escape_char c =
     (if c = CHR ''&'' then ''&amp;'' else if c = CHR 0x27 then ''&#39;''
      else if c = CHR ''<'' then ''&lt;'' else if c = CHR ''>'' then ''&gt;''
      else if c = CHR 0x22 then ''&#34;'' else [c])"

definition EscapeString :: "bytes \<Rightarrow> bytes" where
  "EscapeString s = concat (map escape_char s)"

lemma EscapeString_safe:
  "c \<in> set (EscapeString s) \<Longrightarrow> c \<noteq> CHR ''<'' \<and> c \<noteq> CHR ''>'' \<and> c \<noteq> CHR 0x22 \<and> c \<noteq> CHR 0x27"
proof -
  have "c \<noteq> CHR ''<'' \<and> c \<noteq> CHR ''>'' \<and> c \<noteq> CHR 0x22 \<and> c \<noteq> CHR 0x27" if "c \<in> set (escape_char x)" for x
    using that by (simp add: escape_char_def split: if_split_asm) (elim disjE; simp)+
  then show "c \<in> set (EscapeString s) \<Longrightarrow> c \<noteq> CHR ''<'' \<and> c \<noteq> CHR ''>'' \<and> c \<noteq> CHR 0x22 \<and> c \<noteq> CHR 0x27"
    unfolding EscapeString_def set_concat set_map by blast
qed

text \<open>
  \<open>net.SplitHostPort\<close>: the host part of \<open>host:port\<close> or \<open>[host]:port\<close>, \<open>None\<close> on its errors
  (no port, too many colons, a missing or misplaced bracket).
\<close>

definition SplitHostPort :: "bytes \<Rightarrow> (bytes \<times> bytes) option" where
  "SplitHostPort hp =
     (case LastIndex hp '':'' of
        None \<Rightarrow> None
      | Some i \<Rightarrow>
          if hp \<noteq> [] \<and> hd hp = CHR ''['' then
            (let e = length (takeWhile (\<lambda>c. c \<noteq> CHR '']'') hp) in
             if e = length hp \<or> e + 1 \<noteq> i then None
             else let host = take (e - 1) (drop 1 hp); rest = drop (e + 1) hp in
               if CHR ''['' \<in> set (drop 1 hp) \<or> CHR '']'' \<in> set rest then None
               else Some (host, drop (i + 1) hp))
          else if CHR '':'' \<in> set (take i hp) then None
          else if CHR ''['' \<in> set hp \<or> CHR '']'' \<in> set hp then None
          else Some (take i hp, drop (i + 1) hp))"

end
