(* ===== verification/Db.thy ===== *)
theory Db
  imports GoHttp
begin

text \<open>
  The Postgres database behind \<open>internal/store\<close>: the tables of \<open>migrations/*.sql\<close> as lists of
  rows, the sequences behind the \<open>BIGSERIAL\<close> columns, and the clock \<open>now()\<close> reads. A statement
  is a function on the database that returns an error or a value. Whether a statement reaches
  the server is decided by the environment: \<open>db_outcomes\<close> lists, for the statements to come, the
  time that passes before each and whether it is executed, is lost before it is executed, or
  is executed with its answer lost on the way back; past the end of the list all succeed.
\<close>

section \<open>Errors\<close>

datatype go_error =
    ErrNotFound
  | ErrEmailTaken
  | ErrInvalidCredentials
  | ErrSubdomainTaken
  | ErrMissingTunnelParam
  | ErrNotOwner
  | ErrNoRows            \<comment> \<open>\<open>pgx.ErrNoRows\<close>\<close>
  | ErrPg bytes          \<comment> \<open>a \<open>*pgconn.PgError\<close> with its SQLSTATE code\<close>
  | ErrText bytes        \<comment> \<open>any other error, by its message\<close>
  | Wrap bytes go_error  \<comment> \<open>\<open>fmt.Errorf("text: %w", err)\<close>\<close>

fun errors_Is :: "go_error \<Rightarrow> go_error \<Rightarrow> bool" where
  "errors_Is (Wrap m e) t = (Wrap m e = t \<or> errors_Is e t)"
| "errors_Is e t = (e = t)"

fun errors_AsPg :: "go_error \<Rightarrow> bytes option" where
  "errors_AsPg (Wrap m e) = errors_AsPg e"
| "errors_AsPg (ErrPg code) = Some code"
| "errors_AsPg e = None"

text \<open>\<open>err.Error()\<close>; the driver's wording for an SQLSTATE code is the argument \<open>pgmsg\<close>.\<close>

fun error_text :: "(bytes \<Rightarrow> bytes) \<Rightarrow> go_error \<Rightarrow> bytes" where
  "error_text pgmsg ErrNotFound = ''not found''"
| "error_text pgmsg ErrEmailTaken = ''email already registered''"
| "error_text pgmsg ErrInvalidCredentials = ''invalid email or password''"
| "error_text pgmsg ErrSubdomainTaken = ''subdomain already in use''"
| "error_text pgmsg ErrMissingTunnelParam = ''missing ?tunnel= query parameter''"
| "error_text pgmsg ErrNotOwner = ''tunnel does not belong to this account''"
| "error_text pgmsg ErrNoRows = ''no rows in result set''"
| "error_text pgmsg (ErrPg code) = pgmsg code"
| "error_text pgmsg (ErrText m) = m"
| "error_text pgmsg (Wrap m e) = m @ '': '' @ error_text pgmsg e"

section \<open>Tables\<close>

record user_row =
  us_id :: int
  us_email :: bytes
  us_password :: "bytes option"

record token_row =
  tk_hash :: bytes
  tk_user :: int

text \<open>A row of \<open>tunnels\<close>, and the struct \<open>Tunnel\<close> it is scanned into.\<close>

record tunnel =
  tn_id :: int
  tn_user :: int
  tn_sub :: bytes
  tn_rules :: "bytes list"

datatype event_state = EventQueued | EventReplaying | EventDelivered | EventDead

definition state_text :: "event_state \<Rightarrow> bytes" where
  "state_text s = (case s of EventQueued \<Rightarrow> ''queued'' | EventReplaying \<Rightarrow> ''replaying''
     | EventDelivered \<Rightarrow> ''delivered'' | EventDead \<Rightarrow> ''dead'')"

text \<open>A row of \<open>webhook_events\<close>, and the struct \<open>WebhookEvent\<close> it is scanned into.\<close>

record event =
  ev_id :: int
  ev_tunnel :: int
  ev_method :: bytes
  ev_path :: bytes
  ev_query :: bytes
  ev_headers :: header
  ev_body :: bytes
  ev_received :: int
  ev_state :: event_state
  ev_attempts :: int
  ev_last_status :: int
  ev_delivered :: "int option"

record snap =
  sn_tunnel :: int
  sn_path :: bytes
  sn_query :: bytes
  sn_ctype :: bytes
  sn_headers :: "(bytes \<times> bytes) list"
  sn_body :: bytes
  sn_time :: int

datatype outcome = Done | NotDone bytes | DoneLost bytes

record db =
  db_users :: "user_row list"
  db_tokens :: "token_row list"
  db_tunnels :: "tunnel list"
  db_events :: "event list"
  db_snaps :: "snap list"
  db_next_user :: int
  db_next_tunnel :: int
  db_next_event :: int
  db_now :: int
  db_outcomes :: "(nat \<times> outcome) list"

definition empty_db :: db where
  "empty_db = \<lparr>db_users = [], db_tokens = [], db_tunnels = [], db_events = [], db_snaps = [],
     db_next_user = 1, db_next_tunnel = 1, db_next_event = 1, db_now = 0, db_outcomes = []\<rparr>"

section \<open>Statements\<close>

type_synonym 'a stmt = "db \<Rightarrow> (go_error + 'a) \<times> db"

text \<open>What Postgres accepts as \<open>TEXT\<close>, and inside a \<open>JSONB\<close> string: no NUL, valid UTF-8.\<close>

definition pg_text :: "bytes \<Rightarrow> bool" where
  "pg_text s = (utf8_valid s \<and> list_all (\<lambda>c. byte c \<noteq> (0::nat)) s)"

definition next_outcome :: "db \<Rightarrow> outcome \<times> db" where
  "next_outcome d = (case db_outcomes d of
      [] \<Rightarrow> (Done, d)
    | (t, x) # xs \<Rightarrow> (x, d\<lparr>db_outcomes := xs, db_now := db_now d + int t\<rparr>))"

text \<open>Run the statement \<open>q\<close>; \<open>ok\<close> says whether its text parameters are acceptable.\<close>

definition sql :: "bool \<Rightarrow> 'a stmt \<Rightarrow> 'a stmt" where
  "sql ok q d = (case next_outcome d of (x, d') \<Rightarrow>
     (case x of
        Done \<Rightarrow> if ok then q d' else (Inl (ErrPg ''22021''), d')
      | NotDone m \<Rightarrow> (Inl (ErrText m), d')
      | DoneLost m \<Rightarrow> (Inl (ErrText m), if ok then snd (q d') else d')))"

text \<open>
  Sequencing with Go's \<open>if err != nil { return err }\<close>, and rewriting the error of a call.
\<close>

definition and_then :: "'a stmt \<Rightarrow> ('a \<Rightarrow> 'b stmt) \<Rightarrow> 'b stmt" where
  "and_then m f d = (case m d of (Inl e, d') \<Rightarrow> (Inl e, d') | (Inr a, d') \<Rightarrow> f a d')"

definition ret :: "'a \<Rightarrow> 'a stmt" where "ret a d = (Inr a, d)"

definition fail :: "go_error \<Rightarrow> 'a stmt" where "fail e d = (Inl e, d)"

definition map_err :: "(go_error \<Rightarrow> go_error) \<Rightarrow> 'a stmt \<Rightarrow> 'a stmt" where
  "map_err g m d = (case m d of (Inl e, d') \<Rightarrow> (Inl (g e), d') | (Inr a, d') \<Rightarrow> (Inr a, d'))"

text \<open>
  A transaction: \<open>Begin\<close>, the body, \<open>Commit\<close>, and the deferred \<open>Rollback\<close> on every other way
  out. A rollback restores the tables, not the sequences.
\<close>

definition rollback :: "db \<Rightarrow> db \<Rightarrow> db" where
  "rollback d0 d = d\<lparr>db_users := db_users d0, db_tokens := db_tokens d0, db_tunnels := db_tunnels d0,
     db_events := db_events d0, db_snaps := db_snaps d0\<rparr>"

definition transaction :: "'a stmt \<Rightarrow> 'a stmt" where
  "transaction body d =
     (case next_outcome d of (b, d0) \<Rightarrow>
       (case b of
          NotDone m \<Rightarrow> (Inl (ErrText m), d0)
        | DoneLost m \<Rightarrow> (Inl (ErrText m), d0)
        | Done \<Rightarrow>
            (case body d0 of
               (Inl e, d1) \<Rightarrow> (Inl e, rollback d0 d1)
             | (Inr a, d1) \<Rightarrow>
                 (case next_outcome d1 of (c, d2) \<Rightarrow>
                   (case c of
                      Done \<Rightarrow> (Inr a, d2)
                    | NotDone m \<Rightarrow> (Inl (ErrText m), rollback d0 d2)
                    | DoneLost m \<Rightarrow> (Inl (ErrText m), d2))))))"

lemmas stmt_defs = and_then_def ret_def fail_def map_err_def

lemma sql_quiet [simp]: "db_outcomes d = [] \<Longrightarrow> sql ok q d = (if ok then q d else (Inl (ErrPg ''22021''), d))"
  by (simp add: sql_def next_outcome_def)

lemma next_outcome_quiet [simp]: "db_outcomes d = [] \<Longrightarrow> next_outcome d = (Done, d)"
  by (simp add: next_outcome_def)

section \<open>Well-formed databases\<close>

text \<open>
  What the schema's keys and references say of the tables, and what the code keeps of the event
  bookkeeping: an event is dead only after at least five failed attempts, and a delivered event has its
  delivery time.
\<close>

definition max_attempts :: int where "max_attempts = 5"

definition event_ok :: "event \<Rightarrow> bool" where
  "event_ok e = (0 \<le> ev_attempts e \<and> (ev_state e = EventDead \<longrightarrow> max_attempts \<le> ev_attempts e)
     \<and> (ev_state e = EventDelivered \<longrightarrow> ev_delivered e \<noteq> None))"

definition users_wf :: "db \<Rightarrow> bool" where
  "users_wf d = (distinct (map us_id (db_users d)) \<and> distinct (map us_email (db_users d))
     \<and> (\<forall>u \<in> set (db_users d). us_id u < db_next_user d)
     \<and> distinct (map tk_hash (db_tokens d))
     \<and> (\<forall>t \<in> set (db_tokens d). tk_user t \<in> us_id ` set (db_users d)))"

definition tunnels_wf :: "db \<Rightarrow> bool" where
  "tunnels_wf d = (distinct (map tn_id (db_tunnels d)) \<and> distinct (map tn_sub (db_tunnels d))
     \<and> (\<forall>t \<in> set (db_tunnels d). 0 < tn_id t \<and> tn_id t < db_next_tunnel d
           \<and> tn_user t \<in> us_id ` set (db_users d)) \<and> 0 < db_next_tunnel d)"

definition events_wf :: "db \<Rightarrow> bool" where
  "events_wf d = (distinct (map ev_id (db_events d))
     \<and> (\<forall>e \<in> set (db_events d). ev_id e < db_next_event d \<and> ev_received e \<le> db_now d
           \<and> ev_tunnel e \<in> tn_id ` set (db_tunnels d) \<and> event_ok e))"

definition snap_key :: "snap \<Rightarrow> int \<times> bytes \<times> bytes" where
  "snap_key s = (sn_tunnel s, sn_path s, sn_query s)"

definition snaps_wf :: "db \<Rightarrow> bool" where
  "snaps_wf d = (distinct (map snap_key (db_snaps d))
     \<and> (\<forall>s \<in> set (db_snaps d). sn_time s \<le> db_now d \<and> sn_tunnel s \<in> tn_id ` set (db_tunnels d)))"

definition db_wf :: "db \<Rightarrow> bool" where
  "db_wf d = (users_wf d \<and> tunnels_wf d \<and> events_wf d \<and> snaps_wf d)"

lemmas wf_defs = db_wf_def users_wf_def tunnels_wf_def events_wf_def snaps_wf_def

lemma db_wf_empty: "db_wf empty_db"
  by (simp add: wf_defs empty_db_def)

section \<open>How a database may evolve\<close>

text \<open>
  What no operation of the store ever undoes: accounts and tokens stay, a tunnel keeps its
  number, name and owner, an event keeps the request it holds, an event number is never used
  twice, and sequences and clock only go forward.
\<close>

definition ev_content :: "event \<Rightarrow> int \<times> bytes \<times> bytes \<times> bytes \<times> header \<times> bytes \<times> int" where
  "ev_content e = (ev_tunnel e, ev_method e, ev_path e, ev_query e, ev_headers e, ev_body e, ev_received e)"

definition tn_ident :: "tunnel \<Rightarrow> int \<times> int \<times> bytes" where
  "tn_ident t = (tn_id t, tn_user t, tn_sub t)"

definition us_ident :: "user_row \<Rightarrow> int \<times> bytes" where
  "us_ident u = (us_id u, us_email u)"

definition grows :: "db \<Rightarrow> db \<Rightarrow> bool" where
  "grows d d' =
     (db_next_user d \<le> db_next_user d' \<and> db_next_tunnel d \<le> db_next_tunnel d'
      \<and> db_next_event d \<le> db_next_event d' \<and> db_now d \<le> db_now d'
      \<and> us_ident ` set (db_users d) \<subseteq> us_ident ` set (db_users d')
      \<and> set (db_tokens d) \<subseteq> set (db_tokens d')
      \<and> tn_ident ` set (db_tunnels d) \<subseteq> tn_ident ` set (db_tunnels d'))"

definition keeps_events :: "db \<Rightarrow> db \<Rightarrow> bool" where
  "keeps_events d d' =
     (\<forall>e' \<in> set (db_events d'). ev_id e' < db_next_event d \<longrightarrow>
        (\<exists>e \<in> set (db_events d). ev_id e = ev_id e' \<and> ev_content e = ev_content e'))"

definition evolves :: "db \<Rightarrow> db \<Rightarrow> bool" where
  "evolves d d' = (grows d d' \<and> keeps_events d d')"

lemmas evolves_defs = evolves_def grows_def keeps_events_def

lemma keeps_same_events: "db_events d' = db_events d \<Longrightarrow> keeps_events d d'"
  by (auto simp: keeps_events_def)

lemma evolves_refl [simp, intro]: "evolves d d"
  by (auto simp: evolves_defs)

lemma evolves_events:
  "evolves d d' \<Longrightarrow> e' \<in> set (db_events d') \<Longrightarrow> ev_id e' < db_next_event d \<Longrightarrow>
     \<exists>e \<in> set (db_events d). ev_id e = ev_id e' \<and> ev_content e = ev_content e'"
  by (simp add: evolves_defs)

lemma evolves_next_event: "evolves d d' \<Longrightarrow> db_next_event d \<le> db_next_event d'"
  by (simp add: evolves_defs)

lemma grows_trans: "grows d1 d2 \<Longrightarrow> grows d2 d3 \<Longrightarrow> grows d1 d3"
  unfolding grows_def by (elim conjE, intro conjI) (assumption | erule (1) order_trans)+

lemma evolves_trans:
  assumes a: "evolves d1 d2" and b: "evolves d2 d3"
  shows "evolves d1 d3"
proof -
  have ev: "\<exists>e \<in> set (db_events d1). ev_id e = ev_id e' \<and> ev_content e = ev_content e'"
    if e': "e' \<in> set (db_events d3)" "ev_id e' < db_next_event d1" for e'
  proof -
    have "ev_id e' < db_next_event d2" using that evolves_next_event [OF a] by simp
    from evolves_events [OF b e'(1) this] obtain e where
      e: "e \<in> set (db_events d2)" "ev_id e = ev_id e'" "ev_content e = ev_content e'" by blast
    from evolves_events [OF a e(1)] e e'(2) show ?thesis by metis
  qed
  have "keeps_events d1 d3" unfolding keeps_events_def using ev by blast
  moreover have "grows d1 d3" using a b grows_trans unfolding evolves_def by blast
  ultimately show ?thesis by (simp add: evolves_def)
qed

text \<open>A statement is \<open>good\<close> when it keeps the database well-formed and lets it evolve.\<close>

definition good :: "'a stmt \<Rightarrow> bool" where
  "good m = (\<forall>d. db_wf d \<longrightarrow> db_wf (snd (m d)) \<and> evolves d (snd (m d)))"

lemma goodI: "(\<And>d. db_wf d \<Longrightarrow> db_wf (snd (m d)) \<and> evolves d (snd (m d))) \<Longrightarrow> good m"
  by (simp add: good_def)

lemma good_wf: "good m \<Longrightarrow> db_wf d \<Longrightarrow> db_wf (snd (m d))"
  by (simp add: good_def)

lemma good_evolves: "good m \<Longrightarrow> db_wf d \<Longrightarrow> evolves d (snd (m d))"
  by (simp add: good_def)

lemma good_same: "good m \<Longrightarrow> db_wf d \<Longrightarrow> m d = (r, d') \<Longrightarrow> db_wf d' \<and> evolves d d'"
  by (metis good_def snd_conv)

lemma next_outcome_good:
  assumes "db_wf d" and "next_outcome d = (x, d')"
  shows "db_wf d' \<and> evolves d d'"
  using assms by (auto simp: next_outcome_def wf_defs evolves_defs add_increasing2 split: list.splits)

lemma next_outcome_tables:
  "next_outcome d = (x, d') \<Longrightarrow> db_users d' = db_users d \<and> db_tokens d' = db_tokens d
     \<and> db_tunnels d' = db_tunnels d \<and> db_events d' = db_events d \<and> db_snaps d' = db_snaps d
     \<and> db_next_user d' = db_next_user d \<and> db_next_tunnel d' = db_next_tunnel d
     \<and> db_next_event d' = db_next_event d \<and> db_now d \<le> db_now d'"
  by (auto simp: next_outcome_def split: list.splits)

lemma good_sql [wf_intros]: "good q \<Longrightarrow> good (sql ok q)"
proof (rule goodI)
  fix d assume q: "good q" and d: "db_wf d"
  obtain x d' where n: "next_outcome d = (x, d')" by fastforce
  note d' = next_outcome_good [OF d n]
  have "db_wf (snd (q d')) \<and> evolves d (snd (q d'))"
    using q d' by (metis evolves_trans good_def)
  then show "db_wf (snd (sql ok q d)) \<and> evolves d (snd (sql ok q d))"
    using d' n by (simp add: sql_def split: outcome.split)
qed

lemma good_and_then [wf_intros]: "good m \<Longrightarrow> (\<And>a. good (f a)) \<Longrightarrow> good (and_then m f)"
proof (rule goodI)
  fix d assume m: "good m" and f: "\<And>a. good (f a)" and d: "db_wf d"
  obtain r d' where r: "m d = (r, d')" by fastforce
  have d': "db_wf d'" "evolves d d'" using m d r by (metis good_def snd_conv)+
  have "db_wf (snd (f a d')) \<and> evolves d (snd (f a d'))" for a
    using f d' by (metis evolves_trans good_def)
  then show "db_wf (snd (and_then m f d)) \<and> evolves d (snd (and_then m f d))"
    using d' r by (simp add: and_then_def split: sum.split)
qed

lemma good_ret [wf_intros]: "good (ret a)"
  by (simp add: good_def ret_def)

lemma good_fail [wf_intros]: "good (fail e)"
  by (simp add: good_def fail_def)

lemma snd_map_err [simp]: "snd (map_err g m d) = snd (m d)"
  by (simp add: map_err_def split: prod.split sum.split)

lemma good_map_err [wf_intros]: "good m \<Longrightarrow> good (map_err g m)"
  by (simp add: good_def)

lemma good_read: "(\<And>d. snd (q d) = d) \<Longrightarrow> good q"
  by (simp add: good_def)

lemma rollback_good:
  assumes "db_wf d0" and "evolves d0 d"
  shows "db_wf (rollback d0 d) \<and> evolves d0 (rollback d0 d)"
  using assms by (fastforce simp: wf_defs evolves_defs rollback_def)

lemma good_transaction [wf_intros]: "good m \<Longrightarrow> good (transaction m)"
proof (rule goodI)
  fix d assume m: "good m" and d: "db_wf d"
  obtain b d0 where b: "next_outcome d = (b, d0)" by fastforce
  obtain r d1 where r: "m d0 = (r, d1)" by fastforce
  obtain c d2 where c: "next_outcome d1 = (c, d2)" by fastforce
  have d0: "db_wf d0" "evolves d d0" using next_outcome_good [OF d b] by auto
  have d1: "db_wf d1" "evolves d0 d1" using m d0 r by (metis good_def snd_conv)+
  have d2: "db_wf d2" "evolves d0 d2"
    using next_outcome_good [OF d1(1) c] d1 evolves_trans by blast+
  have r1: "db_wf (rollback d0 d1) \<and> evolves d (rollback d0 d1)"
    using rollback_good [OF d0(1) d1(2)] d0(2) evolves_trans by blast
  have r2: "db_wf (rollback d0 d2) \<and> evolves d (rollback d0 d2)"
    using rollback_good [OF d0(1) d2(2)] d0(2) evolves_trans by blast
  have "evolves d d2" using d0 d2 evolves_trans by blast
  then show "db_wf (snd (transaction m d)) \<and> evolves d (snd (transaction m d))"
    using d0 r1 r2 d2 by (simp add: transaction_def b r c split: outcome.split sum.split)
qed

section \<open>Reading a successful run backwards\<close>

definition same_tables :: "db \<Rightarrow> db \<Rightarrow> bool" where
  "same_tables d d' = (db_users d' = db_users d \<and> db_tokens d' = db_tokens d \<and> db_tunnels d' = db_tunnels d
     \<and> db_events d' = db_events d \<and> db_snaps d' = db_snaps d)"

lemma same_tables_refl [simp]: "same_tables d d"
  by (simp add: same_tables_def)

lemma same_tables_trans: "same_tables a b \<Longrightarrow> same_tables b c \<Longrightarrow> same_tables a c"
  by (simp add: same_tables_def)

lemma same_tables_rollback: "same_tables d0 (rollback d0 d)"
  by (simp add: same_tables_def rollback_def)

lemma next_outcome_same: "next_outcome d = (x, d') \<Longrightarrow> same_tables d d'"
  by (auto simp: next_outcome_def same_tables_def split: list.splits)

lemma sql_Inr:
  assumes "sql ok q d = (Inr a, d')"
  obtains d0 where "ok" "next_outcome d = (Done, d0)" "q d0 = (Inr a, d')" "same_tables d d0"
  using assms next_outcome_same [of d]
  by (auto simp: sql_def split: prod.splits outcome.splits if_splits)

lemma and_then_Inr:
  assumes "and_then m f d = (Inr b, d')"
  obtains a d0 where "m d = (Inr a, d0)" "f a d0 = (Inr b, d')"
  using assms by (auto simp: and_then_def split: prod.splits sum.splits)

lemma map_err_Inr: "map_err g m d = (Inr a, d') \<longleftrightarrow> m d = (Inr a, d')"
  by (auto simp: map_err_def split: prod.splits sum.splits)

lemma map_err_Inl: "map_err g m d = (Inl e, d') \<longleftrightarrow> (\<exists>e'. m d = (Inl e', d') \<and> e = g e')"
  by (auto simp: map_err_def split: prod.splits sum.splits)

lemma transaction_Inr:
  assumes "transaction m d = (Inr a, d')"
  obtains d0 d1 where "same_tables d d0" "next_outcome d = (Done, d0)" "m d0 = (Inr a, d1)"
    "next_outcome d1 = (Done, d')" "same_tables d1 d'"
  using assms next_outcome_same
  by (fastforce simp: transaction_def split: prod.splits outcome.splits sum.splits)

lemma transaction_cases:
  assumes "transaction m d = (r, d')"
  shows "(isl r \<and> same_tables d d')
    \<or> (\<exists>a d0 d1. same_tables d d0 \<and> next_outcome d = (Done, d0) \<and> m d0 = (Inr a, d1) \<and> same_tables d1 d')"
proof -
  obtain b d0 where b: "next_outcome d = (b, d0)" by fastforce
  obtain q d1 where q: "m d0 = (q, d1)" by fastforce
  obtain c d2 where c: "next_outcome d1 = (c, d2)" by fastforce
  note t = next_outcome_same [OF b] next_outcome_same [OF c] same_tables_rollback [of d0 d1] same_tables_rollback [of d0 d2]
  have rb: "same_tables d (rollback d0 d1)" "same_tables d (rollback d0 d2)"
    using t same_tables_trans by blast+
  show ?thesis using assms t rb
    by (auto simp: transaction_def b q c split: outcome.splits sum.splits)
qed

lemma transaction_body_fails:
  assumes "\<And>d0. next_outcome d = (Done, d0) \<Longrightarrow> \<exists>e. fst (m d0) = Inl e"
  shows "(\<exists>e. fst (transaction m d) = Inl e) \<and> same_tables d (snd (transaction m d))"
proof -
  obtain b d0 where b: "next_outcome d = (b, d0)" by fastforce
  obtain r d1 where r: "m d0 = (r, d1)" by fastforce
  have "same_tables d (rollback d0 d1)"
    using next_outcome_same [OF b] same_tables_rollback same_tables_trans by blast
  then show ?thesis
    using assms [of d0] b r next_outcome_same [OF b]
    by (auto simp: transaction_def split: outcome.split)
qed

lemma evolves_token: "evolves d d' \<Longrightarrow> t \<in> set (db_tokens d) \<Longrightarrow> t \<in> set (db_tokens d')"
  by (auto simp: evolves_defs)

lemma evolves_user:
  assumes "evolves d d'" and "u \<in> set (db_users d)"
  shows "\<exists>u' \<in> set (db_users d'). us_id u' = us_id u \<and> us_email u' = us_email u"
proof -
  have "us_ident u \<in> us_ident ` set (db_users d')" using assms by (auto simp: evolves_defs)
  then show ?thesis by (auto simp: us_ident_def)
qed

lemma evolves_tunnel:
  assumes "evolves d d'" and "t \<in> set (db_tunnels d)"
  shows "\<exists>t' \<in> set (db_tunnels d'). tn_id t' = tn_id t \<and> tn_user t' = tn_user t \<and> tn_sub t' = tn_sub t"
proof -
  have "tn_ident t \<in> tn_ident ` set (db_tunnels d')" using assms by (auto simp: evolves_defs)
  then show ?thesis by (auto simp: tn_ident_def)
qed

end
