(* ===== verification/StoreUsers.thy ===== *)
theory StoreUsers
  imports Db
begin

text \<open>
  \<open>internal/store/users.go\<close>: accounts, their passwords, and the bearer tokens, of which only the
  SHA-256 hash is stored. Random bytes and the bcrypt salt drawn by a call are arguments
  (\<open>None\<close> when the random source fails). The laws used of the hash functions are hypotheses of
  the theorems that need them.
\<close>

record user =
  u_id :: int
  u_email :: bytes

definition to_user :: "user_row \<Rightarrow> user" where
  "to_user r = \<lparr>u_id = us_id r, u_email = us_email r\<rparr>"

definition hashToken :: "platform \<Rightarrow> bytes \<Rightarrow> bytes" where
  "hashToken P token = hex_encode (pl_sha256 P token)"

section \<open>The statements\<close>

definition sql_upsert_user :: "bytes \<Rightarrow> user stmt" where
  "sql_upsert_user email d =
     (case find (\<lambda>r. us_email r = email) (db_users d) of
        Some r \<Rightarrow> (Inr (to_user r), d\<lparr>db_next_user := db_next_user d + 1\<rparr>)
      | None \<Rightarrow> (Inr \<lparr>u_id = db_next_user d, u_email = email\<rparr>,
          d\<lparr>db_users := db_users d @ [\<lparr>us_id = db_next_user d, us_email = email, us_password = None\<rparr>],
            db_next_user := db_next_user d + 1\<rparr>))"

definition sql_insert_user :: "bytes \<Rightarrow> bytes \<Rightarrow> user stmt" where
  "sql_insert_user email hash d =
     (case find (\<lambda>r. us_email r = email) (db_users d) of
        Some r \<Rightarrow> (Inl (ErrPg ''23505''), d\<lparr>db_next_user := db_next_user d + 1\<rparr>)
      | None \<Rightarrow> (Inr \<lparr>u_id = db_next_user d, u_email = email\<rparr>,
          d\<lparr>db_users := db_users d @ [\<lparr>us_id = db_next_user d, us_email = email, us_password = Some hash\<rparr>],
            db_next_user := db_next_user d + 1\<rparr>))"

definition sql_insert_token :: "bytes \<Rightarrow> int \<Rightarrow> unit stmt" where
  "sql_insert_token hash uid d =
     (if hash \<in> tk_hash ` set (db_tokens d) then (Inl (ErrPg ''23505''), d)
      else if uid \<notin> us_id ` set (db_users d) then (Inl (ErrPg ''23503''), d)
      else (Inr (), d\<lparr>db_tokens := db_tokens d @ [\<lparr>tk_hash = hash, tk_user = uid\<rparr>]\<rparr>))"

definition sql_user_by_token :: "bytes \<Rightarrow> user stmt" where
  "sql_user_by_token hash d =
     (case find (\<lambda>t. tk_hash t = hash) (db_tokens d) of
        None \<Rightarrow> (Inl ErrNoRows, d)
      | Some t \<Rightarrow> (case find (\<lambda>r. us_id r = tk_user t) (db_users d) of
           None \<Rightarrow> (Inl ErrNoRows, d)
         | Some r \<Rightarrow> (Inr (to_user r), d)))"

definition sql_user_by_email :: "bytes \<Rightarrow> user_row stmt" where
  "sql_user_by_email email d =
     (case find (\<lambda>r. us_email r = email) (db_users d) of
        None \<Rightarrow> (Inl ErrNoRows, d) | Some r \<Rightarrow> (Inr r, d))"

definition sql_set_password :: "bytes \<Rightarrow> bytes \<Rightarrow> user stmt" where
  "sql_set_password hash email d =
     (case find (\<lambda>r. us_email r = email) (db_users d) of
        None \<Rightarrow> (Inl ErrNoRows, d)
      | Some r \<Rightarrow> (Inr (to_user r),
          d\<lparr>db_users := map (\<lambda>r. if us_email r = email then r\<lparr>us_password := Some hash\<rparr> else r) (db_users d)\<rparr>))"

section \<open>The operations\<close>

definition CreateUser :: "bytes \<Rightarrow> user stmt" where
  "CreateUser email = sql (pg_text email) (sql_upsert_user email)"

definition NewToken :: "platform \<Rightarrow> bytes option \<Rightarrow> int \<Rightarrow> bytes stmt" where
  "NewToken P rnd uid =
     (case rnd of
        None \<Rightarrow> fail (ErrText ''crypto/rand'')
      | Some raw \<Rightarrow>
          (let token = ''lu_'' @ hex_encode raw; hash = hashToken P token in
           and_then (sql True (sql_insert_token hash uid)) (\<lambda>_. ret token)))"

definition UserByToken :: "platform \<Rightarrow> bytes \<Rightarrow> user stmt" where
  "UserByToken P token =
     map_err (\<lambda>e. if errors_Is e ErrNoRows then ErrNotFound else Wrap ''lookup token'' e)
       (sql True (sql_user_by_token (hashToken P token)))"

definition SignUp :: "platform \<Rightarrow> bytes \<Rightarrow> bytes option \<Rightarrow> bytes \<Rightarrow> bytes \<Rightarrow> (user \<times> bytes) stmt" where
  "SignUp P salt rnd email password =
     (case pl_bcrypt_gen P salt password of
        None \<Rightarrow> fail (Wrap ''hash password'' (ErrText ''bcrypt''))
      | Some hash \<Rightarrow>
          transaction
            (and_then
              (map_err (\<lambda>e. if errors_AsPg e = Some ''23505'' then ErrEmailTaken else Wrap ''insert user'' e)
                (sql (pg_text email \<and> pg_text hash) (sql_insert_user email hash)))
              (\<lambda>u. case rnd of
                 None \<Rightarrow> fail (ErrText ''crypto/rand'')
               | Some raw \<Rightarrow>
                   (let token = ''lu_'' @ hex_encode raw in
                    and_then (map_err (Wrap ''mint token'') (sql True (sql_insert_token (hashToken P token) (u_id u))))
                      (\<lambda>_. ret (u, token))))))"

definition VerifyPassword :: "platform \<Rightarrow> bytes \<Rightarrow> bytes \<Rightarrow> user stmt" where
  "VerifyPassword P email password =
     and_then
       (map_err (\<lambda>e. if errors_Is e ErrNoRows then ErrInvalidCredentials else Wrap ''lookup user'' e)
         (sql (pg_text email) (sql_user_by_email email)))
       (\<lambda>r. case us_password r of
          None \<Rightarrow> fail ErrInvalidCredentials
        | Some hash \<Rightarrow> if pl_bcrypt_cmp P hash password then ret (to_user r) else fail ErrInvalidCredentials)"

definition ResetPassword :: "platform \<Rightarrow> bytes \<Rightarrow> bytes \<Rightarrow> bytes \<Rightarrow> user stmt" where
  "ResetPassword P salt email newPassword =
     (case pl_bcrypt_gen P salt newPassword of
        None \<Rightarrow> fail (Wrap ''hash password'' (ErrText ''bcrypt''))
      | Some hash \<Rightarrow>
          map_err (\<lambda>e. if errors_Is e ErrNoRows then ErrNotFound else Wrap ''update password'' e)
            (sql (pg_text email \<and> pg_text hash) (sql_set_password hash email)))"

section \<open>Every operation keeps the database well-formed\<close>

lemma find_email_None: "find (\<lambda>r. us_email r = email) us = None \<longleftrightarrow> email \<notin> us_email ` set us"
  by (auto simp: find_None_iff image_iff)

lemma skip_user_good:
  assumes "db_wf d"
  shows "db_wf (d\<lparr>db_next_user := db_next_user d + 1\<rparr>) \<and> evolves d (d\<lparr>db_next_user := db_next_user d + 1\<rparr>)"
proof -
  have "users_wf (d\<lparr>db_next_user := db_next_user d + 1\<rparr>)"
    using assms by (auto simp: db_wf_def users_wf_def)
  then show ?thesis
    using assms by (simp add: db_wf_def tunnels_wf_def events_wf_def snaps_wf_def evolves_def grows_def keeps_same_events)
qed

lemma add_user_good:
  fixes email p d
  defines "d' \<equiv> d\<lparr>db_users := db_users d @ [\<lparr>us_id = db_next_user d, us_email = email, us_password = p\<rparr>],
            db_next_user := db_next_user d + 1\<rparr>"
  assumes d: "db_wf d" and e: "email \<notin> us_email ` set (db_users d)"
  shows "db_wf d' \<and> evolves d d'"
proof -
  have "db_next_user d \<notin> us_id ` set (db_users d)" using d by (auto simp: db_wf_def users_wf_def)
  then have "users_wf d'" using d e by (auto simp: db_wf_def users_wf_def d'_def)
  moreover have "tunnels_wf d'" using d by (auto simp: db_wf_def tunnels_wf_def d'_def)
  moreover have "events_wf d'" "snaps_wf d'"
    using d by (simp_all add: db_wf_def events_wf_def snaps_wf_def d'_def)
  moreover have "evolves d d'" by (auto simp: evolves_def grows_def keeps_same_events d'_def)
  ultimately show ?thesis by (simp add: db_wf_def)
qed

lemma good_upsert_user [wf_intros]: "good (sql_upsert_user email)"
proof (rule goodI)
  fix d assume d: "db_wf d"
  show "db_wf (snd (sql_upsert_user email d)) \<and> evolves d (snd (sql_upsert_user email d))"
    using skip_user_good [OF d] add_user_good [OF d, of email None]
    by (simp add: sql_upsert_user_def find_email_None split: option.split)
qed

lemma good_insert_user [wf_intros]: "good (sql_insert_user email hash)"
proof (rule goodI)
  fix d assume d: "db_wf d"
  show "db_wf (snd (sql_insert_user email hash d)) \<and> evolves d (snd (sql_insert_user email hash d))"
    using skip_user_good [OF d] add_user_good [OF d, of email "Some hash"]
    by (simp add: sql_insert_user_def find_email_None split: option.split)
qed

lemma good_insert_token [wf_intros]: "good (sql_insert_token hash uid)"
  by (rule goodI) (auto simp: sql_insert_token_def wf_defs evolves_defs)

lemma snd_user_by_token [simp]: "snd (sql_user_by_token h d) = d"
  by (simp add: sql_user_by_token_def split: option.split)

lemma snd_user_by_email [simp]: "snd (sql_user_by_email email d) = d"
  by (simp add: sql_user_by_email_def split: option.split)

lemma set_password_ident [simp]:
  "us_id (if c then r\<lparr>us_password := p\<rparr> else r) = us_id r"
  "us_email (if c then r\<lparr>us_password := p\<rparr> else r) = us_email r"
  "us_ident (if c then r\<lparr>us_password := p\<rparr> else r) = us_ident r"
  by (simp_all add: us_ident_def)

lemma set_password_map [simp]:
  "map us_id (map (\<lambda>r. if us_email r = email then r\<lparr>us_password := p\<rparr> else r) us) = map us_id (us :: user_row list)"
  "map us_email (map (\<lambda>r. if us_email r = email then r\<lparr>us_password := p\<rparr> else r) us) = map us_email (us :: user_row list)"
  "us_id ` (\<lambda>r. if us_email r = email then r\<lparr>us_password := p\<rparr> else r) ` A = us_id ` A"
  "us_ident ` (\<lambda>r. if us_email r = email then r\<lparr>us_password := p\<rparr> else r) ` A = us_ident ` A"
  by (simp_all only: map_map comp_def set_password_ident image_image)

lemma good_set_password [wf_intros]: "good (sql_set_password hash email)"
proof (rule goodI)
  fix d assume d: "db_wf d"
  define us where "us = map (\<lambda>r. if us_email r = email then r\<lparr>us_password := Some hash\<rparr> else r) (db_users d)"
  have m: "map us_id us = map us_id (db_users d)" "map us_email us = map us_email (db_users d)"
    "us_id ` set us = us_id ` set (db_users d)" "us_ident ` set us = us_ident ` set (db_users d)"
    unfolding us_def by (simp_all only: set_password_map set_map)
  have n: "\<forall>u \<in> set us. us_id u < db_next_user d"
    using d m(3) unfolding wf_defs by (metis (no_types, lifting) imageE imageI)
  have "db_wf (d\<lparr>db_users := us\<rparr>) \<and> evolves d (d\<lparr>db_users := us\<rparr>)"
    using d m n by (simp add: wf_defs evolves_def grows_def keeps_same_events)
  then show "db_wf (snd (sql_set_password hash email d)) \<and> evolves d (snd (sql_set_password hash email d))"
    using d by (simp add: sql_set_password_def us_def split: option.split)
qed

lemma good_CreateUser [wf_intros]: "good (CreateUser email)"
  unfolding CreateUser_def by (intro wf_intros)

lemma good_NewToken [wf_intros]: "good (NewToken P rnd uid)"
  unfolding NewToken_def Let_def by (cases rnd) (auto intro!: wf_intros)

lemma good_UserByToken [wf_intros]: "good (UserByToken P token)"
  unfolding UserByToken_def by (intro wf_intros good_read) simp

lemma good_SignUp [wf_intros]: "good (SignUp P salt rnd email password)"
  unfolding SignUp_def Let_def
  by (auto intro!: wf_intros split: option.split)

lemma good_VerifyPassword [wf_intros]: "good (VerifyPassword P email password)"
  unfolding VerifyPassword_def by (auto intro!: wf_intros intro: good_read split: option.split)

lemma good_ResetPassword [wf_intros]: "good (ResetPassword P salt email password)"
  unfolding ResetPassword_def by (auto intro!: wf_intros split: option.split)

section \<open>Accounts and tokens\<close>

lemma sql_insert_user_Inr:
  "sql_insert_user email hash d = (Inr u, d') \<longleftrightarrow>
     email \<notin> us_email ` set (db_users d) \<and> u = \<lparr>u_id = db_next_user d, u_email = email\<rparr>
     \<and> d' = d\<lparr>db_users := db_users d @ [\<lparr>us_id = db_next_user d, us_email = email, us_password = Some hash\<rparr>],
            db_next_user := db_next_user d + 1\<rparr>"
  by (auto simp: sql_insert_user_def simp flip: find_email_None split: option.splits)

lemma sql_insert_token_Inr:
  "sql_insert_token hash uid d = (Inr (), d') \<longleftrightarrow>
     hash \<notin> tk_hash ` set (db_tokens d) \<and> uid \<in> us_id ` set (db_users d)
     \<and> d' = d\<lparr>db_tokens := db_tokens d @ [\<lparr>tk_hash = hash, tk_user = uid\<rparr>]\<rparr>"
  by (auto simp: sql_insert_token_def)

lemma NewToken_row:
  assumes "NewToken P rnd uid d = (Inr token, d')"
  shows "\<lparr>tk_hash = hashToken P token, tk_user = uid\<rparr> \<in> set (db_tokens d')"
proof -
  obtain raw where rnd: "rnd = Some raw" using assms by (cases rnd) (auto simp: NewToken_def fail_def)
  have "and_then (sql True (sql_insert_token (hashToken P (''lu_'' @ hex_encode raw)) uid))
      (\<lambda>_. ret (''lu_'' @ hex_encode raw)) d = (Inr token, d')"
    using assms by (simp add: NewToken_def rnd Let_def)
  then obtain x d0 where "sql True (sql_insert_token (hashToken P (''lu_'' @ hex_encode raw)) uid) d = (Inr x, d0)"
    and t: "ret (''lu_'' @ hex_encode raw) d0 = (Inr token, d')" by (rule and_then_Inr)
  then obtain d1 where "sql_insert_token (hashToken P (''lu_'' @ hex_encode raw)) uid d1 = (Inr (), d0)"
    by (auto elim: sql_Inr)
  then show ?thesis using t by (auto simp: sql_insert_token_Inr ret_def)
qed

text \<open>What a successful sign-up has stored: the account with its password hash, and the token's hash.\<close>

lemma SignUp_rows:
  assumes "SignUp P salt rnd email password d = (Inr (u, token), d')"
  obtains hash where "pl_bcrypt_gen P salt password = Some hash" and "u_email u = email"
    and "email \<notin> us_email ` set (db_users d)"
    and "\<lparr>us_id = u_id u, us_email = email, us_password = Some hash\<rparr> \<in> set (db_users d')"
    and "\<lparr>tk_hash = hashToken P token, tk_user = u_id u\<rparr> \<in> set (db_tokens d')"
proof -
  obtain hash where g: "pl_bcrypt_gen P salt password = Some hash"
    using assms by (cases "pl_bcrypt_gen P salt password") (auto simp: SignUp_def fail_def)
  obtain d0 d1 where d0: "same_tables d d0" and d1: "same_tables d1 d'"
    and body: "and_then
        (map_err (\<lambda>e. if errors_AsPg e = Some ''23505'' then ErrEmailTaken else Wrap ''insert user'' e)
          (sql (pg_text email \<and> pg_text hash) (sql_insert_user email hash)))
        (\<lambda>u. case rnd of None \<Rightarrow> fail (ErrText ''crypto/rand'')
           | Some raw \<Rightarrow> (let token = ''lu_'' @ hex_encode raw in
               and_then (map_err (Wrap ''mint token'') (sql True (sql_insert_token (hashToken P token) (u_id u))))
                 (\<lambda>_. ret (u, token)))) d0 = (Inr (u, token), d1)"
    using assms by (auto simp: SignUp_def g elim: transaction_Inr)
  from body obtain u1 d2 where ins: "sql (pg_text email \<and> pg_text hash) (sql_insert_user email hash) d0 = (Inr u1, d2)"
    and rest: "(case rnd of None \<Rightarrow> fail (ErrText ''crypto/rand'')
           | Some raw \<Rightarrow> (let token = ''lu_'' @ hex_encode raw in
               and_then (map_err (Wrap ''mint token'') (sql True (sql_insert_token (hashToken P token) (u_id u1))))
                 (\<lambda>_. ret (u1, token)))) d2 = (Inr (u, token), d1)"
    by (auto elim!: and_then_Inr simp: map_err_Inr)
  from ins obtain d3 where q: "sql_insert_user email hash d3 = (Inr u1, d2)" and d3: "same_tables d0 d3"
    by (auto elim: sql_Inr)
  obtain raw where rnd: "rnd = Some raw" using rest by (cases rnd) (auto simp: fail_def)
  from rest have "and_then (map_err (Wrap ''mint token'')
        (sql True (sql_insert_token (hashToken P (''lu_'' @ hex_encode raw)) (u_id u1))))
      (\<lambda>_. ret (u1, ''lu_'' @ hex_encode raw)) d2 = (Inr (u, token), d1)" by (simp only: rnd Let_def option.case)
  then obtain x d4 where tk0: "map_err (Wrap ''mint token'')
        (sql True (sql_insert_token (hashToken P (''lu_'' @ hex_encode raw)) (u_id u1))) d2 = (Inr x, d4)"
    and "ret (u1, ''lu_'' @ hex_encode raw) d4 = (Inr (u, token), d1)" by (rule and_then_Inr)
  then have u: "u = u1" and d4: "d1 = d4" and token: "token = ''lu_'' @ hex_encode raw" by (simp_all add: ret_def)
  have tk: "sql True (sql_insert_token (hashToken P token) (u_id u)) d2 = (Inr (), d4)"
    using tk0 unfolding map_err_Inr u token by simp
  from tk obtain d5 where tk': "sql_insert_token (hashToken P token) (u_id u) d5 = (Inr (), d4)"
    and d5: "same_tables d2 d5" by (auto elim: sql_Inr)
  show thesis
    using that [OF g] q tk' d0 d1 d3 d5 u d4
    by (simp add: sql_insert_user_Inr sql_insert_token_Inr same_tables_def)
qed

lemma token_lookup:
  assumes wf: "db_wf d" and row: "\<lparr>tk_hash = hashToken P token, tk_user = uid\<rparr> \<in> set (db_tokens d)"
    and usr: "r \<in> set (db_users d)" "us_id r = uid" and n: "next_outcome d = (Done, d')"
  shows "UserByToken P token d = (Inr (to_user r), d')"
proof -
  have t: "db_tokens d' = db_tokens d" "db_users d' = db_users d" using next_outcome_tables [OF n] by auto
  have "find (\<lambda>t. tk_hash t = tk_hash \<lparr>tk_hash = hashToken P token, tk_user = uid\<rparr>) (db_tokens d)
      = Some \<lparr>tk_hash = hashToken P token, tk_user = uid\<rparr>"
    using wf row by (intro find_key_Some) (auto simp: wf_defs)
  moreover have "find (\<lambda>x. us_id x = us_id r) (db_users d) = Some r"
    using wf usr by (intro find_key_Some) (auto simp: wf_defs)
  ultimately show ?thesis
    using usr(2) by (simp add: UserByToken_def sql_def n sql_user_by_token_def t map_err_def)
qed

text \<open>
  The token handed out by a sign-up identifies that account from then on: in every later
  state of the database (whatever else the store has done in between) a lookup that reaches
  the database returns exactly the user the sign-up returned.
\<close>
theorem signup_token_resolves:
  assumes "db_wf d" and "SignUp P salt rnd email password d = (Inr (u, token), d1)"
    and "evolves d1 d2" and "db_wf d2" and "next_outcome d2 = (Done, d3)"
  shows "UserByToken P token d2 = (Inr u, d3)"
proof -
  obtain hash where e: "u_email u = email"
    and ur: "\<lparr>us_id = u_id u, us_email = email, us_password = Some hash\<rparr> \<in> set (db_users d1)"
    and tr: "\<lparr>tk_hash = hashToken P token, tk_user = u_id u\<rparr> \<in> set (db_tokens d1)"
    using assms(2) by (rule SignUp_rows)
  obtain r where r: "r \<in> set (db_users d2)" "us_id r = u_id u" "us_email r = email"
    using evolves_user [OF assms(3) ur] by auto
  have "UserByToken P token d2 = (Inr (to_user r), d3)"
    using token_lookup [OF assms(4) evolves_token [OF assms(3) tr] r(1,2) assms(5)] .
  then show ?thesis using r e by (simp add: to_user_def)
qed

definition demo_platform :: platform where
  "demo_platform = \<lparr>pl_lower = id, pl_sha256 = id,
     pl_bcrypt_gen = (\<lambda>salt p. if length p \<le> 72 then Some (salt @ p) else None),
     pl_bcrypt_cmp = (\<lambda>h p. suffix p h), pl_pgmsg = id, pl_local_time = (\<lambda>t. [])\<rparr>"

definition demo_user_db :: db where
  "demo_user_db = snd (SignUp demo_platform ''s'' (Some ''r'') ''a@b.c'' ''password'' empty_db)"

lemma demo_user_db_eq: "demo_user_db =
  empty_db\<lparr>db_users := [\<lparr>us_id = 1, us_email = ''a@b.c'', us_password = Some ''spassword''\<rparr>],
    db_tokens := [\<lparr>tk_hash = hashToken demo_platform ''lu_72'', tk_user = 1\<rparr>], db_next_user := 2\<rparr>"
  by code_simp

theorem signup_token_resolves_witness:
  "UserByToken demo_platform ''lu_72'' demo_user_db = (Inr \<lparr>u_id = 1, u_email = ''a@b.c''\<rparr>, demo_user_db)"
proof (rule signup_token_resolves)
  show "db_wf empty_db" by (rule db_wf_empty)
  show "SignUp demo_platform ''s'' (Some ''r'') ''a@b.c'' ''password'' empty_db
      = (Inr (\<lparr>u_id = 1, u_email = ''a@b.c''\<rparr>, ''lu_72''), demo_user_db)" by code_simp
  show "evolves demo_user_db demo_user_db" by simp
  show "db_wf demo_user_db"
    unfolding demo_user_db_def by (rule good_wf [OF good_SignUp db_wf_empty])
  show "next_outcome demo_user_db = (Done, demo_user_db)"
    by (simp add: demo_user_db_eq empty_db_def)
qed

lemma SignUp_taken:
  assumes "email \<in> us_email ` set (db_users d)" and g: "pl_bcrypt_gen P salt password = Some hash"
  shows "(\<exists>e. fst (SignUp P salt rnd email password d) = Inl e) \<and> same_tables d (snd (SignUp P salt rnd email password d))"
  unfolding SignUp_def g option.case
proof (rule transaction_body_fails)
  fix d0 assume d0: "next_outcome d = (Done, d0)"
  obtain x d1 where x: "next_outcome d0 = (x, d1)" by fastforce
  then have "db_users d1 = db_users d" using next_outcome_tables d0 by metis
  then have "\<exists>e. fst (sql_insert_user email hash d1) = Inl e"
    using assms(1) find_email_None [of email "db_users d1"] by (auto simp: sql_insert_user_def split: option.split)
  then obtain e d2 where "sql (pg_text email \<and> pg_text hash) (sql_insert_user email hash) d0 = (Inl e, d2)"
    using x by (cases "sql (pg_text email \<and> pg_text hash) (sql_insert_user email hash) d0") (auto simp: sql_def split: outcome.splits if_splits)
  then show "\<exists>e. fst (and_then
      (map_err (\<lambda>e. if errors_AsPg e = Some ''23505'' then ErrEmailTaken else Wrap ''insert user'' e)
        (sql (pg_text email \<and> pg_text hash) (sql_insert_user email hash)))
      (\<lambda>u. case rnd of None \<Rightarrow> fail (ErrText ''crypto/rand'')
         | Some raw \<Rightarrow> (let token = ''lu_'' @ hex_encode raw in
             and_then (map_err (Wrap ''mint token'') (sql True (sql_insert_token (hashToken P token) (u_id u))))
               (\<lambda>_. ret (u, token)))) d0) = Inl e"
    by (simp add: and_then_def map_err_def)
qed

lemma SignUp_taken_quiet:
  assumes "email \<in> us_email ` set (db_users d)" and "pl_bcrypt_gen P salt password = Some hash"
    and "pg_text email" and "pg_text hash" and "db_outcomes d = []"
  shows "fst (SignUp P salt rnd email password d) = Inl ErrEmailTaken"
proof -
  obtain r where "find (\<lambda>r. us_email r = email) (db_users d) = Some r"
    using assms(1) find_email_None by (metis not_None_eq)
  then show ?thesis
    using assms(2-5) by (simp add: SignUp_def transaction_def and_then_def map_err_def sql_insert_user_def)
qed

text \<open>
  C39. Sign-up never touches an existing account, whether it was created by an earlier sign-up or
  seeded by an operator without a password: with the email registered it returns an error, no
  table changes whatever the database does, and if the database answers the error is the one
  that says the email is taken.
\<close>
theorem signup_never_claims_existing:
  assumes "email \<in> us_email ` set (db_users d)"
  shows "(\<exists>e. fst (SignUp P salt rnd email password d) = Inl e)
    \<and> same_tables d (snd (SignUp P salt rnd email password d))
    \<and> (pg_text email \<longrightarrow> (\<forall>hash. pl_bcrypt_gen P salt password = Some hash \<longrightarrow> pg_text hash) \<longrightarrow>
        pl_bcrypt_gen P salt password \<noteq> None \<longrightarrow> db_outcomes d = [] \<longrightarrow>
        fst (SignUp P salt rnd email password d) = Inl ErrEmailTaken)"
proof (cases "pl_bcrypt_gen P salt password")
  case None
  then show ?thesis by (simp add: SignUp_def fail_def)
next
  case (Some hash)
  then show ?thesis using SignUp_taken [OF assms Some] SignUp_taken_quiet [OF assms Some] by simp
qed

theorem signup_never_claims_existing_witness:
  "fst (SignUp demo_platform ''s'' (Some ''r'') ''a@b.c'' ''other-password'' demo_user_db) = Inl ErrEmailTaken"
  using signup_never_claims_existing [of "''a@b.c''" demo_user_db demo_platform "''s''" "Some ''r''" "''other-password''"]
  by (simp add: demo_user_db_eq empty_db_def demo_platform_def pg_text_def utf8_valid_ascii)

lemma verify_known:
  assumes n: "next_outcome d = (Done, d')" and t: "pg_text email"
    and f: "find (\<lambda>r. us_email r = email) (db_users d) = Some r"
  shows "VerifyPassword P email password d =
    (case us_password r of None \<Rightarrow> Inl ErrInvalidCredentials
     | Some h \<Rightarrow> if pl_bcrypt_cmp P h password then Inr (to_user r) else Inl ErrInvalidCredentials, d')"
  using assms next_outcome_tables [OF n]
  by (simp add: VerifyPassword_def and_then_def map_err_def sql_def sql_user_by_email_def ret_def fail_def
      split: option.split)

lemma find_set_password:
  "find (\<lambda>r. us_email r = email) (map (\<lambda>r. if us_email r = email then r\<lparr>us_password := p\<rparr> else r) us)
     = map_option (\<lambda>r. r\<lparr>us_password := p\<rparr>) (find (\<lambda>r. us_email r = email) (us :: user_row list))"
  by (induction us) auto

text \<open>
  A password reset takes effect at once and replaces whatever was there: right after it, a
  login with a password is accepted exactly when that password matches the hash just stored
  for the new one, and the account returned is the one that was reset.
\<close>
theorem reset_password_takes_effect:
  assumes "ResetPassword P salt email newpw d = (Inr u, d1)" and "next_outcome d1 = (Done, d2)"
    and "pl_bcrypt_gen P salt newpw = Some hash"
  shows "VerifyPassword P email password d1 =
    (if pl_bcrypt_cmp P hash password then Inr u else Inl ErrInvalidCredentials, d2)"
proof -
  from assms(1,3) obtain d0 where t: "pg_text email" and s: "sql_set_password hash email d0 = (Inr u, d1)"
    by (auto simp: ResetPassword_def map_err_Inr elim: sql_Inr)
  then obtain r where f: "find (\<lambda>r. us_email r = email) (db_users d0) = Some r" and u: "u = to_user r"
    and d1: "db_users d1 = map (\<lambda>r. if us_email r = email then r\<lparr>us_password := Some hash\<rparr> else r) (db_users d0)"
    by (auto simp: sql_set_password_def split: option.splits)
  have "find (\<lambda>r. us_email r = email) (db_users d1) = Some (r\<lparr>us_password := Some hash\<rparr>)"
    by (simp add: d1 find_set_password f)
  from verify_known [OF assms(2) t this] show ?thesis by (simp add: u to_user_def)
qed

theorem reset_password_takes_effect_witness:
  "\<exists>d. fst (VerifyPassword demo_platform ''a@b.c'' ''password'' d) = Inl ErrInvalidCredentials
     \<and> fst (VerifyPassword demo_platform ''a@b.c'' ''fresh-one'' d) = Inr \<lparr>u_id = 1, u_email = ''a@b.c''\<rparr>"
proof -
  define d where "d = snd (ResetPassword demo_platform ''t'' ''a@b.c'' ''fresh-one'' demo_user_db)"
  have r: "ResetPassword demo_platform ''t'' ''a@b.c'' ''fresh-one'' demo_user_db
      = (Inr \<lparr>u_id = 1, u_email = ''a@b.c''\<rparr>, d)" and o: "db_outcomes d = []"
    unfolding d_def demo_user_db_eq by code_simp+
  have g: "pl_bcrypt_gen demo_platform ''t'' ''fresh-one'' = Some ''tfresh-one''"
    by (simp add: demo_platform_def)
  have "suffix ''fresh-one'' ''tfresh-one''" "\<not> suffix ''password'' ''tfresh-one''" by code_simp+
  then show ?thesis
    using reset_password_takes_effect [OF r next_outcome_quiet [OF o] g, of "''password''"]
      reset_password_takes_effect [OF r next_outcome_quiet [OF o] g, of "''fresh-one''"]
    by (intro exI [of _ d]) (simp add: demo_platform_def)
qed

text \<open>
  C40. A login cannot be used to find out which emails are registered: when the database answers, then for an unknown email, for an
  account that has no password, and for a wrong password the answer is the same error, and
  nothing in the database changes.
\<close>
theorem login_does_not_enumerate:
  assumes "next_outcome d = (Done, d')" and "pg_text email"
    and "\<And>r. r \<in> set (db_users d) \<Longrightarrow> us_email r = email \<Longrightarrow>
        us_password r = None \<or> (\<exists>h. us_password r = Some h \<and> \<not> pl_bcrypt_cmp P h password)"
  shows "VerifyPassword P email password d = (Inl ErrInvalidCredentials, d') \<and> same_tables d d'"
proof (cases "find (\<lambda>r. us_email r = email) (db_users d)")
  case None
  then show ?thesis
    using assms(1,2) next_outcome_tables [OF assms(1)] next_outcome_same [OF assms(1)]
    by (simp add: VerifyPassword_def and_then_def map_err_def sql_def sql_user_by_email_def)
next
  case (Some r)
  then have "us_password r = None \<or> (\<exists>h. us_password r = Some h \<and> \<not> pl_bcrypt_cmp P h password)"
    using assms(3) [of r] find_in_set [OF Some] by auto
  then show ?thesis
    using verify_known [OF assms(1,2) Some] next_outcome_same [OF assms(1)] by auto
qed

theorem login_does_not_enumerate_witness:
  "VerifyPassword demo_platform ''x@y.z'' ''password'' demo_user_db = (Inl ErrInvalidCredentials, demo_user_db)
   \<and> VerifyPassword demo_platform ''a@b.c'' ''wrong'' demo_user_db = (Inl ErrInvalidCredentials, demo_user_db)"
proof -
  have n: "next_outcome demo_user_db = (Done, demo_user_db)" by (simp add: demo_user_db_eq empty_db_def)
  have "\<not> suffix ''wrong'' ''spassword''" by code_simp
  then show ?thesis
    using login_does_not_enumerate [OF n, of "''x@y.z''" demo_platform "''password''"]
      login_does_not_enumerate [OF n, of "''a@b.c''" demo_platform "''wrong''"]
    by (simp add: demo_user_db_eq empty_db_def demo_platform_def pg_text_def utf8_valid_ascii)
qed

end
