(* ===== verification/StoreTunnels.thy ===== *)
theory StoreTunnels
  imports StoreUsers
begin

text \<open>
  \<open>internal/store/tunnels.go\<close>: a tunnel is a subdomain with the user that claimed it first and
  the path globs its agent declared. The globs are stored as JSON, so what comes back has
  invalid UTF-8 replaced.
\<close>

definition json_strings :: "bytes list \<Rightarrow> bytes list" where
  "json_strings = map to_valid"

text \<open>A JSONB value with a NUL in a string is rejected by Postgres.\<close>

definition json_ok :: "bytes list \<Rightarrow> bool" where
  "json_ok ss = list_all (\<lambda>s. list_all (\<lambda>c. byte c \<noteq> (0::nat)) s) ss"

section \<open>The statements\<close>

definition sql_tunnel_by :: "(tunnel \<Rightarrow> bool) \<Rightarrow> tunnel stmt" where
  "sql_tunnel_by p d =
     (case find p (db_tunnels d) of None \<Rightarrow> (Inl ErrNoRows, d) | Some t \<Rightarrow> (Inr t, d))"

definition sql_insert_tunnel :: "int \<Rightarrow> bytes \<Rightarrow> bytes list \<Rightarrow> tunnel stmt" where
  "sql_insert_tunnel uid sub rules d =
     (if sub \<in> tn_sub ` set (db_tunnels d) then
        (Inl (ErrPg ''23505''), d\<lparr>db_next_tunnel := db_next_tunnel d + 1\<rparr>)
      else if uid \<notin> us_id ` set (db_users d) then
        (Inl (ErrPg ''23503''), d\<lparr>db_next_tunnel := db_next_tunnel d + 1\<rparr>)
      else
        (let t = \<lparr>tn_id = db_next_tunnel d, tn_user = uid, tn_sub = sub, tn_rules = rules\<rparr> in
         (Inr t, d\<lparr>db_tunnels := db_tunnels d @ [t], db_next_tunnel := db_next_tunnel d + 1\<rparr>)))"

definition sql_update_rules :: "bytes list \<Rightarrow> int \<Rightarrow> unit stmt" where
  "sql_update_rules rules tid d =
     (Inr (), d\<lparr>db_tunnels := map (\<lambda>t. if tn_id t = tid then t\<lparr>tn_rules := rules\<rparr> else t) (db_tunnels d)\<rparr>)"

definition sql_list_tunnels :: "int \<Rightarrow> tunnel list stmt" where
  "sql_list_tunnels uid d = (Inr (sort_key tn_id (filter (\<lambda>t. tn_user t = uid) (db_tunnels d))), d)"

section \<open>The operations\<close>

text \<open>
  \<open>ClaimTunnel\<close>: select by name; no row, insert one; another owner, refuse; else update the
  rules. The value returned is scanned from the row that was read or inserted, not from the
  updated one.
\<close>

definition ClaimTunnel :: "int \<Rightarrow> bytes \<Rightarrow> bytes list \<Rightarrow> tunnel stmt" where
  "ClaimTunnel uid sub bufferRules d =
     (let rules = json_strings bufferRules in
      case sql (pg_text sub) (sql_tunnel_by (\<lambda>t. tn_sub t = sub)) d of
        (Inl e, d1) \<Rightarrow>
          if errors_Is e ErrNoRows then
            map_err (Wrap ''create tunnel'') (sql (pg_text sub \<and> json_ok rules) (sql_insert_tunnel uid sub rules)) d1
          else (Inl (Wrap ''lookup tunnel'' e), d1)
      | (Inr t, d1) \<Rightarrow>
          if tn_user t \<noteq> uid then (Inl ErrSubdomainTaken, d1)
          else and_then (map_err (Wrap ''update buffer rules'') (sql (json_ok rules) (sql_update_rules rules (tn_id t))))
                 (\<lambda>_. ret t) d1)"

definition not_found :: "'a stmt \<Rightarrow> 'a stmt" where
  "not_found = map_err (\<lambda>e. if errors_Is e ErrNoRows then ErrNotFound else e)"

definition TunnelByID :: "int \<Rightarrow> tunnel stmt" where
  "TunnelByID tid = not_found (sql True (sql_tunnel_by (\<lambda>t. tn_id t = tid)))"

definition TunnelBySubdomain :: "bytes \<Rightarrow> tunnel stmt" where
  "TunnelBySubdomain sub = not_found (sql (pg_text sub) (sql_tunnel_by (\<lambda>t. tn_sub t = sub)))"

definition ListTunnels :: "int \<Rightarrow> tunnel list stmt" where
  "ListTunnels uid = sql True (sql_list_tunnels uid)"

section \<open>Well-formedness\<close>

lemma snd_tunnel_by [simp]: "snd (sql_tunnel_by p d) = d"
  by (simp add: sql_tunnel_by_def split: option.split)

lemma snd_list_tunnels [simp]: "snd (sql_list_tunnels uid d) = d"
  by (simp add: sql_list_tunnels_def)

lemma skip_tunnel_good:
  "db_wf d \<Longrightarrow> db_wf (d\<lparr>db_next_tunnel := db_next_tunnel d + 1\<rparr>)
     \<and> evolves d (d\<lparr>db_next_tunnel := db_next_tunnel d + 1\<rparr>)"
  by (auto simp: db_wf_def users_wf_def tunnels_wf_def events_wf_def snaps_wf_def evolves_def grows_def
      keeps_same_events)

lemma add_tunnel_good:
  fixes uid sub rules d
  defines "d' \<equiv> d\<lparr>db_tunnels := db_tunnels d @ [\<lparr>tn_id = db_next_tunnel d, tn_user = uid, tn_sub = sub, tn_rules = rules\<rparr>],
    db_next_tunnel := db_next_tunnel d + 1\<rparr>"
  assumes d: "db_wf d" and s: "sub \<notin> tn_sub ` set (db_tunnels d)" and u: "uid \<in> us_id ` set (db_users d)"
  shows "db_wf d' \<and> evolves d d'"
proof -
  have "db_next_tunnel d \<notin> tn_id ` set (db_tunnels d)" using d by (auto simp: db_wf_def tunnels_wf_def)
  then have "tunnels_wf d'" using d s u by (auto simp: db_wf_def tunnels_wf_def d'_def)
  moreover have "users_wf d'" "events_wf d'" "snaps_wf d'"
    using d by (auto simp: db_wf_def users_wf_def events_wf_def snaps_wf_def d'_def)
  moreover have "evolves d d'" by (auto simp: evolves_def grows_def keeps_same_events d'_def)
  ultimately show ?thesis by (simp add: db_wf_def)
qed

lemma good_insert_tunnel [wf_intros]: "good (sql_insert_tunnel uid sub rules)"
  by (rule goodI) (simp add: sql_insert_tunnel_def skip_tunnel_good add_tunnel_good Let_def)

lemma update_rules_ident [simp]:
  "tn_id (if c then t\<lparr>tn_rules := r\<rparr> else t) = tn_id t"
  "tn_sub (if c then t\<lparr>tn_rules := r\<rparr> else t) = tn_sub t"
  "tn_user (if c then t\<lparr>tn_rules := r\<rparr> else t) = tn_user t"
  "tn_ident (if c then t\<lparr>tn_rules := r\<rparr> else t) = tn_ident t"
  by (simp_all add: tn_ident_def)

lemma good_update_rules [wf_intros]: "good (sql_update_rules rules tid)"
proof (rule goodI)
  fix d assume d: "db_wf d"
  define ts where "ts = map (\<lambda>t. if tn_id t = tid then t\<lparr>tn_rules := rules\<rparr> else t) (db_tunnels d)"
  have m: "map tn_id ts = map tn_id (db_tunnels d)" "map tn_sub ts = map tn_sub (db_tunnels d)"
    "tn_id ` set ts = tn_id ` set (db_tunnels d)" "tn_ident ` set ts = tn_ident ` set (db_tunnels d)"
    unfolding ts_def by (simp_all only: map_map comp_def update_rules_ident set_map image_image)
  have n: "\<forall>t \<in> set ts. 0 < tn_id t \<and> tn_id t < db_next_tunnel d \<and> tn_user t \<in> us_id ` set (db_users d)"
    using d by (auto simp: ts_def db_wf_def tunnels_wf_def)
  have "db_wf (d\<lparr>db_tunnels := ts\<rparr>) \<and> evolves d (d\<lparr>db_tunnels := ts\<rparr>)"
    using d m n by (simp add: db_wf_def users_wf_def tunnels_wf_def events_wf_def snaps_wf_def
        evolves_def grows_def keeps_same_events)
  then show "db_wf (snd (sql_update_rules rules tid d)) \<and> evolves d (snd (sql_update_rules rules tid d))"
    by (simp add: sql_update_rules_def ts_def)
qed

lemma good_ClaimTunnel [wf_intros]: "good (ClaimTunnel uid sub bufferRules)"
proof (rule goodI)
  fix d assume d: "db_wf d"
  obtain r d1 where r: "sql (pg_text sub) (sql_tunnel_by (\<lambda>t. tn_sub t = sub)) d = (r, d1)" by fastforce
  have "good (sql (pg_text sub) (sql_tunnel_by (\<lambda>t. tn_sub t = sub)))"
    by (intro wf_intros good_read) simp
  then have d1: "db_wf d1" "evolves d d1" using d r by (metis good_def snd_conv)+
  have g: "db_wf (snd (m d1)) \<and> evolves d (snd (m d1))" if "good m" for m :: "tunnel stmt"
    using that d1 by (metis evolves_trans good_def)
  show "db_wf (snd (ClaimTunnel uid sub bufferRules d)) \<and> evolves d (snd (ClaimTunnel uid sub bufferRules d))"
    using d1 by (auto simp: ClaimTunnel_def Let_def r split: sum.split intro!: g wf_intros)
qed

lemma snd_not_found [simp]: "snd (not_found m d) = snd (m d)"
  by (simp add: not_found_def)

lemma good_not_found [wf_intros]: "good m \<Longrightarrow> good (not_found m)"
  by (simp add: good_def)

lemma good_TunnelByID [wf_intros]: "good (TunnelByID tid)"
  unfolding TunnelByID_def by (intro wf_intros good_read) simp

lemma good_TunnelBySubdomain [wf_intros]: "good (TunnelBySubdomain sub)"
  unfolding TunnelBySubdomain_def by (intro wf_intros good_read) simp

lemma good_ListTunnels [wf_intros]: "good (ListTunnels uid)"
  unfolding ListTunnels_def by (intro wf_intros good_read) simp

section \<open>Lookups\<close>

text \<open>Reads of the tunnels do not write any table.\<close>

lemma sql_read_same: "(\<And>d. snd (q d) = d) \<Longrightarrow> same_tables d (snd (sql ok q d))"
  using next_outcome_same by (auto simp: sql_def split: prod.split outcome.split)

lemma TunnelBySubdomain_same [simp]: "same_tables d (snd (TunnelBySubdomain sub d))"
  by (simp add: TunnelBySubdomain_def sql_read_same)

lemma TunnelByID_same [simp]: "same_tables d (snd (TunnelByID tid d))"
  by (simp add: TunnelByID_def sql_read_same)

lemma TunnelBySubdomain_Inr:
  assumes "TunnelBySubdomain sub d = (Inr t, d')"
  shows "t \<in> set (db_tunnels d) \<and> tn_sub t = sub \<and> same_tables d d'"
  using assms find_in_set [of "\<lambda>t. tn_sub t = sub" "db_tunnels d" t] TunnelBySubdomain_same [of d sub]
  by (auto simp: TunnelBySubdomain_def not_found_def map_err_Inr sql_tunnel_by_def same_tables_def
      split: option.splits elim!: sql_Inr)

lemma TunnelByID_Inr:
  assumes "TunnelByID tid d = (Inr t, d')"
  shows "t \<in> set (db_tunnels d) \<and> tn_id t = tid \<and> same_tables d d'"
  using assms find_in_set [of "\<lambda>t. tn_id t = tid" "db_tunnels d" t] TunnelByID_same [of d tid]
  by (auto simp: TunnelByID_def not_found_def map_err_Inr sql_tunnel_by_def same_tables_def
      split: option.splits elim!: sql_Inr)

lemma tunnel_by_sub_found:
  assumes "db_wf d" and "t \<in> set (db_tunnels d)" and "tn_sub t = sub" and "pg_text sub"
    and "next_outcome d = (Done, d')"
  shows "TunnelBySubdomain sub d = (Inr t, d')"
proof -
  have "find (\<lambda>x. tn_sub x = tn_sub t) (db_tunnels d) = Some t"
    using assms by (intro find_key_Some) (auto simp: wf_defs)
  then show ?thesis
    using assms next_outcome_tables [OF assms(5)]
    by (simp add: TunnelBySubdomain_def not_found_def map_err_def sql_def sql_tunnel_by_def)
qed

section \<open>Claiming\<close>

lemma ClaimTunnel_Inr:
  assumes "ClaimTunnel uid sub rules d = (Inr t, d')"
  shows "tn_sub t = sub \<and> tn_user t = uid
    \<and> (\<exists>t' \<in> set (db_tunnels d'). tn_ident t' = tn_ident t \<and> tn_rules t' = json_strings rules)"
proof -
  obtain r d1 where r: "sql (pg_text sub) (sql_tunnel_by (\<lambda>t. tn_sub t = sub)) d = (r, d1)" by fastforce
  show ?thesis
  proof (cases r)
    case (Inl e)
    then show ?thesis
      using assms r by (auto simp: ClaimTunnel_def Let_def map_err_Inr sql_insert_tunnel_def tn_ident_def
          split: if_splits elim!: sql_Inr)
  next
    case (Inr t0)
    have mem: "t0 \<in> set (db_tunnels d1)" and sub: "tn_sub t0 = sub"
      using r Inr by (auto simp: sql_tunnel_by_def dest: find_in_set split: option.splits elim!: sql_Inr)
    have uid: "tn_user t0 = uid" and m: "and_then (map_err (Wrap ''update buffer rules'')
          (sql (json_ok (json_strings rules)) (sql_update_rules (json_strings rules) (tn_id t0)))) (\<lambda>_. ret t0) d1 = (Inr t, d')"
      using assms r Inr by (auto simp: ClaimTunnel_def Let_def split: if_splits)
    from m obtain x d2 where u: "sql (json_ok (json_strings rules)) (sql_update_rules (json_strings rules) (tn_id t0)) d1 = (Inr x, d2)"
      and "ret t0 d2 = (Inr t, d')" unfolding map_err_Inr by (rule and_then_Inr) (simp only: map_err_Inr)
    then have t: "t = t0" "d' = d2" by (simp_all add: ret_def)
    from u obtain d3 where "d2 = d3\<lparr>db_tunnels := map (\<lambda>t. if tn_id t = tn_id t0 then t\<lparr>tn_rules := json_strings rules\<rparr> else t) (db_tunnels d3)\<rparr>"
      and "db_tunnels d3 = db_tunnels d1" by (auto simp: sql_update_rules_def same_tables_def elim!: sql_Inr)
    then have "t0\<lparr>tn_rules := json_strings rules\<rparr> \<in> set (db_tunnels d')" using mem t by auto
    then show ?thesis using t uid sub
      by (auto intro!: bexI [of _ "t0\<lparr>tn_rules := json_strings rules\<rparr>"] simp: tn_ident_def)
  qed
qed

text \<open>A claim reaches the database only with a name that is text, and a claimed name resolves in every later state.\<close>

lemma ClaimTunnel_text:
  assumes "ClaimTunnel uid sub rules d = (Inr t, d')"
  shows "pg_text sub"
proof (rule ccontr)
  assume "\<not> pg_text sub"
  then have "sql (pg_text sub) q d1 = (r, d2) \<Longrightarrow> isl r" for q :: "tunnel stmt" and d1 r d2
    by (auto simp: sql_def split: prod.splits outcome.splits)
  then show False using assms \<open>\<not> pg_text sub\<close>
    by (auto simp: ClaimTunnel_def Let_def map_err_Inr sql_def split: prod.splits sum.splits outcome.splits if_splits)
qed

lemma claimed_name_resolves:
  assumes "ClaimTunnel u sub rules d = (Inr t, d1)"
    and "evolves d1 d2" and "db_wf d2" and "next_outcome d2 = (Done, d3)"
  shows "(\<exists>t'. TunnelBySubdomain sub d2 = (Inr t', d3) \<and> tn_id t' = tn_id t \<and> tn_user t' = u)
    \<and> (v \<noteq> u \<longrightarrow> ClaimTunnel v sub rules' d2 = (Inl ErrSubdomainTaken, d3))"
proof -
  note is_text = ClaimTunnel_text [OF assms(1)]
  from ClaimTunnel_Inr [OF assms(1)] obtain t1 where t1: "t1 \<in> set (db_tunnels d1)"
    "tn_ident t1 = tn_ident t" "tn_sub t = sub" "tn_user t = u" by blast
  obtain t2 where t2: "t2 \<in> set (db_tunnels d2)" "tn_id t2 = tn_id t" "tn_user t2 = u" "tn_sub t2 = sub"
    using evolves_tunnel [OF assms(2) t1(1)] t1(2-4) by (auto simp: tn_ident_def)
  have f: "find (\<lambda>x. tn_sub x = sub) (db_tunnels d3) = Some t2"
    using assms(3) t2 find_key_Some [of tn_sub "db_tunnels d2" t2] next_outcome_tables [OF assms(4)]
    by (simp add: wf_defs)
  show ?thesis
    using tunnel_by_sub_found [OF assms(3) t2(1,4) is_text assms(4)] t2 assms(4) is_text f
    by (auto simp: ClaimTunnel_def Let_def sql_def sql_tunnel_by_def)
qed

definition demo_db :: db where
  "demo_db = snd (ClaimTunnel 1 ''myapp'' [''/hooks/*''] demo_user_db)"

definition demo_tunnel :: tunnel where
  "demo_tunnel = \<lparr>tn_id = 1, tn_user = 1, tn_sub = ''myapp'', tn_rules = [''/hooks/*'']\<rparr>"

lemma demo_claim: "ClaimTunnel 1 ''myapp'' [''/hooks/*''] demo_user_db = (Inr demo_tunnel, demo_db)"
  unfolding demo_db_def demo_user_db_eq by code_simp

lemma demo_db_eq: "demo_db = demo_user_db\<lparr>db_tunnels := [demo_tunnel], db_next_tunnel := 2\<rparr>"
  unfolding demo_db_def demo_user_db_eq by code_simp

lemma demo_user_db_wf: "db_wf demo_user_db"
  unfolding demo_user_db_def by (rule good_wf [OF good_SignUp db_wf_empty])

lemma demo_db_wf: "db_wf demo_db"
  unfolding demo_db_def by (rule good_wf [OF good_ClaimTunnel demo_user_db_wf])

lemma demo_db_quiet [simp]: "db_outcomes demo_db = []"
  by (simp add: demo_db_eq demo_user_db_eq empty_db_def)

text \<open>
  Reconnecting with other buffer rules: \<open>ClaimTunnel\<close> stores the new rules but the tunnel it returns still
  carries the ones read before the update, so the value and the stored row disagree.
\<close>
theorem claim_returns_stale_rules:
  assumes "db_wf d" and "t \<in> set (db_tunnels d)" and "db_outcomes d = []" and "pg_text (tn_sub t)"
    and "json_ok (json_strings rules)"
  shows "fst (ClaimTunnel (tn_user t) (tn_sub t) rules d) = Inr t
    \<and> t\<lparr>tn_rules := json_strings rules\<rparr> \<in> set (db_tunnels (snd (ClaimTunnel (tn_user t) (tn_sub t) rules d)))"
proof -
  have "find (\<lambda>x. tn_sub x = tn_sub t) (db_tunnels d) = Some t"
    using assms by (intro find_key_Some) (auto simp: wf_defs)
  then show ?thesis
    using assms by (auto simp: ClaimTunnel_def Let_def sql_tunnel_by_def and_then_def map_err_def
        sql_update_rules_def ret_def)
qed

theorem claim_returns_stale_rules_witness:
  "fst (ClaimTunnel 1 ''myapp'' [''/new/*''] demo_db) = Inr demo_tunnel
   \<and> demo_tunnel\<lparr>tn_rules := [''/new/*'']\<rparr> \<in> set (db_tunnels (snd (ClaimTunnel 1 ''myapp'' [''/new/*''] demo_db)))"
  using claim_returns_stale_rules [OF demo_db_wf, of demo_tunnel "[''/new/*'']"]
  by (simp add: demo_db_eq demo_user_db_eq empty_db_def demo_tunnel_def pg_text_def utf8_valid_ascii
      json_ok_def json_strings_def to_valid_ascii)

end
