(* ===== verification/StoreEvents.thy ===== *)
theory StoreEvents
  imports StoreTunnels "HOL-Library.Multiset"
begin

text \<open>
  \<open>internal/store/events.go\<close>: the queue of buffered webhook requests. The queue of a tunnel is
  what \<open>QueuedEvents\<close> returns: its events in state \<open>queued\<close>, by time of receipt and then by
  number.
\<close>

section \<open>Queue positions\<close>

text \<open>\<open>ORDER BY received_at, id\<close> as a linear order.\<close>

datatype queue_pos = QueuePos (qp_received: int) (qp_id: int)

instantiation queue_pos :: linorder
begin

definition less_eq_queue_pos :: "queue_pos \<Rightarrow> queue_pos \<Rightarrow> bool" where
  "less_eq_queue_pos a b = (qp_received a < qp_received b \<or> (qp_received a = qp_received b \<and> qp_id a \<le> qp_id b))"

definition less_queue_pos :: "queue_pos \<Rightarrow> queue_pos \<Rightarrow> bool" where
  "less_queue_pos a b = (qp_received a < qp_received b \<or> (qp_received a = qp_received b \<and> qp_id a < qp_id b))"

instance
  by standard (auto simp: less_eq_queue_pos_def less_queue_pos_def queue_pos.expand)

end

definition ev_pos :: "event \<Rightarrow> queue_pos" where
  "ev_pos e = QueuePos (ev_received e) (ev_id e)"

lemma sort_key_snoc_max:
  "(\<And>y. y \<in> set xs \<Longrightarrow> f y \<le> f x) \<Longrightarrow> sort_key f (xs @ [x]) = sort_key f xs @ [x]"
proof (rule properties_for_sort_key)
  assume m: "\<And>y. y \<in> set xs \<Longrightarrow> f y \<le> f x"
  show "sorted (map f (sort_key f xs @ [x]))" using m by (auto simp: sorted_append)
  show "filter (\<lambda>y. f k = f y) (sort_key f xs @ [x]) = filter (\<lambda>y. f k = f y) (xs @ [x])" for k
    using sort_key_stable [of f "f k" xs] by (simp add: eq_commute)
qed simp

section \<open>The statements\<close>

definition json_header :: "header \<Rightarrow> header" where
  "json_header = map (\<lambda>(k, vs). (to_valid k, json_strings vs))"

definition json_header_ok :: "header \<Rightarrow> bool" where
  "json_header_ok h = list_all (\<lambda>(k, vs). json_ok (k # vs)) h"

definition sql_insert_event :: "int \<Rightarrow> bytes \<Rightarrow> bytes \<Rightarrow> bytes \<Rightarrow> header \<Rightarrow> bytes \<Rightarrow> int stmt" where
  "sql_insert_event tid method path query h body d =
     (if tid \<notin> tn_id ` set (db_tunnels d) then
        (Inl (ErrPg ''23503''), d\<lparr>db_next_event := db_next_event d + 1\<rparr>)
      else
        (Inr (db_next_event d),
         d\<lparr>db_events := db_events d @
             [\<lparr>ev_id = db_next_event d, ev_tunnel = tid, ev_method = method, ev_path = path,
               ev_query = query, ev_headers = h, ev_body = body, ev_received = db_now d,
               ev_state = EventQueued, ev_attempts = 0, ev_last_status = 0, ev_delivered = None\<rparr>],
           db_next_event := db_next_event d + 1\<rparr>))"

definition sql_select_events :: "(event \<Rightarrow> bool) \<Rightarrow> event list stmt" where
  "sql_select_events p d = (Inr (sort_key ev_pos (filter p (db_events d))), d)"

definition sql_event_by_id :: "int \<Rightarrow> event stmt" where
  "sql_event_by_id i d =
     (case find (\<lambda>e. ev_id e = i) (db_events d) of None \<Rightarrow> (Inl ErrNotFound, d) | Some e \<Rightarrow> (Inr e, d))"

definition update_event :: "int \<Rightarrow> (event \<Rightarrow> event) \<Rightarrow> db \<Rightarrow> db" where
  "update_event i f d = d\<lparr>db_events := map (\<lambda>e. if ev_id e = i then f e else e) (db_events d)\<rparr>"

definition set_replaying :: "event \<Rightarrow> event" where
  "set_replaying e = e\<lparr>ev_state := EventReplaying\<rparr>"

definition set_delivered :: "int \<Rightarrow> int \<Rightarrow> event \<Rightarrow> event" where
  "set_delivered status now e = e\<lparr>ev_state := EventDelivered, ev_attempts := ev_attempts e + 1,
     ev_last_status := status, ev_delivered := Some now\<rparr>"

definition set_attempted :: "int \<Rightarrow> event \<Rightarrow> event" where
  "set_attempted status e = e\<lparr>ev_attempts := ev_attempts e + 1, ev_last_status := status\<rparr>"

definition set_requeued :: "event \<Rightarrow> event" where
  "set_requeued e = e\<lparr>ev_state := EventQueued, ev_attempts := 0, ev_last_status := 0, ev_delivered := None\<rparr>"

section \<open>The operations\<close>

definition EnqueueEvent :: "int \<Rightarrow> bytes \<Rightarrow> bytes \<Rightarrow> bytes \<Rightarrow> header \<Rightarrow> bytes \<Rightarrow> int stmt" where
  "EnqueueEvent tid method path query headers body =
     (let h = json_header headers in
      sql (pg_text method \<and> pg_text path \<and> pg_text query \<and> json_header_ok h)
        (sql_insert_event tid method path query h body))"

definition QueuedEvents :: "int \<Rightarrow> event list stmt" where
  "QueuedEvents tid = sql True (sql_select_events (\<lambda>e. ev_tunnel e = tid \<and> ev_state e = EventQueued))"

definition ListEvents :: "int \<Rightarrow> bytes \<Rightarrow> event list stmt" where
  "ListEvents tid state =
     (if state = [] then sql True (sql_select_events (\<lambda>e. ev_tunnel e = tid))
      else sql (pg_text state) (sql_select_events (\<lambda>e. ev_tunnel e = tid \<and> state_text (ev_state e) = state)))"

text \<open>
  \<open>EventByID\<close> does not look at \<open>rows.Err()\<close>: an answer lost while it is read ends the iteration like
  an empty answer.
\<close>

definition EventByID :: "int \<Rightarrow> event stmt" where
  "EventByID i d =
     (case next_outcome d of (x, d') \<Rightarrow>
       (case x of DoneLost m \<Rightarrow> (Inl ErrNotFound, d') | _ \<Rightarrow> sql True (sql_event_by_id i) d))"

definition MarkReplaying :: "int \<Rightarrow> unit stmt" where
  "MarkReplaying i = sql True (\<lambda>d. (Inr (), update_event i set_replaying d))"

definition MarkDelivered :: "int \<Rightarrow> int \<Rightarrow> unit stmt" where
  "MarkDelivered i status = sql True (\<lambda>d. (Inr (), update_event i (set_delivered status (db_now d)) d))"

definition sql_attempted :: "int \<Rightarrow> int \<Rightarrow> int stmt" where
  "sql_attempted i status d =
     (case find (\<lambda>e. ev_id e = i) (db_events d) of
        None \<Rightarrow> (Inl ErrNoRows, d)
      | Some e \<Rightarrow> (Inr (ev_attempts e + 1), update_event i (set_attempted status) d))"

definition sql_set_state :: "int \<Rightarrow> event_state \<Rightarrow> unit stmt" where
  "sql_set_state i s d = (Inr (), update_event i (\<lambda>e. e\<lparr>ev_state := s\<rparr>) d)"

definition MarkFailed :: "int \<Rightarrow> int \<Rightarrow> unit stmt" where
  "MarkFailed i status =
     and_then (sql True (sql_attempted i status))
       (\<lambda>attempts. sql True (sql_set_state i (if max_attempts \<le> attempts then EventDead else EventQueued)))"

definition RequeueEvent :: "int \<Rightarrow> unit stmt" where
  "RequeueEvent i = sql True (\<lambda>d. (Inr (), update_event i set_requeued d))"

definition ClearEvents :: "int \<Rightarrow> unit stmt" where
  "ClearEvents tid = sql True (\<lambda>d. (Inr (), d\<lparr>db_events := filter (\<lambda>e. ev_tunnel e \<noteq> tid) (db_events d)\<rparr>))"

section \<open>Well-formedness\<close>

definition keeps_request :: "(event \<Rightarrow> event) \<Rightarrow> bool" where
  "keeps_request f = (\<forall>e. ev_id (f e) = ev_id e \<and> ev_content (f e) = ev_content e)"

lemma keeps_request_simps [simp]:
  "keeps_request set_replaying" "keeps_request (set_delivered st now)" "keeps_request (set_attempted st)"
  "keeps_request set_requeued" "keeps_request (\<lambda>e. e\<lparr>ev_state := s\<rparr>)"
  by (simp_all add: keeps_request_def ev_content_def set_replaying_def set_delivered_def set_attempted_def
      set_requeued_def)

lemma event_ok_simps [simp]:
  "event_ok e \<Longrightarrow> event_ok (set_replaying e)" "event_ok e \<Longrightarrow> event_ok (set_delivered st now e)"
  "event_ok e \<Longrightarrow> event_ok (set_attempted st e)" "event_ok e \<Longrightarrow> event_ok (set_requeued e)"
  by (auto simp: event_ok_def set_replaying_def set_delivered_def set_attempted_def set_requeued_def)

lemma update_event_good:
  assumes d: "db_wf d" and k: "keeps_request f"
    and ok: "\<And>e. e \<in> set (db_events d) \<Longrightarrow> ev_id e = i \<Longrightarrow> event_ok (f e)"
  shows "db_wf (update_event i f d) \<and> evolves d (update_event i f d)"
proof -
  let ?g = "\<lambda>e. if ev_id e = i then f e else e"
  have g: "ev_id (?g e) = ev_id e" "ev_content (?g e) = ev_content e" for e
    using k by (simp_all add: keeps_request_def)
  then have r: "ev_received (?g e) = ev_received e" "ev_tunnel (?g e) = ev_tunnel e" for e
    unfolding ev_content_def by (metis prod.inject)+
  have "map ev_id (map ?g (db_events d)) = map ev_id (db_events d)" by (simp only: map_map comp_def g)
  moreover have "ev_id e' < db_next_event d \<and> ev_received e' \<le> db_now d
      \<and> ev_tunnel e' \<in> tn_id ` set (db_tunnels d) \<and> event_ok e'" if "e' \<in> ?g ` set (db_events d)" for e'
  proof -
    from that obtain e where e: "e \<in> set (db_events d)" "e' = ?g e" by blast
    then show ?thesis using d ok [of e] g [of e] r [of e] by (simp add: db_wf_def events_wf_def)
  qed
  ultimately have "events_wf (update_event i f d)"
    using d by (simp add: db_wf_def events_wf_def update_event_def del: map_map)
  moreover have "keeps_events d (update_event i f d)"
    unfolding keeps_events_def
  proof (intro ballI impI)
    fix e' assume "e' \<in> set (db_events (update_event i f d))"
    then obtain e where "e \<in> set (db_events d)" "e' = ?g e" by (auto simp: update_event_def)
    then show "\<exists>e \<in> set (db_events d). ev_id e = ev_id e' \<and> ev_content e = ev_content e'"
      using g [of e] by (intro bexI [of _ e]) simp_all
  qed
  ultimately show ?thesis
    using d by (simp add: db_wf_def users_wf_def tunnels_wf_def snaps_wf_def evolves_def grows_def update_event_def)
qed

lemma good_update [wf_intros]:
  assumes "\<And>d. keeps_request (f d)" and "\<And>d e. event_ok e \<Longrightarrow> event_ok (f d e)"
  shows "good (\<lambda>d. (Inr (), update_event i (f d) d))"
proof (rule goodI)
  fix d assume d: "db_wf d"
  then have "\<And>e. e \<in> set (db_events d) \<Longrightarrow> event_ok (f d e)"
    using assms(2) by (auto simp: db_wf_def events_wf_def)
  then show "db_wf (snd (Inr (), update_event i (f d) d)) \<and> evolves d (snd (Inr (), update_event i (f d) d))"
    using update_event_good [OF d assms(1)] by simp
qed

lemma good_insert_event [wf_intros]: "good (sql_insert_event tid method path query h body)"
proof (rule goodI)
  fix d assume d: "db_wf d"
  have "db_next_event d \<notin> ev_id ` set (db_events d)" using d by (auto simp: db_wf_def events_wf_def)
  then have "events_wf (snd (sql_insert_event tid method path query h body d))"
    using d by (auto simp: sql_insert_event_def db_wf_def events_wf_def event_ok_def)
  moreover have "keeps_events d (snd (sql_insert_event tid method path query h body d))"
    by (auto simp: sql_insert_event_def keeps_events_def)
  ultimately show "db_wf (snd (sql_insert_event tid method path query h body d))
      \<and> evolves d (snd (sql_insert_event tid method path query h body d))"
    using d by (simp add: sql_insert_event_def db_wf_def users_wf_def tunnels_wf_def snaps_wf_def
        evolves_def grows_def)
qed

lemma snd_select_events [simp]: "snd (sql_select_events p d) = d"
  by (simp add: sql_select_events_def)

lemma snd_event_by_id [simp]: "snd (sql_event_by_id i d) = d"
  by (simp add: sql_event_by_id_def split: option.split)

lemma good_EnqueueEvent [wf_intros]: "good (EnqueueEvent tid method path query headers body)"
  unfolding EnqueueEvent_def Let_def by (intro wf_intros)

lemma good_QueuedEvents [wf_intros]: "good (QueuedEvents tid)"
  unfolding QueuedEvents_def by (intro wf_intros good_read) simp

lemma good_ListEvents [wf_intros]: "good (ListEvents tid state)"
  unfolding ListEvents_def by (auto intro!: wf_intros intro: good_read)

lemma good_EventByID [wf_intros]: "good (EventByID i)"
proof (rule goodI)
  fix d assume d: "db_wf d"
  obtain x d0 where n: "next_outcome d = (x, d0)" by fastforce
  have "good (sql True (sql_event_by_id i))" by (intro wf_intros good_read) simp
  then show "db_wf (snd (EventByID i d)) \<and> evolves d (snd (EventByID i d))"
    using d next_outcome_good [OF d n] by (auto simp: EventByID_def n good_def split: outcome.split)
qed

lemma good_MarkReplaying [wf_intros]: "good (MarkReplaying i)"
  unfolding MarkReplaying_def by (intro wf_intros) simp_all

lemma good_MarkDelivered [wf_intros]: "good (MarkDelivered i status)"
  unfolding MarkDelivered_def by (intro wf_intros) simp_all

lemma good_RequeueEvent [wf_intros]: "good (RequeueEvent i)"
  unfolding RequeueEvent_def by (intro wf_intros) simp_all

lemma good_ClearEvents [wf_intros]: "good (ClearEvents tid)"
  unfolding ClearEvents_def
  by (intro wf_intros goodI) (auto simp: db_wf_def users_wf_def tunnels_wf_def events_wf_def snaps_wf_def
      evolves_def grows_def keeps_events_def distinct_map_filter')

text \<open>Read backwards: the first statement of \<open>MarkFailed\<close> has counted the attempt it reports.\<close>

lemma sql_attempted_Inr:
  assumes "sql_attempted i status d = (Inr n, d')" and "db_wf d" and "e \<in> set (db_events d')" and "ev_id e = i"
  shows "ev_attempts e = n"
proof -
  from assms(1) obtain e0 where f: "find (\<lambda>e. ev_id e = i) (db_events d) = Some e0"
    and n: "n = ev_attempts e0 + 1" and d': "d' = update_event i (set_attempted status) d"
    by (auto simp: sql_attempted_def split: option.splits)
  from assms(3) obtain e1 where e1: "e1 \<in> set (db_events d)" "e = (if ev_id e1 = i then set_attempted status e1 else e1)"
    by (auto simp: d' update_event_def)
  have "ev_id e1 = i" using e1 assms(4) by (auto simp: set_attempted_def split: if_splits)
  then have "e1 = e0"
    using f find_in_set [OF f] e1(1) assms(2) inj_on_key [of ev_id "db_events d" e1 e0]
    by (auto simp: db_wf_def events_wf_def)
  then show ?thesis using e1(2) n \<open>ev_id e1 = i\<close> by (simp add: set_attempted_def)
qed

lemma good_sql_attempted [wf_intros]: "good (sql_attempted i status)"
proof (rule goodI)
  fix d assume d: "db_wf d"
  then have "\<And>e. e \<in> set (db_events d) \<Longrightarrow> event_ok (set_attempted status e)"
    by (auto simp: db_wf_def events_wf_def)
  then show "db_wf (snd (sql_attempted i status d)) \<and> evolves d (snd (sql_attempted i status d))"
    using d update_event_good [OF d] by (auto simp: sql_attempted_def split: option.split)
qed

lemma set_state_good:
  assumes d: "db_wf d" and "s \<noteq> EventDelivered"
    and "\<And>e. e \<in> set (db_events d) \<Longrightarrow> ev_id e = i \<Longrightarrow> s = EventDead \<Longrightarrow> max_attempts \<le> ev_attempts e"
  shows "db_wf (snd (sql ok (sql_set_state i s) d)) \<and> evolves d (snd (sql ok (sql_set_state i s) d))"
proof -
  obtain x d0 where n: "next_outcome d = (x, d0)" by fastforce
  note d0 = next_outcome_good [OF d n]
  have e: "db_events d0 = db_events d" using next_outcome_tables [OF n] by simp
  have "db_wf (update_event i (\<lambda>e. e\<lparr>ev_state := s\<rparr>) d0) \<and> evolves d0 (update_event i (\<lambda>e. e\<lparr>ev_state := s\<rparr>) d0)"
    using d0 assms(2,3) e by (intro update_event_good) (auto simp: db_wf_def events_wf_def event_ok_def)
  then show ?thesis
    using d0 n evolves_trans by (auto simp: sql_def sql_set_state_def split: outcome.split)
qed

lemma good_MarkFailed [wf_intros]: "good (MarkFailed i status)"
proof (rule goodI)
  fix d assume d: "db_wf d"
  obtain r d1 where r: "sql True (sql_attempted i status) d = (r, d1)" by fastforce
  have "good (sql True (sql_attempted i status))" by (intro wf_intros)
  then have d1: "db_wf d1" "evolves d d1" using d r by (metis good_def snd_conv)+
  show "db_wf (snd (MarkFailed i status d)) \<and> evolves d (snd (MarkFailed i status d))"
  proof (cases r)
    case (Inl e)
    then show ?thesis using d1 r by (simp add: MarkFailed_def and_then_def)
  next
    case (Inr n)
    from r obtain d0 where n0: "next_outcome d = (Done, d0)" and q: "sql_attempted i status d0 = (Inr n, d1)"
      unfolding Inr by (rule sql_Inr)
    have "db_wf d0" using next_outcome_good [OF d n0] by simp
    then have "e \<in> set (db_events d1) \<Longrightarrow> ev_id e = i \<Longrightarrow> ev_attempts e = n" for e
      using sql_attempted_Inr [OF q] by simp
    then have "db_wf (snd (sql True (sql_set_state i (if max_attempts \<le> n then EventDead else EventQueued)) d1))
        \<and> evolves d1 (snd (sql True (sql_set_state i (if max_attempts \<le> n then EventDead else EventQueued)) d1))"
      by (intro set_state_good d1(1)) (auto split: if_splits)
    then show ?thesis using r Inr d1(2) evolves_trans by (auto simp: MarkFailed_def and_then_def)
  qed
qed

section \<open>The queue of a tunnel\<close>

definition queued_for :: "int \<Rightarrow> event \<Rightarrow> bool" where
  "queued_for tid e = (ev_tunnel e = tid \<and> ev_state e = EventQueued)"

definition timeline :: "db \<Rightarrow> event list" where
  "timeline d = sort_key ev_pos (db_events d)"

definition queue :: "int \<Rightarrow> db \<Rightarrow> event list" where
  "queue tid d = filter (queued_for tid) (timeline d)"

lemma set_timeline [simp]: "set (timeline d) = set (db_events d)"
  by (simp add: timeline_def)

lemma timeline_ids: "distinct (map ev_id (timeline d)) \<longleftrightarrow> distinct (map ev_id (db_events d))"
proof -
  have "mset (map ev_id (timeline d)) = mset (map ev_id (db_events d))" by (simp add: timeline_def)
  then show ?thesis by (rule mset_eq_imp_distinct_iff)
qed

lemma select_events_queue:
  "sql_select_events (\<lambda>e. ev_tunnel e = tid \<and> ev_state e = EventQueued) d = (Inr (queue tid d), d)"
  by (simp add: sql_select_events_def queue_def timeline_def queued_for_def [abs_def] filter_sort)

lemma same_tables_queue: "same_tables d d' \<Longrightarrow> queue tid d' = queue tid d \<and> timeline d' = timeline d"
  by (simp add: same_tables_def queue_def timeline_def)

lemma QueuedEvents_Inr:
  "QueuedEvents tid d = (Inr es, d') \<Longrightarrow> es = queue tid d \<and> same_tables d d'"
proof -
  assume q: "QueuedEvents tid d = (Inr es, d')"
  obtain d0 where "sql_select_events (\<lambda>e. ev_tunnel e = tid \<and> ev_state e = EventQueued) d0 = (Inr es, d')"
    and s: "same_tables d d0"
    using q unfolding QueuedEvents_def by (rule sql_Inr)
  then have "es = queue tid d0" "d' = d0" by (auto simp: select_events_queue)
  moreover have "queue tid d0 = queue tid d" using same_tables_queue [OF s] by blast
  ultimately show ?thesis using s by simp
qed

lemma QueuedEvents_same: "same_tables d (snd (QueuedEvents tid d))"
  by (simp add: QueuedEvents_def sql_read_same)

lemma insort_key_map:
  "(\<And>x. f (g x) = f x) \<Longrightarrow> insort_key f (g x) (map g xs) = map g (insort_key f x xs)"
  by (induction xs) auto

lemma sort_key_map: "(\<And>x. f (g x) = f x) \<Longrightarrow> sort_key f (map g xs) = map g (sort_key f xs)"
  by (induction xs) (auto simp: insort_key_map)

lemma keeps_request_pos:
  "keeps_request f \<Longrightarrow> ev_pos (f e) = ev_pos e \<and> ev_id (f e) = ev_id e \<and> ev_tunnel (f e) = ev_tunnel e"
  by (auto simp: keeps_request_def ev_pos_def ev_content_def)

lemma timeline_update:
  assumes "keeps_request f"
  shows "timeline (update_event i f d) = map (\<lambda>e. if ev_id e = i then f e else e) (timeline d)"
proof -
  have "\<And>e. ev_pos (if ev_id e = i then f e else e) = ev_pos e" using keeps_request_pos [OF assms] by simp
  then show ?thesis by (simp add: timeline_def update_event_def sort_key_map)
qed

text \<open>An update to an event that leaves the queue, and one that keeps its place in it.\<close>

lemma queue_update_out:
  assumes "keeps_request f" and "\<And>e. ev_state (f e) \<noteq> EventQueued"
  shows "queue tid (update_event i f d) = filter (\<lambda>e. ev_id e \<noteq> i) (queue tid d)"
proof -
  have "filter (queued_for tid) (map (\<lambda>e. if ev_id e = i then f e else e) es)
      = filter (\<lambda>e. ev_id e \<noteq> i) (filter (queued_for tid) es)" for es
    using assms(2) by (induction es) (auto simp: queued_for_def)
  then show ?thesis using assms(1) by (simp add: queue_def timeline_update)
qed

lemma queue_distinct: "db_wf d \<Longrightarrow> distinct (map ev_id (queue tid d))"
  using timeline_ids [of d] by (simp add: queue_def distinct_map_filter' db_wf_def events_wf_def)

text \<open>An accepted event goes to the end of its tunnel's queue and leaves the other queues alone.\<close>

definition stored_event :: "int \<Rightarrow> bytes \<Rightarrow> bytes \<Rightarrow> bytes \<Rightarrow> header \<Rightarrow> bytes \<Rightarrow> int \<Rightarrow> int \<Rightarrow> event" where
  "stored_event tid method path query headers body i now =
     \<lparr>ev_id = i, ev_tunnel = tid, ev_method = method, ev_path = path, ev_query = query,
      ev_headers = json_header headers, ev_body = body, ev_received = now,
      ev_state = EventQueued, ev_attempts = 0, ev_last_status = 0, ev_delivered = None\<rparr>"

lemma EnqueueEvent_Inr:
  assumes "db_wf d" and "EnqueueEvent tid method path query headers body d = (Inr i, d')"
  shows "db_events d' = db_events d @ [stored_event tid method path query headers body i (db_now d')]
    \<and> i = db_next_event d \<and> timeline d' = timeline d @ [stored_event tid method path query headers body i (db_now d')]"
proof -
  from assms(2) obtain d0 where n: "next_outcome d = (Done, d0)"
    and q: "sql_insert_event tid method path query (json_header headers) body d0 = (Inr i, d')"
    by (auto simp: EnqueueEvent_def Let_def elim: sql_Inr)
  have wf0: "db_wf d0" using next_outcome_good [OF assms(1) n] by simp
  have e0: "db_events d0 = db_events d" "db_next_event d0 = db_next_event d"
    using next_outcome_tables [OF n] by auto
  let ?e = "stored_event tid method path query headers body i (db_now d')"
  have ev: "db_events d' = db_events d @ [?e]" and i: "i = db_next_event d" and now: "db_now d' = db_now d0"
    using q e0 by (auto simp: sql_insert_event_def stored_event_def split: if_splits)
  have "ev_pos y \<le> ev_pos ?e" if "y \<in> set (db_events d)" for y
    using that wf0 e0 i now
    by (force simp: ev_pos_def less_eq_queue_pos_def stored_event_def db_wf_def events_wf_def)
  then have "timeline d' = timeline d @ [?e]" by (simp add: timeline_def ev sort_key_snoc_max)
  with ev i show ?thesis by simp
qed

text \<open>
  A buffered webhook is accepted in order: when \<open>EnqueueEvent\<close> returns a number, the event it
  stored (the request as received, with its headers as JSON keeps them) is the last element of
  its tunnel's queue, everything queued before keeps its place in front of it, and the queues of
  other tunnels are untouched.
\<close>
theorem enqueue_goes_last:
  assumes "db_wf d" and "EnqueueEvent tid method path query headers body d = (Inr i, d')"
  shows "queue tid d' = queue tid d @ [stored_event tid method path query headers body i (db_now d')]
    \<and> (\<forall>t. t \<noteq> tid \<longrightarrow> queue t d' = queue t d)"
  using EnqueueEvent_Inr [OF assms] by (auto simp: queue_def queued_for_def stored_event_def)

text \<open>
  The queue as an interface: an operation appends its entries to the items, in general one, or none when it concerns something else. What
  follows for the client is that a sequence of arrivals is read back in the order of arrival.
\<close>

locale fifo =
  fixes items :: "'s \<Rightarrow> 'e list" and enq :: "'x \<Rightarrow> 's \<Rightarrow> 's" and ready :: "'s \<Rightarrow> bool"
    and accepts :: "'x \<Rightarrow> bool" and entry_of :: "'e \<Rightarrow> 'v" and entries_of :: "'x \<Rightarrow> 'v list"
  assumes enq_ready: "ready s \<Longrightarrow> accepts x \<Longrightarrow> ready (enq x s)"
    and enq_items: "ready s \<Longrightarrow> accepts x \<Longrightarrow> map entry_of (items (enq x s)) = map entry_of (items s) @ entries_of x"
begin

lemma arrivals_in_order:
  "ready s \<Longrightarrow> list_all accepts xs \<Longrightarrow>
     map entry_of (items (fold enq xs s)) = map entry_of (items s) @ concat (map entries_of xs)"
  by (induction xs arbitrary: s) (auto simp: enq_ready enq_items)

lemma arrivals_ready: "ready s \<Longrightarrow> list_all accepts xs \<Longrightarrow> ready (fold enq xs s)"
  by (induction xs arbitrary: s) (auto simp: enq_ready)

end

type_synonym hook = "bytes \<times> bytes \<times> bytes \<times> header \<times> bytes"

definition enqueue_hook :: "int \<Rightarrow> hook \<Rightarrow> db \<Rightarrow> db" where
  "enqueue_hook tid x d = (case x of (m, p, q, h, b) \<Rightarrow> snd (EnqueueEvent tid m p q h b d))"

definition hook_ok :: "hook \<Rightarrow> bool" where
  "hook_ok x = (case x of (m, p, q, h, b) \<Rightarrow> pg_text m \<and> pg_text p \<and> pg_text q \<and> json_header_ok (json_header h))"

definition queue_ready :: "int \<Rightarrow> db \<Rightarrow> bool" where
  "queue_ready tid d = (db_wf d \<and> db_outcomes d = [] \<and> tid \<in> tn_id ` set (db_tunnels d))"

definition event_hook :: "event \<Rightarrow> hook" where
  "event_hook e = (ev_method e, ev_path e, ev_query e, ev_headers e, ev_body e)"

definition stored_hook :: "hook \<Rightarrow> hook" where
  "stored_hook x = (case x of (m, p, q, h, b) \<Rightarrow> (m, p, q, json_header h, b))"

lemma enqueue_quiet:
  assumes "queue_ready tid d" and "hook_ok (m, p, q, h, b)"
  shows "\<exists>i d'. EnqueueEvent tid m p q h b d = (Inr i, d') \<and> queue_ready tid d'"
proof -
  obtain i d' where e: "EnqueueEvent tid m p q h b d = (Inr i, d')"
    "db_outcomes d' = []" "db_tunnels d' = db_tunnels d"
    using assms by (auto simp: EnqueueEvent_def Let_def queue_ready_def hook_ok_def sql_insert_event_def)
  moreover have "db_wf d'"
    using good_wf [OF good_EnqueueEvent, of d tid m p q h b] assms(1) e(1) by (simp add: queue_ready_def)
  ultimately show ?thesis using assms(1) by (auto simp: queue_ready_def)
qed

text \<open>A webhook that arrives for the tunnel with the given number.\<close>

definition arrive :: "int \<times> hook \<Rightarrow> db \<Rightarrow> db" where
  "arrive x d = enqueue_hook (fst x) (snd x) d"

lemma arrive_ready:
  assumes "queue_ready tid d"
  shows "queue_ready tid (arrive x d)"
proof -
  obtain k m p q h b where x: "x = (k, m, p, q, h, b)" by (cases x) auto
  have "db_wf (arrive x d)" "evolves d (arrive x d)"
    using good_EnqueueEvent [of k m p q h b] assms x by (auto simp: good_def arrive_def enqueue_hook_def queue_ready_def)
  moreover have "db_outcomes (arrive x d) = []" "db_tunnels (arrive x d) = db_tunnels d"
    using assms x by (auto simp: arrive_def enqueue_hook_def EnqueueEvent_def Let_def queue_ready_def sql_def sql_insert_event_def)
  ultimately show ?thesis using assms by (simp add: queue_ready_def)
qed

lemma arrive_queue:
  assumes "queue_ready tid d" and "hook_ok (snd x)"
  shows "map event_hook (queue tid (arrive x d)) = map event_hook (queue tid d) @ (if fst x = tid then [stored_hook (snd x)] else [])"
proof -
  obtain k m p q h b where x: "x = (k, m, p, q, h, b)" by (cases x) auto
  obtain r d' where e: "EnqueueEvent k m p q h b d = (r, d')" by fastforce
  then have a: "arrive x d = d'" by (simp add: arrive_def enqueue_hook_def x)
  show ?thesis
  proof (cases r)
    case (Inl er)
    then have "\<not> (k = tid)" using enqueue_quiet [OF assms(1), of m p q h b] assms(2) e x by auto
    moreover have "db_events d' = db_events d"
      using e assms Inl by (auto simp: EnqueueEvent_def Let_def queue_ready_def sql_insert_event_def hook_ok_def x split: if_splits)
    ultimately show ?thesis using a x by (simp add: queue_def timeline_def)
  next
    case (Inr i)
    then show ?thesis using EnqueueEvent_Inr [of d k m p q h b i d'] e assms(1) a x
      by (auto simp: stored_hook_def event_hook_def stored_event_def queue_ready_def queue_def queued_for_def)
  qed
qed

interpretation hooks: fifo "queue tid" arrive "queue_ready tid" "hook_ok \<circ> snd" event_hook
  "\<lambda>x. if fst x = tid then [stored_hook (snd x)] else []" for tid
  by unfold_locales (simp_all add: arrive_ready arrive_queue)

lemma QueuedEvents_quiet: "db_outcomes d = [] \<Longrightarrow> QueuedEvents tid d = (Inr (queue tid d), d)"
  by (simp add: QueuedEvents_def select_events_queue)

lemma concat_if_filter: "concat (map (\<lambda>x. if P x then [f x] else []) xs) = map f (filter P xs)"
  by (induction xs) auto

text \<open>
  C23. Webhooks that arrive one after the other while the agent is away are read back in exactly that order. When the database answers,
  and webhooks arrive for any tunnels in any interleaving, \<open>QueuedEvents\<close> of a tunnel returns afterwards what it returned before, followed by
  the arrivals for that tunnel in the order of arrival, each with its method, path, query, body and (JSON-clean)
  headers; what it returns are precisely the tunnel's stored events in state \<open>queued\<close>.
\<close>
theorem arrivals_queue_in_order:
  assumes "queue_ready tid d" and "list_all (hook_ok \<circ> snd) arrivals"
  shows "\<exists>es es'. fst (QueuedEvents tid d) = Inr es \<and> fst (QueuedEvents tid (fold arrive arrivals d)) = Inr es'
    \<and> map event_hook es' = map event_hook es @ map (stored_hook \<circ> snd) (filter (\<lambda>x. fst x = tid) arrivals)
    \<and> set es' = {e \<in> set (db_events (fold arrive arrivals d)). ev_tunnel e = tid \<and> ev_state e = EventQueued}"
proof -
  let ?d = "fold arrive arrivals d"
  have "queue_ready tid ?d" by (rule hooks.arrivals_ready [OF assms])
  then have q: "fst (QueuedEvents tid d) = Inr (queue tid d)" "fst (QueuedEvents tid ?d) = Inr (queue tid ?d)"
    using assms(1) QueuedEvents_quiet by (simp_all add: queue_ready_def)
  have "map event_hook (queue tid ?d) = map event_hook (queue tid d) @ map (stored_hook \<circ> snd) (filter (\<lambda>x. fst x = tid) arrivals)"
    using hooks.arrivals_in_order [OF assms] by (simp add: concat_if_filter)
  then show ?thesis using q by (auto simp: queue_def queued_for_def)
qed

text \<open>
  A requeue can be lost. \<open>MarkFailed\<close> is two statements without a transaction: when the owner requeues an event between the one that
  counts its fifth attempt and the one that marks it dead, the event ends dead with no attempt counted, and is never sent again by a drain.
\<close>
theorem requeue_can_be_lost:
  assumes "db_outcomes d = []" and "e \<in> set (db_events d)" and "db_wf d" and "ev_attempts e = 4"
  shows "\<exists>d1 d2 d3. sql True (sql_attempted (ev_id e) status) d = (Inr max_attempts, d1) \<and> RequeueEvent (ev_id e) d1 = (Inr (), d2)
    \<and> sql True (sql_set_state (ev_id e) EventDead) d2 = (Inr (), d3)
    \<and> (\<exists>x \<in> set (db_events d3). ev_id x = ev_id e \<and> ev_state x = EventDead \<and> ev_attempts x = 0)"
proof -
  have "find (\<lambda>x. ev_id x = ev_id e) (db_events d) = Some e" using assms(2,3) by (intro find_key_Some) (auto simp: wf_defs)
  then have 1: "sql True (sql_attempted (ev_id e) status) d = (Inr max_attempts, update_event (ev_id e) (set_attempted status) d)"
    using assms(1,4) by (simp add: sql_attempted_def max_attempts_def)
  have 2: "RequeueEvent (ev_id e) d1 = (Inr (), update_event (ev_id e) set_requeued d1)" if "db_outcomes d1 = []" for d1
    using that by (simp add: RequeueEvent_def)
  have 3: "sql True (sql_set_state (ev_id e) EventDead) d2 = (Inr (), update_event (ev_id e) (\<lambda>e. e\<lparr>ev_state := EventDead\<rparr>) d2)"
    if "db_outcomes d2 = []" for d2
    using that by (simp add: sql_set_state_def)
  have q: "db_outcomes (update_event i f d) = db_outcomes d" for i f d by (simp add: update_event_def)
  let ?d3 = "update_event (ev_id e) (\<lambda>e. e\<lparr>ev_state := EventDead\<rparr>) (update_event (ev_id e) set_requeued (update_event (ev_id e) (set_attempted status) d))"
  have "set_requeued (set_attempted status e)\<lparr>ev_state := EventDead\<rparr> \<in> set (db_events ?d3)"
    using assms(2) by (force simp: update_event_def set_requeued_def set_attempted_def)
  then show ?thesis using 1 2 3 q assms(1)
    by (intro exI [of _ ?d3] exI conjI bexI [of _ "set_requeued (set_attempted status e)\<lparr>ev_state := EventDead\<rparr>"])
      (auto simp: set_requeued_def set_attempted_def)
qed

definition demo_hooks :: "hook list" where
  "demo_hooks = [(''POST'', ''/a'', [], [(''X'', [''1''])], ''one''), (''PUT'', ''/b'', ''q=1'', [], ''two'')]"

lemma demo_queue_ready: "queue_ready 1 demo_db"
  using demo_db_wf demo_db_quiet by (simp add: queue_ready_def demo_db_eq demo_tunnel_def)

lemma demo_queue_empty: "queue 1 demo_db = []"
  by (simp add: queue_def timeline_def demo_db_eq demo_user_db_eq empty_db_def)

lemma demo_hooks_ok: "list_all hook_ok demo_hooks"
  unfolding demo_hooks_def by code_simp

theorem arrivals_queue_in_order_witness:
  "\<exists>es. fst (QueuedEvents 1 (fold arrive [(1, demo_hooks ! 0), (7, demo_hooks ! 0), (1, demo_hooks ! 1)] demo_db)) = Inr es \<and> map event_hook es = demo_hooks"
proof -
  have "list_all (hook_ok \<circ> snd) [(1, demo_hooks ! 0), (7, demo_hooks ! 0), (1, demo_hooks ! 1)]"
    using demo_hooks_ok by (simp add: demo_hooks_def)
  from arrivals_queue_in_order [OF demo_queue_ready this] show ?thesis
    using QueuedEvents_quiet [OF demo_db_quiet, of 1]
    by (auto simp: demo_queue_empty demo_hooks_def stored_hook_def json_header_def json_strings_def to_valid_ascii)
qed

theorem enqueue_goes_last_witness:
  "\<exists>i d'. EnqueueEvent 1 ''POST'' ''/a'' [] [] ''x'' demo_db = (Inr i, d') \<and> map ev_body (queue 1 d') = [''x'']"
proof -
  have ok: "hook_ok (''POST'', ''/a'', [], [], ''x'')" by code_simp
  obtain i d' where e: "EnqueueEvent 1 ''POST'' ''/a'' [] [] ''x'' demo_db = (Inr i, d')"
    using enqueue_quiet [OF demo_queue_ready ok] by blast
  then show ?thesis
    using enqueue_goes_last [OF demo_db_wf e] by (simp add: demo_queue_empty stored_event_def)
qed

end
