(* ===== verification/Proto.thy ===== *)
theory Proto
  imports GoHttp
begin

text \<open>
  \<open>internal/proto\<close>: the constants shared by agent and server and the two messages of the
  handshake. A message is its record; how it is framed on the stream is in
  \<open>ProtoWire\<close>.
\<close>

definition Version :: int where "Version = 1"

definition DefaultTunnelAddr :: bytes where "DefaultTunnelAddr = ''127.0.0.1:4443''"
definition DefaultPublicAddr :: bytes where "DefaultPublicAddr = ''127.0.0.1:8080''"
definition DefaultControlAddr :: bytes where "DefaultControlAddr = ''127.0.0.1:8081''"
definition DefaultControlURL :: bytes where "DefaultControlURL = ''http://127.0.0.1:8081''"
definition DefaultPublicHost :: bytes where "DefaultPublicHost = ''lvh.me:8080''"

definition HeaderBuffered :: bytes where "HeaderBuffered = ''X-Liveurl-Buffered''"
definition HeaderOriginalTimestamp :: bytes where
  "HeaderOriginalTimestamp = ''X-Liveurl-Original-Timestamp''"
definition HeaderEventID :: bytes where "HeaderEventID = ''X-Liveurl-Event-Id''"

definition MaxWebhookBody :: nat where "MaxWebhookBody = 5 * 2 ^ 20"

record handshake =
  hs_version :: int
  hs_token :: bytes
  hs_subdomain :: bytes
  hs_rules :: "bytes list"

record handshake_reply =
  hr_ok :: bool
  hr_error :: bytes
  hr_subdomain :: bytes
  hr_url :: bytes

definition reject :: "bytes \<Rightarrow> handshake_reply" where
  "reject msg = \<lparr>hr_ok = False, hr_error = msg, hr_subdomain = [], hr_url = []\<rparr>"

text \<open>The header names are already in canonical form, so they are the keys that are set.\<close>

lemma canon_HeaderBuffered: "CanonicalKey HeaderBuffered = HeaderBuffered"
  unfolding HeaderBuffered_def by code_simp

lemma canon_HeaderOriginalTimestamp: "CanonicalKey HeaderOriginalTimestamp = HeaderOriginalTimestamp"
  unfolding HeaderOriginalTimestamp_def by code_simp

lemma canon_HeaderEventID: "CanonicalKey HeaderEventID = HeaderEventID"
  unfolding HeaderEventID_def by code_simp

lemma header_names_distinct [simp]:
  "HeaderBuffered \<noteq> HeaderOriginalTimestamp" "HeaderBuffered \<noteq> HeaderEventID"
  "HeaderOriginalTimestamp \<noteq> HeaderEventID"
  by (simp_all add: HeaderBuffered_def HeaderOriginalTimestamp_def HeaderEventID_def)

end
