(* ===== verification/Replay.thy ===== *)
theory Replay
  imports StoreEvents Proto
begin

text \<open>
  \<open>internal/edge/replay/replay.go\<close>: draining a tunnel's queue over a freshly connected agent. The
  session is seen through the interface \<open>StreamOpener\<close>: each call of \<open>OpenStream\<close> has one of the
  outcomes the agent (and the network) may produce. \<open>lk_script\<close> lists the outcomes to come, an
  exhausted script being a closed session; \<open>lk_sent\<close> lists the requests written in full.
\<close>

datatype stream_outcome = OpenFails bytes | WriteFails bytes | ReadFails bytes | Responds int

record link =
  lk_script :: "stream_outcome list"
  lk_sent :: "request list"

definition OpenStream :: "link \<Rightarrow> stream_outcome \<times> link" where
  "OpenStream lk = (case lk_script lk of
      [] \<Rightarrow> (OpenFails ''session shutdown'', lk)
    | x # xs \<Rightarrow> (x, lk\<lparr>lk_script := xs\<rparr>))"

definition cloneHeader :: "header \<Rightarrow> header" where
  "cloneHeader h = map (\<lambda>(k, vals). (k, vals)) h"

definition buildRequest :: "event \<Rightarrow> request" where
  "buildRequest e =
     (let h = cloneHeader (ev_headers e) in
      \<lparr>req_method = ev_method e, req_host = Header_Get h ''Host'',
       req_path = ev_path e, req_rawpath = [], req_query = ev_query e,
       req_header = Header_Set HeaderOriginalTimestamp (rfc3339 (ev_received e))
         (Header_Set HeaderBuffered ''true'' h),
       req_body = \<lparr>body_data = ev_body e, body_err = False\<rparr>, req_remote = []\<rparr>)"

text \<open>The status of the local app (0 if none was read), and the transport or database error.\<close>

type_synonym replay_result = "int \<times> go_error option"

definition err_of :: "(go_error + unit) \<Rightarrow> go_error option" where
  "err_of r = (case r of Inl e \<Rightarrow> Some e | Inr _ \<Rightarrow> None)"

definition ReplayEvent :: "event \<Rightarrow> link \<times> db \<Rightarrow> replay_result \<times> link \<times> db" where
  "ReplayEvent e s =
     (case s of (lk, d) \<Rightarrow>
      (case MarkReplaying (ev_id e) d of
         (Inl er, d1) \<Rightarrow> ((0, Some (Wrap ''mark replaying'' er)), lk, d1)
       | (Inr _, d1) \<Rightarrow>
          (case OpenStream lk of (out, lk1) \<Rightarrow>
           (case out of
              OpenFails m \<Rightarrow> ((0, Some (ErrText m)), lk1, snd (RequeueEvent (ev_id e) d1))
            | WriteFails m \<Rightarrow>
                ((0, Some (Wrap ''write replayed request'' (ErrText m))), lk1, snd (RequeueEvent (ev_id e) d1))
            | ReadFails m \<Rightarrow>
                ((0, Some (Wrap ''read replay response'' (ErrText m))),
                 lk1\<lparr>lk_sent := lk_sent lk1 @ [buildRequest e]\<rparr>, snd (RequeueEvent (ev_id e) d1))
            | Responds status \<Rightarrow>
                (let lk2 = lk1\<lparr>lk_sent := lk_sent lk1 @ [buildRequest e]\<rparr> in
                 if 500 \<le> status then
                   (case MarkFailed (ev_id e) status d1 of (r, d2) \<Rightarrow> ((status, err_of r), lk2, d2))
                 else
                   (case MarkDelivered (ev_id e) status d1 of (r, d2) \<Rightarrow> ((status, err_of r), lk2, d2)))))))"

definition drain_step :: "event \<Rightarrow> link \<times> db \<Rightarrow> bool \<times> link \<times> db" where
  "drain_step e s =
     (case ReplayEvent e s of ((status, err), s') \<Rightarrow> (err = None \<and> status < 500, s'))"

definition Drain :: "int \<Rightarrow> link \<times> db \<Rightarrow> link \<times> db" where
  "Drain tid s =
     (if tid = 0 then s
      else case s of (lk, d) \<Rightarrow>
        (case QueuedEvents tid d of
           (Inl e, d1) \<Rightarrow> (lk, d1)
         | (Inr events, d1) \<Rightarrow> process_until drain_step events (lk, d1)))"

section \<open>What a drain keeps\<close>

lemma good_wf_pair: "good m \<Longrightarrow> db_wf d \<Longrightarrow> m d = (r, d') \<Longrightarrow> db_wf d' \<and> evolves d d'"
  by (metis good_def snd_conv)

text \<open>Every path through \<open>ReplayEvent\<close> is a sequence of store operations on the database.\<close>

lemma ReplayEvent_db:
  assumes "\<And>d. R d (snd (MarkReplaying (ev_id e) d))" and "\<And>d. R d (snd (RequeueEvent (ev_id e) d))"
    and "\<And>st d. R d (snd (MarkFailed (ev_id e) st d))" and "\<And>st d. R d (snd (MarkDelivered (ev_id e) st d))"
    and "\<And>a b c. R a b \<Longrightarrow> R b c \<Longrightarrow> R a c"
  shows "R d (snd (snd (ReplayEvent e (lk, d))))"
proof -
  obtain r d1 where m: "MarkReplaying (ev_id e) d = (r, d1)" by fastforce
  have 1: "R d d1" using assms(1) [of d] m by simp
  have rq: "R d (snd (RequeueEvent (ev_id e) d1))" using 1 assms(2,5) by blast
  have mf: "R d (snd (MarkFailed (ev_id e) st d1))" for st using 1 assms(3,5) by blast
  have md: "R d (snd (MarkDelivered (ev_id e) st d1))" for st using 1 assms(4,5) by blast
  show ?thesis using 1 rq mf md
    by (auto simp: ReplayEvent_def m Let_def case_prod_beta split: sum.split stream_outcome.split)
qed

lemma ReplayEvent_good:
  assumes "db_wf d"
  shows "db_wf (snd (snd (ReplayEvent e (lk, d)))) \<and> evolves d (snd (snd (ReplayEvent e (lk, d))))"
proof -
  let ?R = "\<lambda>a b. db_wf a \<longrightarrow> db_wf b \<and> evolves a b"
  have "?R d (snd (snd (ReplayEvent e (lk, d))))"
  proof (rule ReplayEvent_db [where R = ?R])
    fix a b c assume "?R a b" and "?R b c"
    then show "?R a c" using evolves_trans by blast
  qed (use good_MarkReplaying good_RequeueEvent good_MarkFailed good_MarkDelivered in \<open>auto simp: good_def\<close>)
  then show ?thesis using assms by simp
qed

lemma snd_drain_step: "snd (drain_step e s) = snd (ReplayEvent e s)"
  by (simp add: drain_step_def case_prod_beta)

lemma Drain_good:
  assumes "db_wf d"
  shows "db_wf (snd (Drain tid (lk, d))) \<and> evolves d (snd (Drain tid (lk, d)))"
proof -
  obtain r d1 where q: "QueuedEvents tid d = (r, d1)" by fastforce
  have d1: "db_wf d1 \<and> evolves d d1" using good_wf_pair [OF good_QueuedEvents assms q] .
  have "db_wf (snd (process_until drain_step es (lk, d1))) \<and> evolves d (snd (process_until drain_step es (lk, d1)))" for es
  proof (rule process_until_inv)
    fix e and s :: "link \<times> db"
    assume "db_wf (snd s) \<and> evolves d (snd s)"
    then show "db_wf (snd (snd (drain_step e s))) \<and> evolves d (snd (snd (drain_step e s)))"
      using ReplayEvent_good [of "snd s" e "fst s"] evolves_trans by (auto simp: snd_drain_step)
  qed (use d1 in simp)
  then show ?thesis using assms d1 by (auto simp: Drain_def q split: sum.split)
qed

section \<open>Order\<close>

lemma OpenStream_sent [simp]: "lk_sent (snd (OpenStream lk)) = lk_sent lk"
  by (simp add: OpenStream_def split: list.split)

text \<open>
  \<open>touches I D d d'\<close>: row by row, only events numbered in \<open>I\<close> changed, and only in their
  bookkeeping; only events numbered in \<open>D\<close> became delivered.
\<close>

definition row_touch :: "int set \<Rightarrow> int set \<Rightarrow> event \<Rightarrow> event \<Rightarrow> bool" where
  "row_touch I D e e' = (ev_id e' = ev_id e \<and> ev_content e' = ev_content e \<and> (ev_id e \<notin> I \<longrightarrow> e' = e)
     \<and> (ev_state e' = EventDelivered \<longrightarrow> ev_state e = EventDelivered \<or> ev_id e \<in> D))"

definition touches :: "int set \<Rightarrow> int set \<Rightarrow> db \<Rightarrow> db \<Rightarrow> bool" where
  "touches I D d d' = list_all2 (row_touch I D) (db_events d) (db_events d')"

lemma touches_refl: "db_events d' = db_events d \<Longrightarrow> touches I D d d'"
  by (simp add: touches_def row_touch_def list.rel_refl)

lemma touches_mono: "touches I D d d' \<Longrightarrow> I \<subseteq> I' \<Longrightarrow> D \<subseteq> D' \<Longrightarrow> touches I' D' d d'"
  unfolding touches_def by (erule list_all2_mono) (auto simp: row_touch_def)

lemma touches_trans: "touches I D a b \<Longrightarrow> touches I D b c \<Longrightarrow> touches I D a c"
  unfolding touches_def by (rule list_all2_trans [of "row_touch I D" "row_touch I D"]) (auto simp: row_touch_def)

lemma touches_update:
  assumes "keeps_request f" and "\<And>e. ev_id e = i \<Longrightarrow> ev_state (f e) = EventDelivered \<Longrightarrow> ev_state e = EventDelivered \<or> i \<in> D"
  shows "touches {i} D d (update_event i f d)"
  using assms
  by (auto simp: touches_def update_event_def row_touch_def keeps_request_def list_all2_conv_all_nth)

lemma touches_sql:
  assumes "\<And>d. touches I D d (snd (q d))"
  shows "touches I D d (snd (sql ok q d))"
proof -
  obtain x d0 where n: "next_outcome d = (x, d0)" by fastforce
  have e: "db_events d0 = db_events d" using next_outcome_tables [OF n] by simp
  then have "touches I D d (snd (q d0))" using assms [of d0] by (simp add: touches_def)
  then show ?thesis using touches_refl [OF e] by (simp add: sql_def n split: outcome.split)
qed

lemma touches_and_then:
  assumes "\<And>d. touches I D d (snd (m d))" and "\<And>a d. touches I D d (snd (f a d))"
  shows "touches I D d (snd (and_then m f d))"
proof -
  obtain r d1 where r: "m d = (r, d1)" by fastforce
  then have "touches I D d d1" using assms(1) [of d] by simp
  then show ?thesis using r assms(2) touches_trans by (auto simp: and_then_def split: sum.split)
qed

lemma touches_marks:
  "touches {i} D d (snd (MarkReplaying i d))" "touches {i} D d (snd (RequeueEvent i d))"
  "touches {i} D d (snd (MarkFailed i st d))" "touches {i} {i} d (snd (MarkDelivered i st d))"
  unfolding MarkReplaying_def RequeueEvent_def MarkFailed_def MarkDelivered_def
  by (auto intro!: touches_sql touches_and_then touches_update
      simp: touches_refl sql_attempted_def sql_set_state_def set_replaying_def set_requeued_def set_attempted_def
      split: option.split)

lemma ReplayEvent_touches:
  assumes "ReplayEvent e (lk, d) = ((status, err), lk', d')"
  shows "(lk_sent lk' = lk_sent lk \<and> err \<noteq> None \<and> touches {ev_id e} {} d d')
    \<or> (lk_sent lk' = lk_sent lk @ [buildRequest e] \<and> touches {ev_id e} {ev_id e} d d')"
proof -
  obtain r d1 where m: "MarkReplaying (ev_id e) d = (r, d1)" by fastforce
  obtain x lk1 where o: "OpenStream lk = (x, lk1)" by fastforce
  have lk1: "lk_sent lk1 = lk_sent lk" using OpenStream_sent [of lk] o by simp
  have d1: "touches {ev_id e} D d d1" for D using touches_marks(1) [of "ev_id e" D d] m by simp
  note t = touches_trans [OF d1 touches_marks(2)] touches_trans [OF d1 touches_marks(3)]
    touches_trans [OF d1 touches_marks(4)]
  show ?thesis using assms lk1 d1 t
    by (auto simp: ReplayEvent_def m o Let_def case_prod_beta split: sum.splits stream_outcome.splits if_splits)
qed

lemma process_drain_touches:
  "\<exists>n \<le> length es. lk_sent (fst (process_until drain_step es (lk, d))) = lk_sent lk @ map buildRequest (take n es)
     \<and> touches (ev_id ` set es) (ev_id ` set (take n es)) d (snd (process_until drain_step es (lk, d)))"
proof (induction es arbitrary: lk d)
  case Nil
  then show ?case by (simp add: touches_refl)
next
  case (Cons e es)
  obtain status err lk' d' where r: "ReplayEvent e (lk, d) = ((status, err), lk', d')"
    by (metis prod.collapse)
  have st: "drain_step e (lk, d) = (err = None \<and> status < 500, lk', d')"
    by (simp add: drain_step_def r)
  note now = ReplayEvent_touches [OF r]
  let ?I = "ev_id ` set (e # es)"
  show ?case
  proof (cases "err = None \<and> status < 500")
    case True
    obtain n where n: "n \<le> length es"
      "lk_sent (fst (process_until drain_step es (lk', d'))) = lk_sent lk' @ map buildRequest (take n es)"
      "touches (ev_id ` set es) (ev_id ` set (take n es)) d' (snd (process_until drain_step es (lk', d')))"
      using Cons.IH by blast
    let ?D = "ev_id ` set (take (Suc n) (e # es))"
    have 1: "lk_sent lk' = lk_sent lk @ [buildRequest e]" "touches {ev_id e} {ev_id e} d d'"
      using now True by auto
    have "touches ?I ?D d d'" using 1(2) by (rule touches_mono) auto
    moreover have "touches ?I ?D d' (snd (process_until drain_step es (lk', d')))"
      using n(3) by (rule touches_mono) auto
    ultimately have "touches ?I ?D d (snd (process_until drain_step es (lk', d')))" by (rule touches_trans)
    then show ?thesis using True st n 1 by (intro exI [of _ "Suc n"]) auto
  next
    case False
    then have p: "process_until drain_step (e # es) (lk, d) = (lk', d')" by (auto simp: st)
    from now show ?thesis
    proof
      assume "lk_sent lk' = lk_sent lk \<and> err \<noteq> None \<and> touches {ev_id e} {} d d'"
      then show ?thesis unfolding p
        by (intro exI [of _ 0]) (auto elim: touches_mono)
    next
      assume "lk_sent lk' = lk_sent lk @ [buildRequest e] \<and> touches {ev_id e} {ev_id e} d d'"
      then show ?thesis unfolding p
        by (intro exI [of _ 1]) (auto elim: touches_mono)
    qed
  qed
qed

lemma Drain_touches:
  "\<exists>n \<le> length (queue tid d).
     lk_sent (fst (Drain tid (lk, d))) = lk_sent lk @ map buildRequest (take n (queue tid d))
     \<and> touches (ev_id ` set (queue tid d)) (ev_id ` set (take n (queue tid d))) d (snd (Drain tid (lk, d)))"
proof (cases "tid = 0")
  case True
  then show ?thesis by (intro exI [of _ 0]) (simp add: Drain_def touches_refl)
next
  case False
  obtain r d1 where q: "QueuedEvents tid d = (r, d1)" by fastforce
  have d1: "db_events d1 = db_events d" using QueuedEvents_same [of d tid] q by (simp add: same_tables_def)
  show ?thesis
  proof (cases r)
    case (Inl e)
    then show ?thesis using False q d1 by (intro exI [of _ 0]) (simp add: Drain_def touches_refl)
  next
    case (Inr es)
    then have es: "es = queue tid d" using QueuedEvents_Inr q by blast
    have "touches I D d1 x = touches I D d x" for I D x by (simp add: touches_def d1)
    then show ?thesis using process_drain_touches [of es lk d1] False q Inr es by (simp add: Drain_def)
  qed
qed

text \<open>
  Replay keeps the order of receipt. Whatever the agent, the network and the database do,
  the requests a drain sends are a prefix of the tunnel's queue, in queue order (time of receipt, then
  number), each built from its event; none is skipped, reordered or sent twice.
\<close>
theorem drain_sends_queue_prefix:
  "\<exists>n \<le> length (queue tid d).
     lk_sent (fst (Drain tid (lk, d))) = lk_sent lk @ map buildRequest (take n (queue tid d))"
  using Drain_touches by blast

text \<open>
  C7. A drain never loses or alters a webhook. Whatever fails, after a drain the table
  holds the same events in the same order with the same request in each, and every event that was not in
  the tunnel's queue (another tunnel's, or one already replaying, delivered or dead) is
  untouched, bookkeeping included.
\<close>
theorem drain_loses_nothing:
  "list_all2 (\<lambda>e e'. ev_id e' = ev_id e \<and> ev_content e' = ev_content e
      \<and> (ev_id e \<notin> ev_id ` set (queue tid d) \<longrightarrow> e' = e))
     (db_events d) (db_events (snd (Drain tid (lk, d))))"
  using Drain_touches [of tid d lk] unfolding touches_def
  by (auto elim!: list_all2_mono simp: row_touch_def)

text \<open>
  C16. No false delivery. Whatever fails, an event that a drain turned into \<open>delivered\<close> was in the
  queue and its request was written to the agent in full during that drain.
\<close>
theorem drain_delivers_only_what_it_sent:
  assumes "db_wf d" and "e' \<in> set (db_events (snd (Drain tid (lk, d))))" and "ev_state e' = EventDelivered"
  shows "(\<exists>e \<in> set (db_events d). ev_id e = ev_id e' \<and> ev_state e = EventDelivered)
    \<or> (\<exists>e \<in> set (queue tid d). ev_id e = ev_id e' \<and> ev_content e = ev_content e'
          \<and> buildRequest e \<in> set (drop (length (lk_sent lk)) (lk_sent (fst (Drain tid (lk, d))))))"
proof -
  obtain n where n: "lk_sent (fst (Drain tid (lk, d))) = lk_sent lk @ map buildRequest (take n (queue tid d))"
    and t: "touches (ev_id ` set (queue tid d)) (ev_id ` set (take n (queue tid d))) d (snd (Drain tid (lk, d)))"
    using Drain_touches by blast
  from t assms(2) obtain e where e: "e \<in> set (db_events d)"
    "row_touch (ev_id ` set (queue tid d)) (ev_id ` set (take n (queue tid d))) e e'"
    unfolding touches_def by (metis in_set_conv_nth list_all2_conv_all_nth)
  show ?thesis
  proof (cases "ev_state e = EventDelivered")
    case True
    then show ?thesis using e by (auto simp: row_touch_def)
  next
    case False
    then have "ev_id e \<in> ev_id ` set (take n (queue tid d))"
      using e assms(3) by (simp add: row_touch_def)
    then obtain q where q: "q \<in> set (take n (queue tid d))" "ev_id q = ev_id e" by auto
    have "q \<in> set (queue tid d)" using q(1) by (rule in_set_takeD)
    moreover from this have "q = e"
      using inj_on_key [of ev_id "db_events d" q e] assms(1) e(1) q(2)
      by (simp add: queue_def db_wf_def events_wf_def)
    ultimately show ?thesis using q(1) e n by (auto simp: row_touch_def)
  qed
qed

section \<open>A concrete queue\<close>

text \<open>Tunnel 1 of the example database with two queued webhooks.\<close>

definition demo_event1 :: event where
  "demo_event1 = stored_event 1 ''POST'' ''/a'' [] [(''X'', [''1''])] ''one'' 1 0"

definition demo_event2 :: event where
  "demo_event2 = stored_event 1 ''PUT'' ''/b'' ''q=1'' [] ''two'' 2 0"

definition demo_queue_db :: db where
  "demo_queue_db = fold arrive (map (Pair 1) demo_hooks) demo_db"

lemma demo_queue_db_ready: "queue_ready 1 demo_queue_db"
  unfolding demo_queue_db_def by (rule hooks.arrivals_ready [OF demo_queue_ready]) (use demo_hooks_ok in \<open>simp add: list_all_iff\<close>)

lemma demo_queue_db_wf: "db_wf demo_queue_db" and demo_queue_db_quiet [simp]: "db_outcomes demo_queue_db = []"
  using demo_queue_db_ready by (simp_all add: queue_ready_def)

lemma demo_events: "db_events demo_queue_db = [demo_event1, demo_event2]"
  unfolding demo_queue_db_def demo_db_eq demo_user_db_eq demo_event1_def demo_event2_def by code_simp

lemma demo_now: "db_now demo_queue_db = 0"
  unfolding demo_queue_db_def demo_db_eq demo_user_db_eq by code_simp

lemma demo_queue: "queue 1 demo_queue_db = [demo_event1, demo_event2]"
  unfolding queue_def timeline_def demo_events demo_event1_def demo_event2_def by code_simp

text \<open>The agent answers the first event with 200; the statement that records it is lost.\<close>

definition demo_lost_db :: db where
  "demo_lost_db = demo_queue_db\<lparr>db_outcomes := [(1, Done), (2, Done), (3, NotDone ''conn closed'')]\<rparr>"

lemma demo_lost_wf: "db_wf demo_lost_db"
  using demo_queue_db_wf by (simp add: demo_lost_db_def wf_defs)

theorem drain_delivers_only_what_it_sent_witness:
  "buildRequest demo_event1 \<in> set (lk_sent (fst (Drain 1 (\<lparr>lk_script = [Responds 200], lk_sent = []\<rparr>, demo_queue_db))))"
proof -
  let ?lk = "\<lparr>lk_script = [Responds 200], lk_sent = []\<rparr>"
  let ?e = "set_delivered 200 0 demo_event1"
  have "db_events (snd (Drain 1 (?lk, demo_queue_db))) = [?e, set_requeued demo_event2]"
    unfolding demo_queue_db_def demo_db_eq demo_user_db_eq demo_event1_def demo_event2_def by code_simp
  then have "?e \<in> set (db_events (snd (Drain 1 (?lk, demo_queue_db))))" by simp
  from drain_delivers_only_what_it_sent [OF demo_queue_db_wf this]
  show ?thesis by (auto simp: demo_events demo_queue set_delivered_def demo_event1_def demo_event2_def stored_event_def)
qed

theorem drain_loses_nothing_witness:
  "\<forall>lk. map ev_body (db_events (snd (Drain 1 (lk, demo_lost_db)))) = [''one'', ''two'']
     \<and> db_events (snd (Drain 2 (lk, demo_lost_db))) = [demo_event1, demo_event2]"
proof
  fix lk
  have ev: "db_events demo_lost_db = [demo_event1, demo_event2]" by (simp add: demo_lost_db_def demo_events)
  have q: "queue 2 demo_lost_db = []"
    by (simp add: queue_def timeline_def ev queued_for_def demo_event1_def demo_event2_def stored_event_def)
  have a: "map ev_body (db_events (snd (Drain 1 (lk, demo_lost_db)))) = [''one'', ''two'']"
    using drain_loses_nothing [of 1 demo_lost_db lk]
    by (auto simp: ev list_all2_Cons1 ev_content_def demo_event1_def demo_event2_def stored_event_def)
  have b: "db_events (snd (Drain 2 (lk, demo_lost_db))) = [demo_event1, demo_event2]"
    using drain_loses_nothing [of 2 demo_lost_db lk] by (auto simp: ev q list_all2_Cons1)
  from a b show "map ev_body (db_events (snd (Drain 1 (lk, demo_lost_db)))) = [''one'', ''two'']
     \<and> db_events (snd (Drain 2 (lk, demo_lost_db))) = [demo_event1, demo_event2]" ..
qed

end
