(* ===== verification/ReplayRuns.thy ===== *)
theory ReplayRuns
  imports Replay
begin

text \<open>
  What a drain does when the database answers (\<open>db_outcomes = []\<close>): the effect of one replay
  on the event's row for each reply of the agent, and from it the outcome of a whole drain and of a
  sequence of drains.
\<close>

section \<open>One replay\<close>

definition set_failed :: "int \<Rightarrow> event \<Rightarrow> event" where
  "set_failed st e = e\<lparr>ev_attempts := ev_attempts e + 1, ev_last_status := st,
     ev_state := (if max_attempts \<le> ev_attempts e + 1 then EventDead else EventQueued)\<rparr>"

lemma keeps_request_failed [simp]: "keeps_request (set_failed st)"
  by (simp add: keeps_request_def ev_content_def set_failed_def)

lemma update_event_fields [simp]:
  "db_outcomes (update_event i f d) = db_outcomes d" "db_now (update_event i f d) = db_now d"
  "db_tunnels (update_event i f d) = db_tunnels d"
  by (simp_all add: update_event_def)

lemma update_event_update:
  "keeps_request f \<Longrightarrow> update_event i g (update_event i f d) = update_event i (g \<circ> f) d"
  by (auto simp: update_event_def keeps_request_def)

lemma update_event_cong:
  "(\<And>e. e \<in> set (db_events d) \<Longrightarrow> ev_id e = i \<Longrightarrow> f e = g e) \<Longrightarrow> update_event i f d = update_event i g d"
  by (simp add: update_event_def)

lemma update_event_mem: "e \<in> set (db_events d) \<Longrightarrow> f e \<in> set (db_events (update_event (ev_id e) f d))"
  by (force simp: update_event_def)

lemma find_event:
  "db_wf d \<Longrightarrow> e \<in> set (db_events d) \<Longrightarrow> find (\<lambda>x. ev_id x = ev_id e) (db_events d) = Some e"
  by (rule find_key_Some) (simp_all add: db_wf_def events_wf_def)

lemma marks_quiet:
  assumes "db_outcomes d = []"
  shows "MarkReplaying i d = (Inr (), update_event i set_replaying d)"
    and "MarkDelivered i st d = (Inr (), update_event i (set_delivered st (db_now d)) d)"
    and "RequeueEvent i d = (Inr (), update_event i set_requeued d)"
  using assms by (simp_all add: MarkReplaying_def MarkDelivered_def RequeueEvent_def)

lemma update_wf:
  "db_wf d \<Longrightarrow> keeps_request f \<Longrightarrow> (\<And>e. event_ok e \<Longrightarrow> event_ok (f e)) \<Longrightarrow> db_wf (update_event i f d)"
  using update_event_good [of d f i] by (auto simp: db_wf_def events_wf_def)

lemma MarkFailed_quiet:
  assumes "db_outcomes d = []" and "db_wf d" and "e \<in> set (db_events d)"
  shows "MarkFailed (ev_id e) st d = (Inr (), update_event (ev_id e) (set_failed st) d)"
proof -
  have "update_event (ev_id e) ((\<lambda>x. x\<lparr>ev_state := s\<rparr>) \<circ> set_attempted st) d = update_event (ev_id e) (set_failed st) d"
    if s: "s = (if max_attempts \<le> ev_attempts e + 1 then EventDead else EventQueued)" for s
  proof (rule update_event_cong)
    fix x assume "x \<in> set (db_events d)" "ev_id x = ev_id e"
    then have "x = e" using assms inj_on_key [of ev_id "db_events d" x e] by (simp add: db_wf_def events_wf_def)
    then show "((\<lambda>x. x\<lparr>ev_state := s\<rparr>) \<circ> set_attempted st) x = set_failed st x"
      by (simp add: s set_attempted_def set_failed_def)
  qed
  then show ?thesis
    using assms(1) find_event [OF assms(2,3)]
    by (simp add: MarkFailed_def and_then_def sql_attempted_def sql_set_state_def update_event_update)
qed

text \<open>The bookkeeping a reply leaves in the row of the event that was replayed.\<close>

definition reply_effect :: "int \<Rightarrow> int \<Rightarrow> event \<Rightarrow> event" where
  "reply_effect st now e = (if 500 \<le> st then set_failed st e else set_delivered st now e)"

lemma keeps_request_effect [simp]: "keeps_request (reply_effect st now)"
  using keeps_request_failed [of st] keeps_request_simps(2) [of st now]
  by (simp add: keeps_request_def reply_effect_def)

lemma ReplayEvent_reply:
  assumes "db_outcomes d = []" and "db_wf d" and "e \<in> set (db_events d)" and "lk_script lk = Responds st # xs"
  shows "ReplayEvent e (lk, d) = ((st, None), \<lparr>lk_script = xs, lk_sent = lk_sent lk @ [buildRequest e]\<rparr>,
    update_event (ev_id e) (reply_effect st (db_now d)) d)"
proof -
  let ?d1 = "update_event (ev_id e) set_replaying d"
  have wf1: "db_wf ?d1" using assms(2) by (rule update_wf) simp_all
  have "set_replaying e \<in> set (db_events ?d1)" using assms(3) by (rule update_event_mem)
  then have mf: "MarkFailed (ev_id e) st ?d1 = (Inr (), update_event (ev_id e) (set_failed st) ?d1)"
    using MarkFailed_quiet [of ?d1 "set_replaying e" st] assms(1) wf1 by (simp add: set_replaying_def)
  have eff: "set_failed st \<circ> set_replaying = set_failed st"
    "set_delivered st (db_now d) \<circ> set_replaying = set_delivered st (db_now d)"
    by (simp_all add: fun_eq_iff set_failed_def set_replaying_def set_delivered_def)
  have "reply_effect st (db_now d) = (if 500 \<le> st then set_failed st else set_delivered st (db_now d))"
    by (simp add: fun_eq_iff reply_effect_def)
  moreover have "lk\<lparr>lk_script := xs, lk_sent := lk_sent lk @ [buildRequest e]\<rparr>
      = \<lparr>lk_script = xs, lk_sent = lk_sent lk @ [buildRequest e]\<rparr>" by simp
  ultimately show ?thesis
    using assms mf eff
    by (simp add: ReplayEvent_def marks_quiet OpenStream_def Let_def err_of_def update_event_update)
qed

lemma drain_step_reply:
  assumes "db_outcomes d = []" and "db_wf d" and "e \<in> set (db_events d)" and "lk_script lk = Responds st # xs"
  shows "drain_step e (lk, d) = (st < 500, \<lparr>lk_script = xs, lk_sent = lk_sent lk @ [buildRequest e]\<rparr>,
    update_event (ev_id e) (reply_effect st (db_now d)) d)"
  using ReplayEvent_reply [OF assms] by (simp add: drain_step_def)

lemma reply_wf:
  assumes "db_outcomes d = []" and "db_wf d" and "e \<in> set (db_events d)"
  shows "db_wf (update_event (ev_id e) (reply_effect st (db_now d)) d)"
  using ReplayEvent_good [OF assms(2), of e "\<lparr>lk_script = [Responds st], lk_sent = []\<rparr>"]
    ReplayEvent_reply [OF assms, of "\<lparr>lk_script = [Responds st], lk_sent = []\<rparr>" st "[]"] by simp

section \<open>A run of deliveries\<close>

definition deliver_all :: "int \<Rightarrow> (event \<times> int) list \<Rightarrow> db \<Rightarrow> db" where
  "deliver_all now ps d = fold (\<lambda>(e, st). update_event (ev_id e) (reply_effect st now)) ps d"

lemma deliver_all_simps [simp]:
  "deliver_all now [] d = d"
  "deliver_all now ((e, st) # ps) d = deliver_all now ps (update_event (ev_id e) (reply_effect st now) d)"
  by (simp_all add: deliver_all_def)

lemma deliver_all_fields [simp]:
  "db_outcomes (deliver_all now ps d) = db_outcomes d" "db_now (deliver_all now ps d) = db_now d"
  by (induction ps arbitrary: d) auto

lemma update_event_other:
  "x \<in> set (db_events d) \<Longrightarrow> ev_id x \<noteq> i \<Longrightarrow> x \<in> set (db_events (update_event i f d))"
  by (force simp: update_event_def)

lemma deliver_all_other:
  "x \<in> set (db_events d) \<Longrightarrow> ev_id x \<notin> (\<lambda>p. ev_id (fst p)) ` set ps \<Longrightarrow> x \<in> set (db_events (deliver_all now ps d))"
  by (induction ps arbitrary: d) (auto simp: update_event_other)

lemma deliver_all_row:
  assumes "distinct (map (\<lambda>p. ev_id (fst p)) ps)" and "(e, st) \<in> set ps" and "\<forall>(x, _) \<in> set ps. x \<in> set (db_events d)"
  shows "reply_effect st now e \<in> set (db_events (deliver_all now ps d))"
  using assms
proof (induction ps arbitrary: d)
  case Nil
  then show ?case by simp
next
  case (Cons p ps)
  obtain x sx where p: "p = (x, sx)" by fastforce
  let ?d = "update_event (ev_id x) (reply_effect sx now) d"
  have rest: "\<forall>(y, _) \<in> set ps. y \<in> set (db_events ?d)"
    using Cons.prems(1,3) p by (force intro: update_event_other)
  show ?case
  proof (cases "(e, st) = p")
    case True
    then have es: "e = x" "st = sx" using p by auto
    have "reply_effect st now e \<in> set (db_events ?d)"
      using Cons.prems(3) p update_event_mem [of x d "reply_effect sx now"] by (simp add: es)
    moreover have "ev_id (reply_effect st now e) = ev_id x"
      using keeps_request_effect es by (simp add: keeps_request_def)
    moreover have "ev_id x \<notin> (\<lambda>p. ev_id (fst p)) ` set ps" using Cons.prems(1) p by simp
    ultimately show ?thesis using deliver_all_other [of "reply_effect st now e" ?d ps now] p by simp
  next
    case False
    then have "(e, st) \<in> set ps" using Cons.prems(2) by auto
    moreover have "distinct (map (\<lambda>p. ev_id (fst p)) ps)" using Cons.prems(1) by simp
    ultimately show ?thesis using Cons.IH [of ?d] rest p by simp
  qed
qed

lemma process_delivers:
  assumes "db_outcomes d = []" and "db_wf d" and "set (es1 @ es2) \<subseteq> set (db_events d)"
    and "distinct (map ev_id (es1 @ es2))" and "length sts = length es1" and "list_all (\<lambda>st. st < 500) sts"
    and "lk_script lk = map Responds sts @ xs"
  shows "process_until drain_step (es1 @ es2) (lk, d)
      = process_until drain_step es2
          (\<lparr>lk_script = xs, lk_sent = lk_sent lk @ map buildRequest es1\<rparr>, deliver_all (db_now d) (zip es1 sts) d)
    \<and> db_wf (deliver_all (db_now d) (zip es1 sts) d)
    \<and> set es2 \<subseteq> set (db_events (deliver_all (db_now d) (zip es1 sts) d))"
  using assms
proof (induction es1 arbitrary: sts lk d)
  case Nil
  then show ?case by (cases lk) auto
next
  case (Cons e es1)
  then obtain st sts' where sts: "sts = st # sts'" by (cases sts) auto
  let ?d = "update_event (ev_id e) (reply_effect st (db_now d)) d"
  let ?lk = "\<lparr>lk_script = map Responds sts' @ xs, lk_sent = lk_sent lk @ [buildRequest e]\<rparr>"
  have e: "e \<in> set (db_events d)" using Cons.prems(3) by simp
  have step: "drain_step e (lk, d) = (True, ?lk, ?d)"
    using drain_step_reply [OF Cons.prems(1,2) e, of lk st "map Responds sts' @ xs"] Cons.prems(6,7) sts by simp
  have mem: "set (es1 @ es2) \<subseteq> set (db_events ?d)"
  proof
    fix x assume x: "x \<in> set (es1 @ es2)"
    have "ev_id e \<notin> set (map ev_id (es1 @ es2))" using Cons.prems(4) by simp
    moreover have "ev_id x \<in> set (map ev_id (es1 @ es2))" using x unfolding set_map by (rule imageI)
    ultimately have "ev_id x \<noteq> ev_id e" by metis
    moreover have "x \<in> set (db_events d)" using Cons.prems(3) x by auto
    ultimately have "x \<in> set (db_events d)" "ev_id x \<noteq> ev_id e" by blast+
    then show "x \<in> set (db_events ?d)" by (rule update_event_other)
  qed
  have d: "distinct (map ev_id (es1 @ es2))" and l: "length sts' = length es1"
    and s: "list_all (\<lambda>st. st < 500) sts'"
    using Cons.prems(4) Cons.prems(5,6)[unfolded sts] by simp_all
  have q: "db_outcomes ?d = []" using Cons.prems(1) by simp
  have "lk_script ?lk = map Responds sts' @ xs" by simp
  note ih = Cons.IH [OF q reply_wf [OF Cons.prems(1,2) e] mem d l s this]
  have "process_until drain_step ((e # es1) @ es2) (lk, d) = process_until drain_step (es1 @ es2) (?lk, ?d)"
    by (simp add: step)
  moreover have "deliver_all (db_now d) (zip (e # es1) sts) d = deliver_all (db_now ?d) (zip es1 sts') ?d"
    by (simp add: sts)
  ultimately show ?case using ih by simp
qed

lemma queue_events: "set (queue tid d) \<subseteq> set (db_events d)"
  by (auto simp: queue_def)

lemma queue_member: "e \<in> set (queue tid d) \<Longrightarrow> queued_for tid e"
  by (simp add: queue_def)

lemma Drain_quiet:
  "db_outcomes d = [] \<Longrightarrow> tid \<noteq> 0 \<Longrightarrow> Drain tid (lk, d) = process_until drain_step (queue tid d) (lk, d)"
  by (simp add: Drain_def QueuedEvents_def select_events_queue)

text \<open>A reply below 500 takes the event out of every queue.\<close>

lemma queue_reply_ok:
  "st < 500 \<Longrightarrow> queue t (update_event i (reply_effect st now) d) = filter (\<lambda>e. ev_id e \<noteq> i) (queue t d)"
  by (rule queue_update_out) (simp_all add: reply_effect_def set_delivered_def)

lemma queue_deliver_all:
  "list_all (\<lambda>(_, st). st < 500) ps \<Longrightarrow>
     queue t (deliver_all now ps d) = filter (\<lambda>e. ev_id e \<notin> (\<lambda>p. ev_id (fst p)) ` set ps) (queue t d)"
proof (induction ps arbitrary: d)
  case Nil
  then show ?case by simp
next
  case (Cons p ps)
  then show ?case by (cases p) (auto simp: queue_reply_ok intro!: filter_cong)
qed

lemma filter_keys_prefix:
  "distinct (map f (xs @ ys)) \<Longrightarrow> filter (\<lambda>y. f y \<notin> f ` set xs) (xs @ ys) = ys"
  by (auto simp: filter_empty_conv intro!: filter_True)

lemma zip_fst_map: "length ys = length xs \<Longrightarrow> map (\<lambda>p. f (fst p)) (zip xs ys) = map f xs"
  by (induction xs arbitrary: ys) (auto simp: length_Suc_conv)

lemma zip_fst_image: "length ys = length xs \<Longrightarrow> (\<lambda>p. f (fst p)) ` set (zip xs ys) = f ` set xs"
  by (metis list.set_map zip_fst_map)

lemma queue_after_prefix:
  assumes "db_wf d" and "queue tid d = es1 @ es2" and "length sts = length es1" and "list_all (\<lambda>st. st < 500) sts"
  shows "queue tid (deliver_all now (zip es1 sts) d) = es2"
proof -
  have "list_all (\<lambda>(_, st). st < 500) (zip es1 sts)"
    using assms(4) by (auto simp: list_all_iff dest: set_zip_rightD)
  then show ?thesis
    using queue_distinct [OF assms(1), of tid] assms(2,3)
    by (simp add: queue_deliver_all zip_fst_image filter_keys_prefix del: filter_append)
qed

lemma drain_all:
  assumes "db_outcomes d = []" and "db_wf d" and "tid \<noteq> 0"
    and "length sts = length (queue tid d)" and "list_all (\<lambda>st. st < 500) sts"
    and "lk_script lk = map Responds sts @ xs"
    and "Drain tid (lk, d) = (lk', d')"
  shows "lk_sent lk' = lk_sent lk @ map buildRequest (queue tid d) \<and> lk_script lk' = xs \<and> queue tid d' = []
    \<and> (\<forall>(e, st) \<in> set (zip (queue tid d) sts). set_delivered st (db_now d) e \<in> set (db_events d'))"
proof -
  have d: "distinct (map ev_id (queue tid d @ []))" using queue_distinct assms(2) by simp
  have p: "process_until drain_step (queue tid d @ []) (lk, d)
      = process_until drain_step [] (\<lparr>lk_script = xs, lk_sent = lk_sent lk @ map buildRequest (queue tid d)\<rparr>,
          deliver_all (db_now d) (zip (queue tid d) sts) d)"
    using process_delivers [OF assms(1,2) _ d assms(4,5,6)] queue_events by simp
  then have r: "lk' = \<lparr>lk_script = xs, lk_sent = lk_sent lk @ map buildRequest (queue tid d)\<rparr>"
    "d' = deliver_all (db_now d) (zip (queue tid d) sts) d"
    using assms(7) Drain_quiet [OF assms(1,3), of lk] by auto
  have "reply_effect st (db_now d) e \<in> set (db_events d')" if "(e, st) \<in> set (zip (queue tid d) sts)" for e st
    using deliver_all_row [OF _ that] d queue_events [of tid d] assms(4) r(2)
    by (auto simp: zip_fst_map dest: set_zip_leftD)
  moreover have "st < 500" if "(e, st) \<in> set (zip (queue tid d) sts)" for e st
    using assms(5) that by (auto simp: list_all_iff dest: set_zip_rightD)
  ultimately have "\<forall>(e, st) \<in> set (zip (queue tid d) sts). set_delivered st (db_now d) e \<in> set (db_events d')"
    by (fastforce simp: reply_effect_def)
  then show ?thesis using r queue_after_prefix [OF assms(2) _ assms(4,5), of tid "[]"] by simp
qed

text \<open>
  C5. A reconnect empties the queue. When the database answers and the local app answers every
  replayed request with a status below 500, a drain sends the whole queue in order, the queue
  is empty afterwards, and each event is recorded as delivered with the status it got.
\<close>
theorem drain_delivers_the_queue:
  assumes "db_outcomes d = []" and "db_wf d" and "tid \<noteq> 0"
    and "length sts = length (queue tid d)" and "list_all (\<lambda>st. st < 500) sts"
    and "lk_script lk = map Responds sts @ xs"
    and "Drain tid (lk, d) = (lk', d')"
  shows "lk_sent lk' = lk_sent lk @ map buildRequest (queue tid d) \<and> lk_script lk' = xs \<and> queue tid d' = []
    \<and> (\<forall>(e, st) \<in> set (zip (queue tid d) sts). set_delivered st (db_now d) e \<in> set (db_events d'))"
  by (rule drain_all [OF assms])

section \<open>A drain that meets a failure\<close>

text \<open>A reply of 500 or more keeps the event at its place in the queue unless it was the fifth attempt.\<close>

lemma timeline_distinct: "db_wf d \<Longrightarrow> distinct (map ev_id (timeline d))"
  using timeline_ids [of d] by (simp add: db_wf_def events_wf_def)

lemma queue_update_row:
  assumes "keeps_request f" and "db_wf d" and "queue tid d = e # es"
  shows "queue tid (update_event (ev_id e) f d) = filter (queued_for tid) [f e] @ es"
proof -
  let ?g = "\<lambda>x. if ev_id x = ev_id e then f x else x"
  have g: "filter (queued_for tid) (map ?g xs) = filter (queued_for tid) [f e] @ es"
    if "filter (queued_for tid) xs = e # es" "distinct (map ev_id xs)" for xs
    using that
  proof (induction xs)
    case Nil
    then show ?case by simp
  next
    case (Cons x xs)
    show ?case
    proof (cases "queued_for tid x")
      case True
      then have x: "x = e" "filter (queued_for tid) xs = es" using Cons.prems by auto
      have "ev_id y \<noteq> ev_id e" if "y \<in> set xs" for y
        using Cons.prems(2) x(1) that by (auto simp: image_iff)
      then have "map ?g xs = xs" by (intro map_idI) simp
      then show ?thesis using x by simp
    next
      case False
      have "e \<in> set (filter (queued_for tid) xs)" using Cons.prems(1) False by simp
      then have "ev_id x \<noteq> ev_id e" using Cons.prems(2) by auto
      then show ?thesis using Cons False by simp
    qed
  qed
  show ?thesis
    using g [of "timeline d"] timeline_distinct [OF assms(2)] assms(1,3)
    by (simp add: queue_def timeline_update)
qed

lemma deliver_all_evolves:
  assumes "db_outcomes d = []" and "db_wf d" and "queue tid d = es1 @ es2"
    and "length sts = length es1" and "list_all (\<lambda>st. st < 500) sts" and "lk_script lk = map Responds sts @ xs"
  shows "process_until drain_step (queue tid d) (lk, d)
      = process_until drain_step es2
          (\<lparr>lk_script = xs, lk_sent = lk_sent lk @ map buildRequest es1\<rparr>, deliver_all (db_now d) (zip es1 sts) d)"
    and "db_wf (deliver_all (db_now d) (zip es1 sts) d)"
    and "queue tid (deliver_all (db_now d) (zip es1 sts) d) = es2"
  using process_delivers [OF assms(1,2) _ _ assms(4-6), of es2] queue_events [of tid d]
    queue_distinct [OF assms(2), of tid] queue_after_prefix [OF assms(2-5)] assms(3)
  by simp_all

text \<open>
  C35. A failing app stops the drain and keeps its place in line. When the database answers, the app accepts the
  first events of the queue and it answers the next one, \<open>e\<close>, with 500 or more, the drain sends
  nothing after \<open>e\<close>; afterwards the queue is what stood behind \<open>e\<close>, still headed by \<open>e\<close> with one more
  attempt counted, unless that was its fifth attempt, which makes it dead.
\<close>
theorem drain_stops_at_server_error:
  assumes "db_outcomes d = []" and "db_wf d" and "tid \<noteq> 0" and "queue tid d = es1 @ e # es2"
    and "length sts = length es1" and "list_all (\<lambda>st. st < 500) sts" and "500 \<le> st"
    and "lk_script lk = map Responds sts @ Responds st # xs"
    and "Drain tid (lk, d) = (lk', d')"
  shows "lk_sent lk' = lk_sent lk @ map buildRequest (es1 @ [e])
    \<and> set_failed st e \<in> set (db_events d')
    \<and> queue tid d' = (if max_attempts \<le> ev_attempts e + 1 then es2 else set_failed st e # es2)"
proof -
  let ?lk1 = "\<lparr>lk_script = Responds st # xs, lk_sent = lk_sent lk @ map buildRequest es1\<rparr>"
  let ?d1 = "deliver_all (db_now d) (zip es1 sts) d"
  note p = deliver_all_evolves [OF assms(1,2,4,5,6,8)]
  have q1: "db_outcomes ?d1 = []" using assms(1) by simp
  have e: "e \<in> set (db_events ?d1)" using queue_events [of tid ?d1] p(3) by simp
  have eff: "reply_effect st (db_now ?d1) = set_failed st" using assms(7) by (simp add: fun_eq_iff reply_effect_def)
  have "drain_step e (?lk1, ?d1) = (False, \<lparr>lk_script = xs, lk_sent = lk_sent ?lk1 @ [buildRequest e]\<rparr>,
      update_event (ev_id e) (set_failed st) ?d1)"
    using drain_step_reply [OF q1 p(2) e, of ?lk1 st xs] assms(7) eff by simp
  then have r: "lk' = \<lparr>lk_script = xs, lk_sent = lk_sent lk @ map buildRequest (es1 @ [e])\<rparr>"
    "d' = update_event (ev_id e) (set_failed st) ?d1"
    using assms(9) p(1) Drain_quiet [OF assms(1,3), of lk] by auto
  have "queued_for tid e" using assms(4) queue_member [of e tid d] by simp
  then have "queued_for tid (set_failed st e) \<longleftrightarrow> \<not> max_attempts \<le> ev_attempts e + 1"
    by (simp add: queued_for_def set_failed_def)
  then show ?thesis
    using r queue_update_row [OF keeps_request_failed p(2,3), of st] update_event_mem [OF e, of "set_failed st"]
    by simp
qed

text \<open>
  C37. A lost connection costs nothing. When the database answers, the agent accepts the first events of the queue and the
  stream for the next one cannot be opened, the drain stops there: that event is
  still first in the queue (its attempt count back to zero), followed by all that stood behind it.
\<close>
theorem drain_requeues_on_disconnect:
  assumes "db_outcomes d = []" and "db_wf d" and "tid \<noteq> 0" and "queue tid d = es1 @ e # es2"
    and "length sts = length es1" and "list_all (\<lambda>st. st < 500) sts"
    and "lk_script lk = map Responds sts"
    and "Drain tid (lk, d) = (lk', d')"
  shows "lk_sent lk' = lk_sent lk @ map buildRequest es1 \<and> queue tid d' = set_requeued e # es2"
proof -
  let ?lk1 = "\<lparr>lk_script = [], lk_sent = lk_sent lk @ map buildRequest es1\<rparr>"
  let ?d1 = "deliver_all (db_now d) (zip es1 sts) d"
  have s: "lk_script lk = map Responds sts @ []" using assms(7) by simp
  note p = deliver_all_evolves [OF assms(1,2,4,5,6) s]
  have eff: "set_requeued \<circ> set_replaying = set_requeued"
    by (simp add: fun_eq_iff set_requeued_def set_replaying_def)
  have "drain_step e (?lk1, ?d1) = (False, ?lk1, update_event (ev_id e) set_requeued ?d1)"
    using assms(1) eff
    by (simp add: drain_step_def ReplayEvent_def marks_quiet OpenStream_def update_event_update)
  then have r: "lk' = ?lk1" "d' = update_event (ev_id e) set_requeued ?d1"
    using assms(8) p(1) Drain_quiet [OF assms(1,3), of lk] by auto
  have "queued_for tid e" using assms(4) queue_member [of e tid d] by simp
  then show ?thesis
    using r queue_update_row [OF _ p(2,3), of set_requeued] by (simp add: queued_for_def set_requeued_def)
qed

section \<open>Two drains at once\<close>

lemma process_sends:
  assumes "db_outcomes d = []" and "length sts = length es" and "list_all (\<lambda>st. st < 500) sts" and "lk_script lk = map Responds sts @ xs"
  shows "\<exists>lk' d'. process_until drain_step es (lk, d) = (lk', d') \<and> lk_sent lk' = lk_sent lk @ map buildRequest es \<and> db_outcomes d' = []"
  using assms
proof (induction es arbitrary: sts lk d)
  case Nil
  then show ?case by simp
next
  case (Cons e es)
  then obtain st sts' where sts: "sts = st # sts'" by (cases sts) auto
  let ?lk = "\<lparr>lk_script = map Responds sts' @ xs, lk_sent = lk_sent lk @ [buildRequest e]\<rparr>"
  obtain d1 where "drain_step e (lk, d) = (True, ?lk, d1)" "db_outcomes d1 = []"
    using Cons.prems sts by (simp add: drain_step_def ReplayEvent_def marks_quiet OpenStream_def Let_def err_of_def)
  then show ?case using Cons.IH [of d1 sts' ?lk] Cons.prems(2,3) sts by simp
qed

text \<open>
  Overlapping drains deliver twice. \<open>OnConnect\<close> runs once per connection, so an agent that reconnects quickly has two drains; when both
  have listed the queue before either has marked an event, each sends every listed event, since no
  mark looks at the state of the row it changes.
\<close>
theorem overlapping_drains_deliver_twice:
  assumes "db_outcomes d = []" and "es = queue tid d" and "length sts = length es" and "list_all (\<lambda>st. st < 500) sts"
    and "lk_script lk1 = map Responds sts" and "lk_script lk2 = map Responds sts"
    and "process_until drain_step es (lk1, d) = (lk1', d1)" and "process_until drain_step es (lk2, d1) = (lk2', d2)"
  shows "lk_sent lk1' = lk_sent lk1 @ map buildRequest es \<and> lk_sent lk2' = lk_sent lk2 @ map buildRequest es"
  using process_sends [OF assms(1,3,4), of lk1 "[]"] process_sends [OF _ assms(3,4), of d1 lk2 "[]"] assms(5-8) by auto

section \<open>Several drains\<close>

text \<open>One reconnect at which the agent answers the first request sent with \<open>st\<close>, and what it leaves behind.\<close>

definition reconnect :: "int \<Rightarrow> int \<Rightarrow> db \<Rightarrow> db" where
  "reconnect tid st d = snd (Drain tid (\<lparr>lk_script = [Responds st], lk_sent = []\<rparr>, d))"

lemma reconnect_fails:
  assumes "db_outcomes d = []" and "db_wf d" and "tid \<noteq> 0" and "queue tid d = e # es" and "500 \<le> st"
  shows "reconnect tid st d = update_event (ev_id e) (set_failed st) d"
    and "queue tid (reconnect tid st d) = (if max_attempts \<le> ev_attempts e + 1 then es else set_failed st e # es)"
proof -
  let ?lk = "\<lparr>lk_script = [Responds st], lk_sent = []\<rparr>"
  have e: "e \<in> set (db_events d)" using queue_events [of tid d] assms(4) by simp
  have eff: "reply_effect st (db_now d) = set_failed st" using assms(5) by (simp add: fun_eq_iff reply_effect_def)
  show r: "reconnect tid st d = update_event (ev_id e) (set_failed st) d"
    using drain_step_reply [OF assms(1,2) e, of ?lk st "[]"] Drain_quiet [OF assms(1,3), of ?lk] assms(4,5) eff
    by (simp add: reconnect_def)
  have "queued_for tid e" using assms(4) queue_member [of e tid d] by simp
  then show "queue tid (reconnect tid st d) = (if max_attempts \<le> ev_attempts e + 1 then es else set_failed st e # es)"
    using queue_update_row [OF keeps_request_failed assms(2,4), of st]
    by (simp add: r queued_for_def set_failed_def)
qed

lemma drain_first_fails:
  assumes "db_outcomes d = []" and "db_wf d" and "tid \<noteq> 0" and "queue tid d = e # es" and "500 \<le> st" and "lk_script lk = Responds st # xs"
  shows "snd (Drain tid (lk, d)) = reconnect tid st d"
proof -
  have e: "e \<in> set (db_events d)" using queue_events [of tid d] assms(4) by simp
  have eff: "reply_effect st (db_now d) = set_failed st" using assms(5) by (simp add: fun_eq_iff reply_effect_def)
  show ?thesis
    using drain_step_reply [OF assms(1,2) e assms(6)] Drain_quiet [OF assms(1,3), of lk] assms(4,5) eff reconnect_fails(1) [OF assms(1-5)]
    by simp
qed

lemma reconnect_keeps:
  assumes "db_outcomes d = []" and "db_wf d" and "tid \<noteq> 0" and "queue tid d = e # es" and "500 \<le> st"
  shows "db_outcomes (reconnect tid st d) = [] \<and> db_wf (reconnect tid st d)"
  using assms Drain_good [OF assms(2), of tid "\<lparr>lk_script = [Responds st], lk_sent = []\<rparr>"]
  by (simp add: reconnect_fails(1)) (simp add: reconnect_def flip: reconnect_fails(1))

lemma failing_reconnects:
  assumes "db_outcomes d = []" and "db_wf d" and "tid \<noteq> 0" and "queue tid d = e # es"
    and "list_all (\<lambda>st. 500 \<le> st) sts" and "ev_attempts e + int (length sts) < max_attempts"
  shows "queue tid (fold (reconnect tid) sts d) = fold set_failed sts e # es
    \<and> db_outcomes (fold (reconnect tid) sts d) = [] \<and> db_wf (fold (reconnect tid) sts d)
    \<and> ev_attempts (fold set_failed sts e) = ev_attempts e + int (length sts)"
  using assms
proof (induction sts arbitrary: d e)
  case Nil
  then show ?case by simp
next
  case (Cons st sts)
  have st: "500 \<le> st" using Cons.prems(5) by simp
  note r = reconnect_fails [OF Cons.prems(1-4) st] reconnect_keeps [OF Cons.prems(1-4) st]
  have a: "ev_attempts (set_failed st e) = ev_attempts e + 1" by (simp add: set_failed_def)
  have "queue tid (reconnect tid st d) = set_failed st e # es" using r(2) Cons.prems(6) by simp
  then show ?case
    using Cons.IH [of "reconnect tid st d" "set_failed st e"] r(3) a Cons.prems(3,5,6) by simp
qed

lemma failing_head_dies:
  assumes "db_outcomes d = []" and "db_wf d" and "tid \<noteq> 0" and "queue tid d = e # es"
    and "ev_attempts e = 0" and "length sts = 5" and "list_all (\<lambda>st. 500 \<le> st) sts"
  shows "(\<forall>k<5. map ev_id (queue tid (fold (reconnect tid) (take k sts) d)) = ev_id e # map ev_id es)
    \<and> queue tid (fold (reconnect tid) sts d) = es
    \<and> (\<exists>x \<in> set (db_events (fold (reconnect tid) sts d)). ev_id x = ev_id e \<and> ev_state x = EventDead \<and> ev_attempts x = 5
        \<and> ev_last_status x = sts ! 4)"
proof -
  have id: "ev_id (fold set_failed xs e) = ev_id e" for xs
    by (induction xs arbitrary: e) (simp_all add: set_failed_def)
  have early: "queue tid (fold (reconnect tid) (take k sts) d) = fold set_failed (take k sts) e # es
      \<and> db_outcomes (fold (reconnect tid) (take k sts) d) = [] \<and> db_wf (fold (reconnect tid) (take k sts) d)
      \<and> ev_attempts (fold set_failed (take k sts) e) = int k" if "k < 5" for k
    using failing_reconnects [OF assms(1-4), of "take k sts"] assms(5-7) that
    by (auto simp: max_attempts_def list_all_iff min_def dest: in_set_takeD)
  let ?d4 = "fold (reconnect tid) (take 4 sts) d" and ?e4 = "fold set_failed (take 4 sts) e"
  have q4: "db_outcomes ?d4 = []" "db_wf ?d4" "queue tid ?d4 = ?e4 # es" "ev_attempts ?e4 = 4"
    using early [of 4] by simp_all
  have st: "500 \<le> sts ! 4" using assms(6,7) by (simp add: list_all_length)
  have "sts = take 4 sts @ [sts ! 4]" using take_Suc_conv_app_nth [of 4 sts] assms(6) by simp
  then have d5: "fold (reconnect tid) sts d = reconnect tid (sts ! 4) ?d4"
    by (metis fold_append fold_simps comp_apply)
  note r = reconnect_fails [OF q4(1,2) assms(3) q4(3) st]
  have "?e4 \<in> set (db_events ?d4)" using queue_events [of tid ?d4] q4(3) by simp
  from update_event_mem [OF this, of "set_failed (sts ! 4)"]
  have "set_failed (sts ! 4) ?e4 \<in> set (db_events (fold (reconnect tid) sts d))" by (simp add: d5 r(1))
  moreover have "queue tid (fold (reconnect tid) sts d) = es" using r(2) q4(4) d5 by (simp add: max_attempts_def)
  moreover have "ev_id (set_failed (sts ! 4) ?e4) = ev_id e \<and> ev_state (set_failed (sts ! 4) ?e4) = EventDead
      \<and> ev_attempts (set_failed (sts ! 4) ?e4) = 5 \<and> ev_last_status (set_failed (sts ! 4) ?e4) = sts ! 4"
    using q4(4) id by (simp add: set_failed_def max_attempts_def)
  ultimately show ?thesis using early id by auto
qed

text \<open>
  C36. A poison webhook cannot block the queue for ever. While the database answers, an event at the head of the queue, not tried before, that
  the app answers with 500 or more at every reconnect keeps its place for four reconnects, is marked dead
  by the fifth, and the rest of the queue moves up unchanged.
\<close>
theorem poison_event_dies_at_fifth_failure:
  assumes "db_outcomes d = []" and "db_wf d" and "tid \<noteq> 0" and "queue tid d = e # es"
    and "ev_attempts e = 0" and "length sts = 5" and "list_all (\<lambda>st. 500 \<le> st) sts"
  shows "(\<forall>k<5. map ev_id (queue tid (fold (reconnect tid) (take k sts) d)) = ev_id e # map ev_id es)
    \<and> queue tid (fold (reconnect tid) sts d) = es
    \<and> (\<exists>x \<in> set (db_events (fold (reconnect tid) sts d)). ev_id x = ev_id e \<and> ev_state x = EventDead \<and> ev_attempts x = 5)"
  using failing_head_dies [OF assms] by blast

text \<open>
  An event in state \<open>replaying\<close> is stranded: no sequence of drains, on whatever connections
  and with whatever failures, sends it or changes its row again, because only queued events are selected.
  It is the state an event is left in when the process stops during a replay or the
  statement that records the outcome fails.
\<close>
theorem replaying_event_is_stranded:
  assumes "db_wf d" and "e \<in> set (db_events d)" and "ev_state e = EventReplaying"
  shows "e \<in> set (db_events (fold (\<lambda>(tid, lk) d. snd (Drain tid (lk, d))) runs d))"
  using assms
proof (induction runs arbitrary: d)
  case Nil
  then show ?case by simp
next
  case (Cons run runs)
  obtain tid lk where run: "run = (tid, lk)" by fastforce
  let ?d = "snd (Drain tid (lk, d))"
  have "ev_id e \<notin> ev_id ` set (queue tid d)"
  proof
    assume "ev_id e \<in> ev_id ` set (queue tid d)"
    then obtain q where q: "q \<in> set (queue tid d)" "ev_id q = ev_id e" by auto
    then have "q = e" using inj_on_key [of ev_id "db_events d" q e] queue_events Cons.prems(1,2)
      by (auto simp: db_wf_def events_wf_def)
    then show False using queue_member [OF q(1)] Cons.prems(3) by (simp add: queued_for_def)
  qed
  moreover obtain n where "touches (ev_id ` set (queue tid d)) (ev_id ` set (take n (queue tid d))) d ?d"
    using Drain_touches by blast
  moreover obtain i where "i < length (db_events d)" "e = db_events d ! i"
    using Cons.prems(2) by (metis in_set_conv_nth)
  ultimately have "e \<in> set (db_events ?d)"
    by (auto simp: touches_def row_touch_def list_all2_conv_all_nth in_set_conv_nth)
  then show ?case using Cons.IH [of ?d] Drain_good [OF Cons.prems(1)] Cons.prems(3) run by simp
qed

section \<open>The theorems at work\<close>

lemma demo_head: "queue 1 demo_queue_db = demo_event1 # [demo_event2]"
  by (rule demo_queue)

theorem drain_delivers_the_queue_witness:
  "queue 1 (snd (Drain 1 (\<lparr>lk_script = [Responds 200, Responds 404], lk_sent = []\<rparr>, demo_queue_db))) = []"
proof -
  let ?lk = "\<lparr>lk_script = [Responds 200, Responds 404], lk_sent = []\<rparr>"
  obtain lk' d' where r: "Drain 1 (?lk, demo_queue_db) = (lk', d')" by fastforce
  show ?thesis
    using drain_delivers_the_queue [OF demo_queue_db_quiet demo_queue_db_wf, of 1 "[200, 404]" ?lk "[]" lk' d'] r
    by (simp add: demo_queue)
qed

theorem drain_stops_at_server_error_witness:
  "queue 1 (snd (Drain 1 (\<lparr>lk_script = [Responds 200, Responds 503], lk_sent = []\<rparr>, demo_queue_db)))
     = [set_failed 503 demo_event2]"
proof -
  let ?lk = "\<lparr>lk_script = [Responds 200, Responds 503], lk_sent = []\<rparr>"
  obtain lk' d' where r: "Drain 1 (?lk, demo_queue_db) = (lk', d')" by fastforce
  show ?thesis
    using drain_stops_at_server_error [OF demo_queue_db_quiet demo_queue_db_wf, of 1 "[demo_event1]" demo_event2 "[]"
        "[200]" 503 ?lk "[]" lk' d'] r
    by (simp add: demo_queue demo_event2_def stored_event_def max_attempts_def)
qed

theorem drain_requeues_on_disconnect_witness:
  "queue 1 (snd (Drain 1 (\<lparr>lk_script = [Responds 200], lk_sent = []\<rparr>, demo_queue_db))) = [set_requeued demo_event2]"
proof -
  let ?lk = "\<lparr>lk_script = [Responds 200], lk_sent = []\<rparr>"
  obtain lk' d' where r: "Drain 1 (?lk, demo_queue_db) = (lk', d')" by fastforce
  show ?thesis
    using drain_requeues_on_disconnect [OF demo_queue_db_quiet demo_queue_db_wf, of 1 "[demo_event1]" demo_event2 "[]"
        "[200]" ?lk lk' d'] r
    by (simp add: demo_queue)
qed

theorem poison_event_dies_at_fifth_failure_witness:
  "queue 1 (fold (reconnect 1) [500, 502, 503, 500, 504] demo_queue_db) = [demo_event2]"
  using poison_event_dies_at_fifth_failure [OF demo_queue_db_quiet demo_queue_db_wf _ demo_head,
      of "[500, 502, 503, 500, 504]"]
  by (simp add: demo_event1_def stored_event_def)

theorem replaying_event_is_stranded_witness:
  "map ev_state (db_events (snd (Drain 1 (\<lparr>lk_script = [Responds 200], lk_sent = []\<rparr>, demo_lost_db))))
     = [EventReplaying, EventQueued]
   \<and> set_replaying demo_event1 \<in> set (db_events (snd (Drain 1 (\<lparr>lk_script = [Responds 200], lk_sent = []\<rparr>,
        snd (Drain 1 (\<lparr>lk_script = [Responds 200], lk_sent = []\<rparr>, demo_lost_db))))))"
proof
  let ?lk = "\<lparr>lk_script = [Responds 200], lk_sent = []\<rparr>"
  let ?d = "snd (Drain 1 (?lk, demo_lost_db))"
  have ev: "db_events ?d = [set_replaying demo_event1, demo_event2]"
    unfolding demo_lost_db_def demo_queue_db_def demo_db_eq demo_user_db_eq demo_event1_def demo_event2_def by code_simp
  then show "map ev_state (db_events ?d) = [EventReplaying, EventQueued]"
    by (simp add: set_replaying_def demo_event2_def stored_event_def)
  have "set_replaying demo_event1 \<in> set (db_events ?d)" by (simp add: ev)
  then show "set_replaying demo_event1 \<in> set (db_events (snd (Drain 1 (?lk, ?d))))"
    using replaying_event_is_stranded [of ?d "set_replaying demo_event1" "[(1, ?lk)]"] Drain_good [OF demo_lost_wf]
    by (simp add: set_replaying_def)
qed

end
