(* ===== verification/GoJson.thy ===== *)
theory GoJson
  imports GoHttp
begin

text \<open>
  The part of \<open>encoding/json\<close> the program uses: values as trees, \<open>Marshal\<close> and \<open>Encoder.Encode\<close> of
  such trees, \<open>Unmarshal\<close> and \<open>Decoder.Decode\<close> into trees, and the reading of a tree into the fields of a
  struct. A number is kept as its literal. The parser takes fuel (twice the length of the input is always enough)
  and refuses values nested deeper than ten thousand levels, as Go's does.
\<close>

datatype json =
    JNull
  | JBool bool
  | JNum bytes
  | JStr bytes
  | JArr "json list"
  | JObj "(bytes \<times> json) list"

section \<open>Writing\<close>

definition QUOTE :: char where "QUOTE = chr 34"
definition BSLASH :: char where "BSLASH = chr 92"

definition u_escape :: "nat \<Rightarrow> bytes" where
  "u_escape r = [BSLASH, CHR ''u'', hex_digit (r div 4096), hex_digit (r div 256 mod 16), hex_digit (r div 16 mod 16), hex_digit (r mod 16)]"

text \<open>One rune of a string, with HTML escaping on.\<close>

definition enc_ascii :: "char \<Rightarrow> bytes" where
  "enc_ascii c =
     (if c = QUOTE \<or> c = BSLASH then [BSLASH, c]
      else if byte c = (8::nat) then [BSLASH, CHR ''b'']
      else if byte c = (12::nat) then [BSLASH, CHR ''f'']
      else if byte c = (10::nat) then [BSLASH, CHR ''n'']
      else if byte c = (13::nat) then [BSLASH, CHR ''r'']
      else if byte c = (9::nat) then [BSLASH, CHR ''t'']
      else if byte c < (32::nat) \<or> c = CHR ''<'' \<or> c = CHR ''>'' \<or> c = CHR ''&'' then u_escape (byte c)
      else [c])"

definition enc_rune :: "rune \<times> bytes \<Rightarrow> bytes" where
  "enc_rune x =
     (case x of (r, bs) \<Rightarrow>
       if r < 128 then enc_ascii (hd bs)
       else if r = RuneError \<and> length bs = 1 then u_escape RuneError
       else if r = 8232 \<or> r = 8233 then u_escape r
       else bs)"

definition quote :: "bytes \<Rightarrow> bytes" where
  "quote s = QUOTE # concat (map enc_rune (utf8_chunks s)) @ [QUOTE]"

fun sep :: "bytes list \<Rightarrow> bytes" where
  "sep [] = []"
| "sep [x] = x"
| "sep (x # xs) = x @ CHR '','' # sep xs"

fun encode :: "json \<Rightarrow> bytes" where
  "encode JNull = ''null''"
| "encode (JBool b) = (if b then ''true'' else ''false'')"
| "encode (JNum s) = s"
| "encode (JStr s) = quote s"
| "encode (JArr xs) = CHR ''['' # sep (map encode xs) @ '']''"
| "encode (JObj kvs) = CHR ''{'' # sep (map (\<lambda>(k, v). quote k @ CHR '':'' # encode v) kvs) @ ''}''"

definition JInt :: "int \<Rightarrow> json" where "JInt i = JNum (Itoa i)"

text \<open>\<open>Encoder.Encode\<close> ends the value with a newline.\<close>

definition Encode :: "json \<Rightarrow> bytes" where "Encode v = encode v @ [chr 10]"

section \<open>Reading\<close>

definition is_ws :: "char \<Rightarrow> bool" where
  "is_ws c = (byte c = (32::nat) \<or> byte c = (9::nat) \<or> byte c = (10::nat) \<or> byte c = (13::nat))"

definition skip_ws :: "bytes \<Rightarrow> bytes" where "skip_ws s = dropWhile is_ws s"

definition hex_val :: "char \<Rightarrow> nat option" where
  "hex_val c =
     (let b = byte c in
      if 48 \<le> b \<and> b \<le> 57 then Some (b - 48)
      else if 97 \<le> b \<and> b \<le> 102 then Some (b - 87)
      else if 65 \<le> b \<and> b \<le> 70 then Some (b - 55)
      else None)"

definition hex4 :: "bytes \<Rightarrow> (nat \<times> bytes) option" where
  "hex4 s =
     (case s of
        a # b # c # d # t \<Rightarrow>
          (case (hex_val a, hex_val b, hex_val c, hex_val d) of
             (Some x, Some y, Some z, Some u) \<Rightarrow> Some (((x * 16 + y) * 16 + z) * 16 + u, t)
           | _ \<Rightarrow> None)
      | _ \<Rightarrow> None)"

text \<open>What follows \<open>\u\<close>: surrogate pairs are joined, a lone surrogate becomes the replacement rune.\<close>

definition unescape_u :: "bytes \<Rightarrow> (rune \<times> bytes) option" where
  "unescape_u s =
     (case hex4 s of
        None \<Rightarrow> None
      | Some (r, t) \<Rightarrow>
          if 55296 \<le> r \<and> r < 57344 then
            (case t of
               b # c # t' \<Rightarrow>
                 if b = BSLASH \<and> c = CHR ''u'' then
                   (case hex4 t' of
                      Some (r2, t2) \<Rightarrow>
                        if r < 56320 \<and> 56320 \<le> r2 \<and> r2 < 57344 then
                          Some ((r - 55296) * 1024 + (r2 - 56320) + 65536, t2)
                        else Some (RuneError, t)
                    | None \<Rightarrow> Some (RuneError, t))
                 else Some (RuneError, t)
             | _ \<Rightarrow> Some (RuneError, t))
          else Some (r, t))"

definition simple_escape :: "char \<Rightarrow> char option" where
  "simple_escape c =
     (if c = QUOTE \<or> c = BSLASH \<or> c = CHR ''/'' then Some c
      else if c = CHR ''b'' then Some (chr 8) else if c = CHR ''f'' then Some (chr 12)
      else if c = CHR ''n'' then Some (chr 10) else if c = CHR ''r'' then Some (chr 13)
      else if c = CHR ''t'' then Some (chr 9) else None)"

definition cons_to :: "'a list \<Rightarrow> ('a list \<times> 'b) option \<Rightarrow> ('a list \<times> 'b) option" where
  "cons_to x r = (case r of None \<Rightarrow> None | Some (xs, t) \<Rightarrow> Some (x @ xs, t))"

lemma hex4_shorter: "hex4 s = Some (r, t) \<Longrightarrow> length t < length s"
  by (auto simp: hex4_def split: list.splits option.splits)

lemma unescape_u_shorter: "unescape_u s = Some (r, t) \<Longrightarrow> length t < length s"
  by (auto simp: unescape_u_def dest!: hex4_shorter split: option.splits list.splits if_splits)

text \<open>The rest of a string literal after its opening quote: its value and what follows it.\<close>

function parse_str :: "bytes \<Rightarrow> (bytes \<times> bytes) option" where
  "parse_str [] = None"
| "parse_str (c # s) =
     (if c = QUOTE then Some ([], s)
      else if c = BSLASH then
        (case s of
           [] \<Rightarrow> None
         | e # t \<Rightarrow>
             if e = CHR ''u'' then
               (case unescape_u t of None \<Rightarrow> None | Some (r, t') \<Rightarrow> cons_to (encode_rune r) (parse_str t'))
             else (case simple_escape e of None \<Rightarrow> None | Some x \<Rightarrow> cons_to [x] (parse_str t)))
      else if byte c < (32::nat) then None
      else if byte c < (128::nat) then cons_to [c] (parse_str s)
      else cons_to (encode_rune (fst (decode_rune (c # s)))) (parse_str (drop (snd (decode_rune (c # s)) - 1) s)))"
  by pat_completeness auto
termination
  by (relation "measure length") (auto dest: unescape_u_shorter)

declare parse_str.simps [simp del]

text \<open>A number literal, as the grammar has it.\<close>

definition span_digits :: "bytes \<Rightarrow> bytes \<times> bytes" where
  "span_digits s = (takeWhile is_digit s, dropWhile is_digit s)"

definition scan_int :: "bytes \<Rightarrow> (bytes \<times> bytes) option" where
  "scan_int s =
     (case s of
        [] \<Rightarrow> None
      | c # t \<Rightarrow> if c = CHR ''0'' then Some ([c], t) else if is_digit c then Some (span_digits s) else None)"

definition scan_frac :: "bytes \<Rightarrow> (bytes \<times> bytes) option" where
  "scan_frac s =
     (case s of
        c # t \<Rightarrow> if c = CHR ''.'' then
            (let (ds, u) = span_digits t in if ds = [] then None else Some (c # ds, u))
          else Some ([], s)
      | [] \<Rightarrow> Some ([], s))"

definition scan_exp :: "bytes \<Rightarrow> (bytes \<times> bytes) option" where
  "scan_exp s =
     (case s of
        c # t \<Rightarrow> if c = CHR ''e'' \<or> c = CHR ''E'' then
            (let (sg, t1) = (case t of x # t' \<Rightarrow> if x = CHR ''+'' \<or> x = CHR ''-'' then ([x], t') else ([], t) | [] \<Rightarrow> ([], t));
                 (ds, u) = span_digits t1 in
             if ds = [] then None else Some (c # sg @ ds, u))
          else Some ([], s)
      | [] \<Rightarrow> Some ([], s))"

definition scan_number :: "bytes \<Rightarrow> (bytes \<times> bytes) option" where
  "scan_number s =
     (let (sg, s1) = (case s of c # t \<Rightarrow> if c = CHR ''-'' then ([c], t) else ([], s) | [] \<Rightarrow> ([], s)) in
      case scan_int s1 of None \<Rightarrow> None | Some (i, s2) \<Rightarrow>
      (case scan_frac s2 of None \<Rightarrow> None | Some (f, s3) \<Rightarrow>
      (case scan_exp s3 of None \<Rightarrow> None | Some (e, s4) \<Rightarrow> Some (sg @ i @ f @ e, s4))))"

definition scan_word :: "bytes \<Rightarrow> json \<Rightarrow> bytes \<Rightarrow> (json \<times> bytes) option" where
  "scan_word w v s = (if HasPrefix s w then Some (v, drop (length w) s) else None)"

definition max_depth :: nat where "max_depth = 10000"

fun parse_value :: "nat \<Rightarrow> nat \<Rightarrow> bytes \<Rightarrow> (json \<times> bytes) option"
  and parse_items :: "nat \<Rightarrow> nat \<Rightarrow> bytes \<Rightarrow> (json list \<times> bytes) option"
  and parse_members :: "nat \<Rightarrow> nat \<Rightarrow> bytes \<Rightarrow> ((bytes \<times> json) list \<times> bytes) option" where
  "parse_value 0 depth s = None"
| "parse_value (Suc n) depth s =
     (case skip_ws s of
        [] \<Rightarrow> None
      | c # t \<Rightarrow>
          if c = QUOTE then (case parse_str t of None \<Rightarrow> None | Some (x, u) \<Rightarrow> Some (JStr x, u))
          else if c = CHR ''['' then
            (if max_depth \<le> depth then None
             else case skip_ws t of
               [] \<Rightarrow> None
             | d # u \<Rightarrow> if d = CHR '']'' then Some (JArr [], u)
                 else (case parse_items n (Suc depth) (d # u) of None \<Rightarrow> None | Some (xs, v) \<Rightarrow> Some (JArr xs, v)))
          else if c = CHR ''{'' then
            (if max_depth \<le> depth then None
             else case skip_ws t of
               [] \<Rightarrow> None
             | d # u \<Rightarrow> if d = CHR ''}'' then Some (JObj [], u)
                 else (case parse_members n (Suc depth) (d # u) of None \<Rightarrow> None | Some (xs, v) \<Rightarrow> Some (JObj xs, v)))
          else if c = CHR ''n'' then scan_word ''null'' JNull (c # t)
          else if c = CHR ''t'' then scan_word ''true'' (JBool True) (c # t)
          else if c = CHR ''f'' then scan_word ''false'' (JBool False) (c # t)
          else (case scan_number (c # t) of None \<Rightarrow> None | Some (x, u) \<Rightarrow> Some (JNum x, u)))"
| "parse_items 0 depth s = None"
| "parse_items (Suc n) depth s =
     (case parse_value n depth s of
        None \<Rightarrow> None
      | Some (v, t) \<Rightarrow>
          (case skip_ws t of
             [] \<Rightarrow> None
           | c # u \<Rightarrow>
               if c = CHR '','' then cons_to [v] (parse_items n depth u)
               else if c = CHR '']'' then Some ([v], u) else None))"
| "parse_members 0 depth s = None"
| "parse_members (Suc n) depth s =
     (case skip_ws s of
        [] \<Rightarrow> None
      | q # t \<Rightarrow>
          if q \<noteq> QUOTE then None
          else (case parse_str t of
             None \<Rightarrow> None
           | Some (k, t1) \<Rightarrow>
               (case skip_ws t1 of
                  [] \<Rightarrow> None
                | c # t2 \<Rightarrow>
                    if c \<noteq> CHR '':'' then None
                    else (case parse_value n depth t2 of
                       None \<Rightarrow> None
                     | Some (v, t3) \<Rightarrow>
                         (case skip_ws t3 of
                            [] \<Rightarrow> None
                          | e # u \<Rightarrow>
                              if e = CHR '','' then cons_to [(k, v)] (parse_members n depth u)
                              else if e = CHR ''}'' then Some ([(k, v)], u) else None)))))"

text \<open>
  \<open>Unmarshal\<close> reads the whole input. \<open>Decoder.Decode\<close> reads the first value of a stream; an array or object is
  complete at its last bracket, any other value only when the stream goes on or ends without an error.
\<close>

definition Unmarshal :: "bytes \<Rightarrow> json option" where
  "Unmarshal s =
     (case parse_value (2 * length s) 0 s of
        Some (v, t) \<Rightarrow> if skip_ws t = [] then Some v else None
      | None \<Rightarrow> None)"

definition Decode :: "body \<Rightarrow> json option" where
  "Decode b =
     (case parse_value (2 * length (body_data b)) 0 (body_data b) of
        None \<Rightarrow> None
      | Some (v, t) \<Rightarrow>
          (case v of JArr _ \<Rightarrow> Some v | JObj _ \<Rightarrow> Some v | _ \<Rightarrow> if t = [] \<and> body_err b then None else Some v))"

section \<open>The fuel is enough\<close>

lemma skip_ws_shorter: "length (skip_ws s) \<le> length s"
  by (simp add: skip_ws_def length_dropWhile_le)

lemma skip_ws_Cons: "skip_ws s = c # t \<Longrightarrow> length t < length s"
  using skip_ws_shorter [of s] by simp

lemma parse_str_shorter: "parse_str s = Some (x, t) \<Longrightarrow> length t < length s"
proof (induction s arbitrary: x t rule: parse_str.induct)
  case 1
  then show ?case by (simp add: parse_str.simps)
next
  case (2 c s)
  show ?case
  proof (cases "c = QUOTE \<or> byte c < (32::nat) \<and> c \<noteq> BSLASH")
    case True
    then show ?thesis using "2.prems" by (auto simp: parse_str.simps split: if_splits)
  next
    case ordinary: False
    show ?thesis
    proof (cases "c = BSLASH")
      case True
      then show ?thesis
        using "2.prems" ordinary "2.IH"(1,2)
        by (fastforce simp: parse_str.simps(2) cons_to_def dest: unescape_u_shorter split: list.splits if_splits option.splits)
    next
      case False
      then show ?thesis
        using "2.prems" ordinary "2.IH"(3,4)
        by (fastforce simp: parse_str.simps(2) cons_to_def split: if_splits option.splits)
    qed
  qed
qed

lemma span_digits_shorter: "span_digits s = (a, t) \<Longrightarrow> length t \<le> length s"
  by (auto simp: span_digits_def length_dropWhile_le)

lemma scan_int_shorter: "scan_int s = Some (a, t) \<Longrightarrow> length t < length s"
  by (auto simp: scan_int_def span_digits_def length_dropWhile_le less_Suc_eq_le split: list.splits if_splits)

lemma scan_frac_shorter: "scan_frac s = Some (a, t) \<Longrightarrow> length t \<le> length s"
  by (auto simp: scan_frac_def Let_def dest!: span_digits_shorter split: list.splits if_splits prod.splits)

lemma scan_exp_shorter: "scan_exp s = Some (a, t) \<Longrightarrow> length t \<le> length s"
  by (auto simp: scan_exp_def Let_def dest!: span_digits_shorter split: list.splits if_splits prod.splits)

lemma scan_number_shorter: "scan_number s = Some (a, t) \<Longrightarrow> length t < length s"
  unfolding scan_number_def Let_def
  by (fastforce dest: scan_int_shorter scan_frac_shorter scan_exp_shorter split: list.splits if_splits option.splits prod.splits)

lemma scan_word_shorter: "scan_word w v s = Some (x, t) \<Longrightarrow> w \<noteq> [] \<Longrightarrow> length t < length s"
  by (cases s) (auto simp: scan_word_def HasPrefix_def split: if_splits)

text \<open>
  A value that some fuel can parse takes up input, and every fuel of twice the length of what it takes up parses it
  to the same result.
\<close>

definition settled :: "(nat \<Rightarrow> ('a \<times> bytes) option) \<Rightarrow> bytes \<Rightarrow> 'a \<times> bytes \<Rightarrow> bool" where
  "settled f s r = (length (snd r) < length s \<and> (\<forall>m. 2 * length s \<le> m + 2 * length (snd r) \<longrightarrow> f m = Some r))"

lemma settledI:
  assumes "length t < length s" and "\<And>m. 2 * length s \<le> Suc m + 2 * length t \<Longrightarrow> f (Suc m) = Some (v, t)"
  shows "settled f s (v, t)"
  unfolding settled_def
proof (intro conjI allI impI)
  fix m assume m: "2 * length s \<le> m + 2 * length (snd (v, t))"
  then obtain m' where "m = Suc m'" using assms(1) by (cases m) auto
  then show "f m = Some (v, t)" using assms(2) [of m'] m by simp
qed (use assms(1) in simp)

lemma settledD:
  assumes "settled f s (v, t)"
  shows "length t < length s" and "2 * length s \<le> m + 2 * length t \<Longrightarrow> f m = Some (v, t)"
  using assms by (auto simp: settled_def)

text \<open>What follows a settled parse: an array or an object around it, one more item or member before it.\<close>

lemma bracket_heads: "CHR ''['' \<noteq> QUOTE" "CHR ''{'' \<noteq> QUOTE"
  by code_simp+

lemma settled_array:
  assumes "settled (\<lambda>m. parse_items m (Suc depth) (d # u)) (d # u) (xs, v)"
    and "skip_ws s = CHR ''['' # t" and "skip_ws t = d # u" and "\<not> max_depth \<le> depth" and "d \<noteq> CHR '']''"
  shows "settled (\<lambda>m. parse_value m depth s) s (JArr xs, v)"
proof (rule settledI)
  note l = skip_ws_Cons [OF assms(2)] skip_ws_Cons [OF assms(3)] skip_ws_shorter [of t]
  show "length v < length s" using settledD(1) [OF assms(1)] l assms(3) by simp
  fix m assume "2 * length s \<le> Suc m + 2 * length v"
  then have "parse_items m (Suc depth) (d # u) = Some (xs, v)" using settledD(2) [OF assms(1), of m] l assms(3) by simp
  then show "parse_value (Suc m) depth s = Some (JArr xs, v)" using assms(2-5) bracket_heads by simp
qed

lemma settled_object:
  assumes "settled (\<lambda>m. parse_members m (Suc depth) (d # u)) (d # u) (xs, v)"
    and "skip_ws s = CHR ''{'' # t" and "skip_ws t = d # u" and "\<not> max_depth \<le> depth" and "d \<noteq> CHR ''}''"
  shows "settled (\<lambda>m. parse_value m depth s) s (JObj xs, v)"
proof (rule settledI)
  note l = skip_ws_Cons [OF assms(2)] skip_ws_Cons [OF assms(3)] skip_ws_shorter [of t]
  show "length v < length s" using settledD(1) [OF assms(1)] l assms(3) by simp
  fix m assume "2 * length s \<le> Suc m + 2 * length v"
  then have "parse_members m (Suc depth) (d # u) = Some (xs, v)" using settledD(2) [OF assms(1), of m] l assms(3) by simp
  then show "parse_value (Suc m) depth s = Some (JObj xs, v)" using assms(2-5) bracket_heads by simp
qed

lemma settled_more:
  assumes "settled f s (v, t)" and "settled g u (vs, w)" and "length u < length t"
    and "\<And>m. f m = Some (v, t) \<Longrightarrow> g m = Some (vs, w) \<Longrightarrow> h (Suc m) = Some (x, w)" and "length s \<le> length s0"
  shows "settled h s0 (x, w)"
proof (rule settledI)
  show "length w < length s0" using settledD(1) [OF assms(1)] settledD(1) [OF assms(2)] assms(3,5) by simp
  fix m assume "2 * length s0 \<le> Suc m + 2 * length w"
  then have "f m = Some (v, t)" "g m = Some (vs, w)"
    using settledD(1) [OF assms(1)] settledD(1) [OF assms(2)] assms(3,5)
    by (auto intro!: settledD(2) [OF assms(1)] settledD(2) [OF assms(2)])
  then show "h (Suc m) = Some (x, w)" by (rule assms(4))
qed

lemma settled_last:
  assumes "settled f s (v, t)" and "length u < length t" and "\<And>m. f m = Some (v, t) \<Longrightarrow> h (Suc m) = Some (x, u)"
    and "length s \<le> length s0"
  shows "settled h s0 (x, u)"
proof (rule settledI)
  show "length u < length s0" using settledD(1) [OF assms(1)] assms(2,4) by simp
  fix m assume "2 * length s0 \<le> Suc m + 2 * length u"
  then have "f m = Some (v, t)" using assms(2,4) by (intro settledD(2) [OF assms(1)]) simp
  then show "h (Suc m) = Some (x, u)" by (rule assms(3))
qed

lemma parse_settled:
  "parse_value n depth s = Some r \<Longrightarrow> settled (\<lambda>m. parse_value m depth s) s r"
  "parse_items n depth s = Some ri \<Longrightarrow> settled (\<lambda>m. parse_items m depth s) s ri"
  "parse_members n depth s = Some rm \<Longrightarrow> settled (\<lambda>m. parse_members m depth s) s rm"
proof (induction n depth s and n depth s and n depth s arbitrary: r and ri and rm
    rule: parse_value_parse_items_parse_members.induct)
  case (2 n depth s)
  obtain c t where ct: "skip_ws s = c # t" using "2.prems" by (cases "skip_ws s") auto
  note l = skip_ws_Cons [OF ct]
  consider (str) "c = QUOTE" | (arr) "c \<noteq> QUOTE" "c = CHR ''[''" | (obj) "c \<noteq> QUOTE" "c = CHR ''{''"
    | (flat) "c \<noteq> QUOTE" "c \<noteq> CHR ''[''" "c \<noteq> CHR ''{''" by blast
  then show ?case
  proof cases
    case str
    then show ?thesis using "2.prems" ct l
      by (cases r) (auto intro!: settledI dest: parse_str_shorter split: option.splits)
  next
    case arr
    then obtain d u where du: "skip_ws t = d # u" and dep: "\<not> max_depth \<le> depth"
      using "2.prems" ct by (cases "skip_ws t") (auto simp: QUOTE_def split: if_splits)
    show ?thesis
    proof (cases "d = CHR '']''")
      case True
      then show ?thesis using "2.prems" arr ct du dep l skip_ws_Cons [OF du] by (cases r) (auto intro!: settledI)
    next
      case False
      then obtain xs v where i: "parse_items n (Suc depth) (d # u) = Some (xs, v)" and r: "r = (JArr xs, v)"
        using "2.prems" arr ct du dep by (auto split: option.splits)
      show ?thesis unfolding r
        by (rule settled_array [OF "2.IH"(1) [OF ct arr(1) arr(2) dep du False i] ct [unfolded arr(2)] du dep False])
    qed
  next
    case obj
    then obtain d u where du: "skip_ws t = d # u" and dep: "\<not> max_depth \<le> depth"
      using "2.prems" ct by (cases "skip_ws t") (auto simp: QUOTE_def split: if_splits)
    show ?thesis
    proof (cases "d = CHR ''}''")
      case True
      then show ?thesis using "2.prems" obj ct du dep l skip_ws_Cons [OF du] by (cases r) (auto intro!: settledI)
    next
      case False
      then obtain xs v where i: "parse_members n (Suc depth) (d # u) = Some (xs, v)" and r: "r = (JObj xs, v)"
        using "2.prems" obj ct du dep by (auto split: option.splits)
      have na: "c \<noteq> CHR ''[''" using obj by simp
      show ?thesis unfolding r
        by (rule settled_object [OF "2.IH"(2) [OF ct obj(1) na obj(2) dep du False i] ct [unfolded obj(2)] du dep False])
    qed
  next
    case flat
    have e: "parse_value (Suc m) depth s = parse_value (Suc n) depth s" for m using flat ct by simp
    have "length (snd r) < length (c # t)"
      using "2.prems" flat ct by (cases r) (auto dest: scan_word_shorter scan_number_shorter split: if_splits option.splits)
    then have "length (snd r) < length s" using l by simp
    then show ?thesis using "2.prems" e by (cases r) (auto intro!: settledI)
  qed
next
  case (4 n depth s)
  obtain v t c u where v: "parse_value n depth s = Some (v, t)" and cu: "skip_ws t = c # u"
    using "4.prems" by (auto split: option.splits list.splits)
  show ?case
  proof (cases "c = CHR '',''")
    case True
    then obtain vs w where i: "parse_items n depth u = Some (vs, w)" and r: "ri = (v # vs, w)"
      using "4.prems" v cu by (auto simp: cons_to_def split: option.splits)
    show ?thesis unfolding r
      by (rule settled_more [OF "4.IH"(1) [OF v] "4.IH"(2) [OF v refl cu True i] skip_ws_Cons [OF cu]])
        (use cu True in \<open>simp_all add: cons_to_def\<close>)
  next
    case False
    then have r: "c = CHR '']''" "ri = ([v], u)" using "4.prems" v cu by (auto split: if_splits)
    show ?thesis unfolding r(2)
      by (rule settled_last [OF "4.IH"(1) [OF v] skip_ws_Cons [OF cu]]) (use cu r(1) in simp_all)
  qed
next
  case (6 n depth s)
  obtain t where q: "skip_ws s = QUOTE # t" using "6.prems" by (auto split: list.splits if_splits)
  obtain k t1 where k: "parse_str t = Some (k, t1)" using "6.prems" q by (auto split: option.splits)
  obtain t2 where c: "skip_ws t1 = CHR '':'' # t2" using "6.prems" q k by (auto split: list.splits if_splits)
  obtain v t3 e u where v: "parse_value n depth t2 = Some (v, t3)" and eu: "skip_ws t3 = e # u"
    using "6.prems" q k c by (auto split: option.splits list.splits)
  have qq: "\<not> QUOTE \<noteq> QUOTE" and cc: "\<not> CHR '':'' \<noteq> CHR '':''" by simp_all
  note IH = "6.IH"(1) [OF q qq k refl c cc v]
  have l: "length t2 \<le> length s" using skip_ws_Cons [OF q] parse_str_shorter [OF k] skip_ws_Cons [OF c] by simp
  show ?case
  proof (cases "e = CHR '',''")
    case True
    then obtain vs w where i: "parse_members n depth u = Some (vs, w)" and r: "rm = ((k, v) # vs, w)"
      using "6.prems" q k c v eu by (auto simp: cons_to_def split: option.splits)
    show ?thesis unfolding r
      by (rule settled_more [OF IH "6.IH"(2) [OF q qq k refl c cc v refl eu True i] skip_ws_Cons [OF eu] _ l])
        (use q k c eu True in \<open>simp add: cons_to_def\<close>)
  next
    case False
    then have r: "e = CHR ''}''" "rm = ([(k, v)], u)" using "6.prems" q k c v eu by (auto split: if_splits)
    show ?thesis unfolding r(2)
      by (rule settled_last [OF IH skip_ws_Cons [OF eu] _ l]) (use q k c eu r(1) in simp)
  qed
qed simp_all

lemma parse_fuel:
  assumes "parse_value n depth s = Some (v, t)"
  shows "parse_value (2 * length s) depth s = Some (v, t)"
  using settledD(2) [OF parse_settled(1) [OF assms], of "2 * length s"] by simp

end
