(* ===== verification/GoJsonRound.thy ===== *)
theory GoJsonRound
  imports GoJson
begin

text \<open>
  JSON survives the round trip: a value with valid strings and integer numbers that is written by
  \<open>encode\<close> is read back as the same value by \<open>Unmarshal\<close> and \<open>Decode\<close>.
\<close>

section \<open>What is written can be read back\<close>

lemma decode_nats_cong:
  assumes "decode_nats b0 b1 b2 b3 = (r, n)" and "2 \<le> n" and "3 \<le> n \<Longrightarrow> c2 = b2" and "4 \<le> n \<Longrightarrow> c3 = b3"
  shows "decode_nats b0 b1 c2 c3 = (r, n)"
  using assms by (auto simp: decode_nats_def split: if_splits)

lemma div_mod_rune: "y < 64 \<Longrightarrow> (x * 64 + y) div 64 = x \<and> (x * 64 + y) mod 64 = (y :: nat)"
  by simp

lemma encode_decode_nats:
  assumes "decode_nats b0 b1 b2 b3 = (r, n)" and "2 \<le> n"
  shows "encode_rune r = take n [chr b0, chr b1, chr b2, chr b3]"
proof -
  have two: ?thesis if b: "194 \<le> b0" "b0 \<le> 223" "is_cont b1" and r: "r = (b0 - 192) * 64 + (b1 - 128)" "n = 2"
  proof -
    obtain x y where x: "b0 = 192 + x" "2 \<le> x" "x < 32" and y: "b1 = 128 + y" "y < 64"
      using b by (auto simp: is_cont_def nat_le_iff_add intro!: that [of "b0 - 192" "b1 - 128"])
    then show ?thesis using r by (auto simp: encode_rune_def Let_def numeral_2_eq_2)
  qed
  have three: ?thesis if b: "224 \<le> b0" "b0 \<le> 239" "(if b0 = 224 then 160 else 128) \<le> b1"
      "b1 \<le> (if b0 = 237 then 159 else 191)" "is_cont b2"
      and r: "r = (b0 - 224) * 4096 + (b1 - 128) * 64 + (b2 - 128)" "n = 3"
  proof -
    obtain x y z where x: "b0 = 224 + x" "x < 16" and y: "b1 = 128 + y" "y < 64" "x = 0 \<Longrightarrow> 32 \<le> y" "x = 13 \<Longrightarrow> y < 32"
      and z: "b2 = 128 + z" "z < 64"
      using b by (auto simp: is_cont_def intro!: that [of "b0 - 224" "b1 - 128" "b2 - 128"] split: if_splits)
    have e: "r = (x * 64 + y) * 64 + z" using r x y z by simp
    have s: "\<not> (55296 \<le> r \<and> r \<le> 57343) \<and> \<not> 1114111 < r \<and> \<not> r < 2048 \<and> r < 65536"
    proof (cases "x = 0 \<or> x = 13")
      case True
      then show ?thesis using x y z by (auto simp: e)
    next
      case False
      then consider "1 \<le> x" "x \<le> 12" | "14 \<le> x" using x by linarith
      then show ?thesis using x y z by cases (auto simp: e)
    qed
    have d: "r div 64 = x * 64 + y" "r mod 64 = z" using div_mod_rune [OF z(2), of "x * 64 + y"] by (simp_all only: e)
    have "r div 4096 = r div 64 div 64" by (simp flip: div_mult2_eq)
    then have d': "r div 4096 = x" using d(1) div_mod_rune [OF y(2), of x] by simp
    show ?thesis using d d' s r(2) x y z by (auto simp: encode_rune_def Let_def numeral_3_eq_3)
  qed
  have four: ?thesis if b: "240 \<le> b0" "b0 \<le> 244" "(if b0 = 240 then 144 else 128) \<le> b1"
      "b1 \<le> (if b0 = 244 then 143 else 191)" "is_cont b2" "is_cont b3"
      and r: "r = (b0 - 240) * 262144 + (b1 - 128) * 4096 + (b2 - 128) * 64 + (b3 - 128)" "n = 4"
  proof -
    obtain x y z u where x: "b0 = 240 + x" "x \<le> 4" and y: "b1 = 128 + y" "y < 64" "x = 0 \<Longrightarrow> 16 \<le> y" "x = 4 \<Longrightarrow> y < 16"
      and z: "b2 = 128 + z" "z < 64" and u: "b3 = 128 + u" "u < 64"
      using b by (auto simp: is_cont_def intro!: that [of "b0 - 240" "b1 - 128" "b2 - 128" "b3 - 128"] split: if_splits)
    have e: "r = ((x * 64 + y) * 64 + z) * 64 + u" using r x y z u by simp
    have s: "\<not> (55296 \<le> r \<and> r \<le> 57343) \<and> \<not> 1114111 < r \<and> \<not> r < 65536"
    proof (cases "x = 0 \<or> x = 4")
      case True
      then show ?thesis using x y z u by (auto simp: e)
    next
      case False
      then show ?thesis using x y z u by (auto simp: e)
    qed
    have d: "r div 64 = (x * 64 + y) * 64 + z" "r mod 64 = u"
      using div_mod_rune [OF u(2), of "(x * 64 + y) * 64 + z"] by (simp_all only: e)
    have "r div 4096 = r div 64 div 64" "r div 262144 = r div 64 div 64 div 64" by (simp_all flip: div_mult2_eq)
    then have d': "r div 4096 = x * 64 + y" "r div 262144 = x"
      using d(1) div_mod_rune [OF z(2), of "x * 64 + y"] div_mod_rune [OF y(2), of x] by simp_all
    show ?thesis using d d' s r(2) x y z u div_mod_rune [OF z(2), of "x * 64 + y"] div_mod_rune [OF y(2), of x]
      by (auto simp: encode_rune_def Let_def)
  qed
  show ?thesis using assms two three four by (auto simp: decode_nats_def split: if_splits)
qed

text \<open>A rune of several bytes at the front of a string, taken out of it.\<close>

lemma decode_rune_take:
  assumes "decode_rune s = (r, n)" and "2 \<le> n"
  shows "encode_rune r = take n s" and "decode_rune (take n s @ t) = (r, n)" and "n \<le> length s" and "128 \<le> byte (hd s)"
proof -
  have ne: "s \<noteq> []" using assms by (auto simp: decode_rune_def)
  have len: "n \<le> length s" using decode_rune_width [OF ne] assms(1) by simp
  have d: "decode_nats (byte_at s 0) (byte_at s 1) (byte_at s 2) (byte_at s 3) = (r, n)"
    using assms(1) ne by (simp add: decode_rune_def)
  have n4: "n \<in> {1, 2, 3, 4}" using decode_nats_width [of "byte_at s 0" "byte_at s 1" "byte_at s 2" "byte_at s 3"] d by simp
  have at: "byte_at (take n s @ t) i = byte_at s i" if "i < n" for i using that len by (simp add: byte_at_def nth_append)
  have "decode_nats (byte_at s 0) (byte_at s 1) (byte_at (take n s @ t) 2) (byte_at (take n s @ t) 3) = (r, n)"
    using decode_nats_cong [OF d assms(2)] at by simp
  then show "decode_rune (take n s @ t) = (r, n)" using ne assms(2) at by (simp add: decode_rune_def)
  have c: "chr (byte_at s i) = s ! i" if "i < n" for i using that len by (simp add: byte_at_def)
  have "take n [chr (byte_at s 0), chr (byte_at s 1), chr (byte_at s 2), chr (byte_at s 3)] = take n s"
  proof (rule nth_equalityI)
    show "length (take n [chr (byte_at s 0), chr (byte_at s 1), chr (byte_at s 2), chr (byte_at s 3)]) = length (take n s)"
      using len n4 by auto
    fix i assume "i < length (take n [chr (byte_at s 0), chr (byte_at s 1), chr (byte_at s 2), chr (byte_at s 3)])"
    then have i: "i < n" "i < 4" by auto
    then consider "i = 0" | "i = 1" | "i = 2" | "i = 3" by linarith
    then show "take n [chr (byte_at s 0), chr (byte_at s 1), chr (byte_at s 2), chr (byte_at s 3)] ! i = take n s ! i"
      using i by cases (simp_all add: c [simplified] numeral_2_eq_2 numeral_3_eq_3)
  qed
  then show "encode_rune r = take n s" using encode_decode_nats [OF d assms(2)] by simp
  show "n \<le> length s" by (rule len)
  show "128 \<le> byte (hd s)" using d assms(2) ne by (auto simp: decode_nats_def byte_at_def hd_conv_nth split: if_splits)
qed

lemma hex_val_digit: "n < 16 \<Longrightarrow> hex_val (hex_digit n) = Some n"
  by (auto simp: hex_val_def hex_digit_def Let_def)

lemma hex4_escape: "r < 65536 \<Longrightarrow> hex4 (hex_digit (r div 4096) # hex_digit (r div 256 mod 16) # hex_digit (r div 16 mod 16)
    # hex_digit (r mod 16) # rest) = Some (r, rest)"
proof -
  assume r: "r < 65536"
  have d: "r div 4096 = r div 16 div 16 div 16" "r div 256 = r div 16 div 16" by (simp_all flip: div_mult2_eq)
  have "r div 4096 < 16" using r by (simp add: div_less_iff_less_mult)
  moreover have "(((r div 4096 * 16 + r div 256 mod 16) * 16 + r div 16 mod 16) * 16) + r mod 16 = r"
    unfolding d by (simp only: div_mult_mod_eq)
  ultimately show ?thesis by (simp add: hex4_def hex_val_digit)
qed

lemma parse_u_escape:
  assumes "r < 65536" and "\<not> (55296 \<le> r \<and> r < 57344)"
  shows "parse_str (u_escape r @ rest) = cons_to (encode_rune r) (parse_str rest)"
proof -
  have "BSLASH \<noteq> QUOTE" by (simp add: BSLASH_def QUOTE_def)
  then show ?thesis using assms
    by (auto simp: u_escape_def parse_str.simps(2) unescape_u_def hex4_escape)
qed

lemma encode_rune_ascii: "byte c < (128::nat) \<Longrightarrow> encode_rune (byte c) = [c]"
  by (simp add: encode_rune_def Let_def)

lemma simple_escapes: "simple_escape (CHR ''b'') = Some (chr 8)" "simple_escape (CHR ''f'') = Some (chr 12)"
  "simple_escape (CHR ''n'') = Some (chr 10)" "simple_escape (CHR ''r'') = Some (chr 13)"
  "simple_escape (CHR ''t'') = Some (chr 9)"
  by code_simp+

lemma parse_enc_ascii:
  assumes "byte c < (128::nat)"
  shows "parse_str (enc_ascii c @ rest) = cons_to [c] (parse_str rest)"
proof -
  have bq: "BSLASH \<noteq> QUOTE" and bu: "BSLASH \<noteq> CHR ''u''" and qu: "QUOTE \<noteq> CHR ''u''"
    by code_simp+
  have e: "parse_str (BSLASH # e # rest) = cons_to [x] (parse_str rest)"
    if "simple_escape e = Some x" "e \<noteq> CHR ''u''" for e x
    using that bq by (simp add: parse_str.simps(2))
  have k: "c = chr k" if "byte c = k" for k :: nat using that char_of_char [of c] by metis
  have u: "parse_str (u_escape (byte c) @ rest) = cons_to [c] (parse_str rest)"
    using parse_u_escape [of "byte c" rest] assms encode_rune_ascii [OF assms] by simp
  consider (esc) "c = QUOTE \<or> c = BSLASH" | (b) "byte c = (8::nat)" | (f) "byte c = (12::nat)" | (n) "byte c = (10::nat)"
    | (r) "byte c = (13::nat)" | (t) "byte c = (9::nat)"
    | (other) "c \<noteq> QUOTE" "c \<noteq> BSLASH" "byte c \<noteq> (8::nat)" "byte c \<noteq> (12::nat)" "byte c \<noteq> (10::nat)" "byte c \<noteq> (13::nat)"
        "byte c \<noteq> (9::nat)" by blast
  then show ?thesis
  proof cases
    case esc
    then show ?thesis using e [of c c] bu qu by (auto simp: enc_ascii_def simple_escape_def)
  next
    case b
    show ?thesis using e [OF simple_escapes(1)] unfolding k [OF b]
      by (simp add: enc_ascii_def QUOTE_def BSLASH_def)
  next
    case f
    show ?thesis using e [OF simple_escapes(2)] unfolding k [OF f]
      by (simp add: enc_ascii_def QUOTE_def BSLASH_def)
  next
    case n
    show ?thesis using e [OF simple_escapes(3)] unfolding k [OF n]
      by (simp add: enc_ascii_def QUOTE_def BSLASH_def)
  next
    case r
    show ?thesis using e [OF simple_escapes(4)] unfolding k [OF r]
      by (simp add: enc_ascii_def QUOTE_def BSLASH_def)
  next
    case t
    show ?thesis using e [OF simple_escapes(5)] unfolding k [OF t]
      by (simp add: enc_ascii_def QUOTE_def BSLASH_def)
  next
    case other
    then show ?thesis using u assms by (simp add: enc_ascii_def parse_str.simps(2))
  qed
qed

lemma parse_enc_rune:
  assumes "s \<noteq> []" and "decode_rune s = (r, n)"
  shows "parse_str (enc_rune (r, take n s) @ rest)
    = cons_to (if r = RuneError \<and> length (take n s) = 1 then encode_rune RuneError else take n s) (parse_str rest)"
proof -
  obtain c cs where s: "s = c # cs" using assms(1) by (cases s) auto
  show ?thesis
  proof (cases "r < 128")
    case True
    then have c: "byte c < (128::nat)" using decode_rune_ascii_iff [of c cs] assms(2) s by simp
    then have "n = 1" using decode_rune_ascii [of c cs] assms(2) s by simp
    then show ?thesis using True c parse_enc_ascii [OF c] s by (auto simp: enc_rune_def RuneError_def)
  next
    case r: False
    show ?thesis
    proof (cases "2 \<le> n")
      case True
      note t = decode_rune_take [OF assms(2) True]
      have len: "length (take n s) = n" using t(3) by simp
      show ?thesis
      proof (cases "r = 8232 \<or> r = 8233")
        case u: True
        then have "enc_rune (r, take n s) = u_escape r" "r < 65536" "\<not> (55296 \<le> r \<and> r < 57344)"
          by (auto simp: enc_rune_def RuneError_def)
        then show ?thesis using parse_u_escape [of r rest] t(1) u by (auto simp: RuneError_def)
      next
        case False
        then have e: "enc_rune (r, take n s) = take n s" using r True len by (simp add: enc_rune_def)
        have c: "\<not> byte c < (128::nat)" "c \<noteq> QUOTE" "c \<noteq> BSLASH"
          using t(4) s by (auto simp: QUOTE_def BSLASH_def)
        have tk: "take n s = c # take (n - 1) cs" using True s by (cases n) auto
        have d: "decode_rune (c # take (n - 1) cs @ rest) = (r, n)" using t(2) [of rest] tk by simp
        have dr: "drop (n - 1) (take (n - 1) cs @ rest) = rest" using t(3) s by simp
        have "parse_str (take n s @ rest) = cons_to (encode_rune r) (parse_str rest)"
          using c d dr by (simp add: tk parse_str.simps(2))
        then show ?thesis using e t(1) len True by simp
      qed
    next
      case False
      have n: "n = 1" using decode_rune_width [OF assms(1)] assms(2) False by simp
      have re: "r = RuneError" using assms(2) r n s by (auto simp: decode_rune_def decode_nats_def split: if_splits)
      have "enc_rune (r, take n s) = u_escape RuneError" using r re n s by (simp add: enc_rune_def)
      then show ?thesis using parse_u_escape [of RuneError rest] re n s by (simp add: RuneError_def)
    qed
  qed
qed

lemma parse_quote:
  "parse_str (concat (map enc_rune (utf8_chunks s)) @ QUOTE # rest) = Some (to_valid s, rest)"
proof (induction s rule: utf8_chunks.induct)
  case (1 s)
  show ?case
  proof (cases "s = []")
    case True
    then show ?thesis by (simp add: parse_str.simps to_valid_def)
  next
    case False
    obtain r n where rn: "decode_rune s = (r, n)" by fastforce
    have ch: "utf8_chunks s = (r, take n s) # utf8_chunks (drop n s)"
      by (subst utf8_chunks.simps) (simp add: False rn)
    have IH: "parse_str (concat (map enc_rune (utf8_chunks (drop n s))) @ QUOTE # rest) = Some (to_valid (drop n s), rest)"
      using 1 [of "(r, n)" r n] rn False by simp
    show ?thesis using parse_enc_rune [OF False rn, of "concat (map enc_rune (utf8_chunks (drop n s))) @ QUOTE # rest"] IH
      by (simp add: ch to_valid_def cons_to_def)
  qed
qed

text \<open>Numbers: a literal written by \<open>Itoa\<close> ends where a byte follows that continues no number.\<close>

definition stops :: "bytes \<Rightarrow> bool" where
  "stops s = (case s of [] \<Rightarrow> True | c # t \<Rightarrow> \<not> is_digit c \<and> c \<noteq> CHR ''.'' \<and> c \<noteq> CHR ''e'' \<and> c \<noteq> CHR ''E'')"

lemma digits_zero: "hd (digits n) = CHR ''0'' \<Longrightarrow> n = 0"
proof (induction n rule: digits.induct)
  case (1 n)
  show ?case
  proof (cases "n < 10")
    case True
    then have "chr (48 + n) = CHR ''0''" using "1.prems" by (simp add: digits.simps [of n])
    then have "(byte (chr (48 + n)) :: nat) = byte (CHR ''0'')" by (rule arg_cong)
    then show ?thesis using True by simp
  next
    case False
    then have "hd (digits n) = hd (digits (n div 10))" by (subst digits.simps) simp
    then show ?thesis using 1 False by simp
  qed
qed

lemma scan_digits: "stops rest \<Longrightarrow> list_all is_digit ds \<Longrightarrow> span_digits (ds @ rest) = (ds, rest)"
proof -
  assume "stops rest" "list_all is_digit ds"
  then have "takeWhile is_digit (ds @ rest) = ds @ takeWhile is_digit rest" "dropWhile is_digit (ds @ rest) = dropWhile is_digit rest"
    "takeWhile is_digit rest = []" "dropWhile is_digit rest = rest"
    by (auto simp: list_all_iff stops_def split: list.splits)
  then show ?thesis by (simp add: span_digits_def)
qed

lemma scan_int_digits: "stops rest \<Longrightarrow> scan_int (digits n @ rest) = Some (digits n, rest)"
proof -
  assume st: "stops rest"
  obtain c ds where d: "digits n = c # ds" by (cases "digits n") auto
  have dig: "list_all is_digit (c # ds)" using digits_are_digits [of n] d by simp
  show ?thesis
  proof (cases "c = CHR ''0''")
    case True
    then have "n = 0" using digits_zero [of n] d by simp
    then have "ds = []" using d by (simp add: digits.simps)
    then show ?thesis using True d by (simp add: scan_int_def)
  next
    case False
    then show ?thesis using dig d scan_digits [OF st dig] by (simp add: scan_int_def)
  qed
qed

lemma scan_number_Itoa: "stops rest \<Longrightarrow> scan_number (Itoa i @ rest) = Some (Itoa i, rest)"
proof -
  assume st: "stops rest"
  have f: "scan_frac rest = Some ([], rest)" "scan_exp rest = Some ([], rest)"
    using st by (auto simp: scan_frac_def scan_exp_def stops_def split: list.splits)
  show ?thesis
  proof (cases "i < 0")
    case True
    then show ?thesis using f scan_int_digits [OF st] by (simp add: Itoa_def scan_number_def)
  next
    case False
    obtain c ds where d: "digits (nat i) = c # ds" by (cases "digits (nat i)") auto
    have "c \<noteq> CHR ''-''" using hd_digits [of "nat i"] d by simp
    then show ?thesis using False f scan_int_digits [OF st, of "nat i"] d by (simp add: Itoa_def scan_number_def)
  qed
qed

section \<open>The round trip of a value\<close>

text \<open>Values whose strings are valid UTF-8 and whose numbers are integers, and how deep they are nested.\<close>

fun plain_json :: "json \<Rightarrow> bool" where
  "plain_json (JNum s) = (\<exists>i. s = Itoa i)"
| "plain_json (JStr s) = utf8_valid s"
| "plain_json (JArr xs) = list_all plain_json xs"
| "plain_json (JObj kvs) = list_all (\<lambda>(k, v). utf8_valid k \<and> plain_json v) kvs"
| "plain_json v = True"

fun height :: "json \<Rightarrow> nat" where
  "height (JArr xs) = Suc (foldr (\<lambda>x. max (height x)) xs 0)"
| "height (JObj kvs) = Suc (foldr (\<lambda>(k, v). max (height v)) kvs 0)"
| "height v = 0"

lemma height_items: "x \<in> set xs \<Longrightarrow> height x \<le> foldr (\<lambda>x. max (height x)) xs 0"
  by (induction xs) (auto simp: le_max_iff_disj)

lemma height_members: "(k, v) \<in> set kvs \<Longrightarrow> height v \<le> foldr (\<lambda>(k, v). max (height v)) kvs 0"
  by (induction kvs) (auto simp: le_max_iff_disj)

lemma Itoa_head: "\<exists>c t. Itoa i = c # t \<and> (c = CHR ''-'' \<or> is_digit c)"
  using digits_are_digits [of "nat i"] by (cases "digits (nat i)") (auto simp: Itoa_def)

lemma encode_head:
  assumes "plain_json v"
  shows "\<exists>c t. encode v = c # t \<and> \<not> is_ws c \<and> c \<noteq> CHR '']'' \<and> c \<noteq> CHR ''}''"
proof -
  have w: "\<not> is_ws (CHR ''n'')" "\<not> is_ws (CHR ''t'')" "\<not> is_ws (CHR ''f'')" "\<not> is_ws (CHR ''['')" "\<not> is_ws (CHR ''{'')"
    "\<not> is_ws (CHR ''-'')" "\<not> is_ws QUOTE" "QUOTE \<noteq> CHR '']''" "QUOTE \<noteq> CHR ''}''"
    by code_simp+
  have d: "\<not> is_ws c \<and> c \<noteq> CHR '']'' \<and> c \<noteq> CHR ''}''" if "is_digit c" for c
    using that by (auto simp: is_digit_def is_ws_def)
  show ?thesis
  proof (cases v)
    case (JNum s)
    then obtain i where "s = Itoa i" using assms by auto
    then show ?thesis using JNum Itoa_head [of i] w d by auto
  qed (use w in \<open>auto simp: quote_def\<close>)
qed

lemma skip_ws_head: "\<not> is_ws c \<Longrightarrow> skip_ws (c # t) = c # t"
  by (simp add: skip_ws_def)

lemma skip_encode: "plain_json v \<Longrightarrow> skip_ws (encode v @ rest) = encode v @ rest"
  using encode_head [of v] by (auto simp: skip_ws_head)

definition reads_back :: "json \<Rightarrow> nat \<Rightarrow> bool" where
  "reads_back v depth = (\<forall>m rest. stops rest \<longrightarrow> 2 * length (encode v) \<le> m \<longrightarrow>
     parse_value m depth (encode v @ rest) = Some (v, rest))"

lemma stops_punct: "stops (CHR '','' # s)" "stops (CHR '']'' # s)" "stops (CHR ''}'' # s)"
  by (simp_all add: stops_def is_digit_def)

lemma punct_ws: "\<not> is_ws (CHR '','')" "\<not> is_ws (CHR '']'')" "\<not> is_ws (CHR ''}'')" "\<not> is_ws (CHR '':'')" "\<not> is_ws QUOTE"
    "\<not> is_ws (CHR ''['')" "\<not> is_ws (CHR ''{'')"
  by code_simp+

lemma items_read_back:
  assumes "list_all (\<lambda>x. plain_json x \<and> reads_back x depth) xs" and "xs \<noteq> []"
    and "2 * length (sep (map encode xs)) + 2 \<le> m"
  shows "parse_items m depth (sep (map encode xs) @ CHR '']'' # rest) = Some (xs, rest)"
  using assms
proof (induction xs arbitrary: m)
  case Nil
  then show ?case by simp
next
  case (Cons x xs)
  obtain m' where m: "m = Suc m'" using Cons.prems(3) by (cases m) auto
  have x: "stops r \<Longrightarrow> parse_value m' depth (encode x @ r) = Some (x, r)" if "2 * length (encode x) \<le> m'" for r
    using Cons.prems(1) that by (simp add: reads_back_def)
  show ?case
  proof (cases xs)
    case Nil
    then show ?thesis using Cons.prems(3) m x [OF _ stops_punct(2)] by (simp add: skip_ws_head punct_ws)
  next
    case (Cons y ys)
    have "parse_items m' depth (sep (map encode xs) @ CHR '']'' # rest) = Some (xs, rest)"
      using Cons.IH Cons.prems m Cons by simp
    then show ?thesis using Cons.prems(3) m x [OF _ stops_punct(1)] Cons by (simp add: skip_ws_head punct_ws cons_to_def)
  qed
qed

lemma members_read_back:
  assumes "list_all (\<lambda>(k, v). utf8_valid k \<and> plain_json v \<and> reads_back v depth) kvs" and "kvs \<noteq> []"
    and "2 * length (sep (map (\<lambda>(k, v). quote k @ CHR '':'' # encode v) kvs)) + 2 \<le> m"
  shows "parse_members m depth (sep (map (\<lambda>(k, v). quote k @ CHR '':'' # encode v) kvs) @ CHR ''}'' # rest) = Some (kvs, rest)"
  using assms
proof (induction kvs arbitrary: m)
  case Nil
  then show ?case by simp
next
  case (Cons kv kvs)
  obtain k v where kv: "kv = (k, v)" by fastforce
  obtain m' where m: "m = Suc m'" using Cons.prems(3) by (cases m) auto
  have x: "stops r \<Longrightarrow> parse_value m' depth (encode v @ r) = Some (v, r)" if "2 * length (encode v) \<le> m'" for r
    using Cons.prems(1) that kv by (simp add: reads_back_def)
  have q: "parse_str (concat (map enc_rune (utf8_chunks k)) @ QUOTE # r) = Some (k, r)" for r
    using parse_quote [of k r] Cons.prems(1) kv by (simp add: to_valid_valid)
  show ?case
  proof (cases kvs)
    case Nil
    then show ?thesis using Cons.prems(3) m x [OF _ stops_punct(3)] q kv
      by (simp add: quote_def skip_ws_head punct_ws)
  next
    case (Cons y ys)
    have "parse_members m' depth (sep (map (\<lambda>(k, v). quote k @ CHR '':'' # encode v) kvs) @ CHR ''}'' # rest) = Some (kvs, rest)"
      using Cons.IH Cons.prems m Cons by simp
    then show ?thesis using Cons.prems(3) m x [OF _ stops_punct(1)] q kv Cons
      by (simp add: quote_def skip_ws_head punct_ws cons_to_def)
  qed
qed

lemma reads_backI:
  assumes "encode v \<noteq> []"
    and "\<And>n rest. stops rest \<Longrightarrow> 2 * length (encode v) \<le> Suc n \<Longrightarrow> parse_value (Suc n) depth (encode v @ rest) = Some (v, rest)"
  shows "reads_back v depth"
  unfolding reads_back_def
proof (intro allI impI)
  fix m rest assume "stops rest" and m: "2 * length (encode v) \<le> m"
  then obtain n where "m = Suc n" using assms(1) by (cases m; cases "encode v") auto
  then show "parse_value m depth (encode v @ rest) = Some (v, rest)" using assms(2) \<open>stops rest\<close> m by simp
qed

lemma sep_head: "xs \<noteq> [] \<Longrightarrow> hd xs = c # t \<Longrightarrow> \<exists>u. sep xs = c # u"
  by (cases xs rule: sep.cases) auto

lemma word_heads: "CHR ''n'' \<noteq> QUOTE" "CHR ''t'' \<noteq> QUOTE" "CHR ''f'' \<noteq> QUOTE" "CHR ''-'' \<noteq> QUOTE"
    "\<not> is_digit QUOTE"
  by code_simp+

lemma array_reads_back:
  assumes all: "list_all (\<lambda>x. plain_json x \<and> reads_back x (Suc depth)) xs" and d: "\<not> max_depth \<le> depth"
  shows "reads_back (JArr xs) depth"
proof (rule reads_backI)
  have nq: "CHR ''['' \<noteq> QUOTE" by code_simp
  fix n rest assume len: "2 * length (encode (JArr xs)) \<le> Suc n"
  show "parse_value (Suc n) depth (encode (JArr xs) @ rest) = Some (JArr xs, rest)"
  proof (cases xs)
    case Nil
    then show ?thesis using d nq by (simp add: skip_ws_head punct_ws)
  next
    case (Cons x ys)
    have "plain_json x" using all Cons by simp
    then obtain c t where c: "encode x = c # t" "\<not> is_ws c" "c \<noteq> CHR '']''" using encode_head by blast
    have "\<exists>u. sep (map encode xs) = c # u" using c(1) Cons by (intro sep_head [where t = t]) simp_all
    then obtain u where u: "sep (map encode xs) = c # u" by blast
    have "parse_items n (Suc depth) (sep (map encode xs) @ CHR '']'' # rest) = Some (xs, rest)"
      using len by (intro items_read_back [OF all]) (simp_all add: Cons)
    then show ?thesis using d nq c(2,3) u by (simp add: skip_ws_head punct_ws)
  qed
qed simp

lemma object_reads_back:
  assumes all: "list_all (\<lambda>(k, v). utf8_valid k \<and> plain_json v \<and> reads_back v (Suc depth)) kvs" and d: "\<not> max_depth \<le> depth"
  shows "reads_back (JObj kvs) depth"
proof (rule reads_backI)
  have nq: "CHR ''{'' \<noteq> QUOTE" "QUOTE \<noteq> CHR ''}''" by code_simp+
  fix n rest assume len: "2 * length (encode (JObj kvs)) \<le> Suc n"
  show "parse_value (Suc n) depth (encode (JObj kvs) @ rest) = Some (JObj kvs, rest)"
  proof (cases kvs)
    case Nil
    then show ?thesis using d nq by (simp add: skip_ws_head punct_ws)
  next
    case (Cons kv ys)
    have "\<exists>u. sep (map (\<lambda>(k, v). quote k @ CHR '':'' # encode v) kvs) = QUOTE # u"
      using Cons by (intro sep_head [where t = "tl (hd (map (\<lambda>(k, v). quote k @ CHR '':'' # encode v) kvs))"])
        (auto simp: quote_def split: prod.split)
    then obtain u where u: "sep (map (\<lambda>(k, v). quote k @ CHR '':'' # encode v) kvs) = QUOTE # u" by blast
    have "parse_members n (Suc depth) (sep (map (\<lambda>(k, v). quote k @ CHR '':'' # encode v) kvs) @ CHR ''}'' # rest) = Some (kvs, rest)"
      using len by (intro members_read_back [OF all]) (simp_all add: Cons)
    then show ?thesis using d nq u by (simp add: skip_ws_head punct_ws)
  qed
qed simp

lemma value_reads_back: "plain_json v \<Longrightarrow> depth + height v \<le> max_depth \<Longrightarrow> reads_back v depth"
proof (induction v arbitrary: depth)
  case JNull
  show ?case by (rule reads_backI) (simp_all add: skip_ws_head is_ws_def scan_word_def HasPrefix_def word_heads)
next
  case (JBool b)
  show ?case by (rule reads_backI) (simp_all add: skip_ws_head is_ws_def scan_word_def HasPrefix_def word_heads)
next
  case (JNum s)
  then obtain i where i: "s = Itoa i" by auto
  obtain c t where ct: "Itoa i = c # t" "c = CHR ''-'' \<or> is_digit c" using Itoa_head by blast
  have c: "\<not> is_ws c" "c \<noteq> QUOTE" "c \<noteq> CHR ''[''" "c \<noteq> CHR ''{''" "c \<noteq> CHR ''n''" "c \<noteq> CHR ''t''" "c \<noteq> CHR ''f''"
    using ct(2) word_heads by (auto simp: is_ws_def is_digit_def)
  show ?case
  proof (rule reads_backI)
    fix n rest assume "stops rest"
    from scan_number_Itoa [OF this, of i] show "parse_value (Suc n) depth (encode (JNum s) @ rest) = Some (JNum s, rest)"
      using c by (simp add: i ct(1) skip_ws_head)
  qed (simp add: i ct(1))
next
  case (JStr s)
  show ?case
  proof (rule reads_backI)
    fix n rest
    show "parse_value (Suc n) depth (encode (JStr s) @ rest) = Some (JStr s, rest)"
      using parse_quote [of s rest] JStr by (simp add: quote_def skip_ws_head punct_ws to_valid_valid)
  qed (simp add: quote_def)
next
  case (JArr xs)
  have "reads_back x (Suc depth)" if "x \<in> set xs" for x
    using JArr.IH [OF that, of "Suc depth"] JArr.prems height_items [OF that] that by (auto simp: list_all_iff)
  then show ?case using JArr.prems by (intro array_reads_back) (simp_all add: list_all_iff)
next
  case (JObj kvs)
  have "reads_back v (Suc depth)" if "(k, v) \<in> set kvs" for k v
    using JObj.IH [OF that, of v "Suc depth"] JObj.prems height_members [OF that] that by (auto simp: list_all_iff)
  then show ?case using JObj.prems by (intro object_reads_back) (auto simp: list_all_iff)
qed

lemma stops_newline: "stops (chr 10 # s)" "stops []"
proof -
  have "\<not> is_digit (chr 10) \<and> chr 10 \<noteq> CHR ''.'' \<and> chr 10 \<noteq> CHR ''e'' \<and> chr 10 \<noteq> CHR ''E''" by code_simp
  then show "stops (chr 10 # s)" "stops []" by (simp_all add: stops_def)
qed

lemma newline_ws: "skip_ws [chr 10] = []"
  by code_simp

text \<open>A plain value that is not nested too deeply survives both ways of reading it.\<close>

lemma Unmarshal_Encode:
  assumes "plain_json v" and "height v \<le> max_depth"
  shows "Unmarshal (Encode v) = Some v"
proof -
  have "parse_value (2 * length (encode v)) 0 (encode v @ [chr 10]) = Some (v, [chr 10])"
    using value_reads_back [of v 0] assms stops_newline by (simp add: reads_back_def)
  from parse_fuel [OF this] show ?thesis by (simp add: Unmarshal_def Encode_def newline_ws)
qed

lemma Unmarshal_encode:
  assumes "plain_json v" and "height v \<le> max_depth"
  shows "Unmarshal (encode v) = Some v"
proof -
  have "parse_value (2 * length (encode v)) 0 (encode v @ []) = Some (v, [])"
    using value_reads_back [of v 0] assms stops_newline by (simp only: reads_back_def add_0 simp_thms)
  then show ?thesis by (simp add: Unmarshal_def skip_ws_def)
qed

lemma Decode_Encode:
  assumes "plain_json v" and "height v \<le> max_depth"
  shows "Decode \<lparr>body_data = Encode v @ rest, body_err = e\<rparr> = Some v"
proof -
  have "parse_value (2 * length (encode v)) 0 (encode v @ chr 10 # rest) = Some (v, chr 10 # rest)"
    using value_reads_back [of v 0] assms stops_newline by (simp add: reads_back_def)
  from parse_fuel [OF this] show ?thesis by (cases v) (simp_all add: Decode_def Encode_def)
qed

end
