(* ===== verification/GoStruct.thy ===== *)
theory GoStruct
  imports GoJsonRound
begin

text \<open>
  \<open>encoding/json\<close> decoding into a struct, one function per type of field. A type mismatch makes the whole
  call fail.
\<close>

text \<open>
  Decoding a JSON object into a struct: a key selects a field by its name in any case, later keys overwrite earlier
  ones, \<open>null\<close> leaves a field alone and a value of another type is an error.
\<close>

definition selects :: "bytes \<Rightarrow> bytes \<Rightarrow> bool" where
  "selects field key = EqualFold field key"

fun string_field :: "bytes \<Rightarrow> (bytes \<times> json) list \<Rightarrow> bytes \<Rightarrow> bytes option" where
  "string_field field [] x = Some x"
| "string_field field ((k, v) # kvs) x =
     (if selects field k then
        (case v of JStr y \<Rightarrow> string_field field kvs y | JNull \<Rightarrow> string_field field kvs x | _ \<Rightarrow> None)
      else string_field field kvs x)"

definition object_of :: "json \<Rightarrow> (bytes \<times> json) list option" where
  "object_of v = (case v of JObj kvs \<Rightarrow> Some kvs | JNull \<Rightarrow> Some [] | _ \<Rightarrow> None)"

fun bool_field :: "bytes \<Rightarrow> (bytes \<times> json) list \<Rightarrow> bool \<Rightarrow> bool option" where
  "bool_field field [] x = Some x"
| "bool_field field ((k, v) # kvs) x =
     (if selects field k then
        (case v of JBool y \<Rightarrow> bool_field field kvs y | JNull \<Rightarrow> bool_field field kvs x | _ \<Rightarrow> None)
      else bool_field field kvs x)"

fun int_field :: "bytes \<Rightarrow> (bytes \<times> json) list \<Rightarrow> int \<Rightarrow> int option" where
  "int_field field [] x = Some x"
| "int_field field ((k, v) # kvs) x =
     (if selects field k then
        (case v of
           JNum s \<Rightarrow> (case ParseInt64 s of None \<Rightarrow> None | Some y \<Rightarrow> int_field field kvs y)
         | JNull \<Rightarrow> int_field field kvs x
         | _ \<Rightarrow> None)
      else int_field field kvs x)"

text \<open>
  A list of strings: an element that is \<open>null\<close> keeps what the slice already held there (from an earlier
  occurrence of the key), which is empty in a fresh slice.
\<close>

fun strings_into :: "bytes list \<Rightarrow> json list \<Rightarrow> bytes list option" where
  "strings_into old [] = Some []"
| "strings_into old (v # vs) =
     (case v of
        JStr s \<Rightarrow> map_option ((#) s) (strings_into (tl old) vs)
      | JNull \<Rightarrow> map_option ((#) (case old of [] \<Rightarrow> [] | s # _ \<Rightarrow> s)) (strings_into (tl old) vs)
      | _ \<Rightarrow> None)"

fun strings_field :: "bytes \<Rightarrow> (bytes \<times> json) list \<Rightarrow> bytes list \<Rightarrow> bytes list option" where
  "strings_field field [] x = Some x"
| "strings_field field ((k, v) # kvs) x =
     (if selects field k then
        (case v of
           JArr vs \<Rightarrow> (case strings_into x vs of None \<Rightarrow> None | Some y \<Rightarrow> strings_field field kvs y)
         | JNull \<Rightarrow> strings_field field kvs []
         | _ \<Rightarrow> None)
      else strings_field field kvs x)"

lemma strings_into_JStr: "strings_into old (map JStr ss) = Some ss"
  by (induction ss arbitrary: old) simp_all

lemma fresh_slice: "i < length vs \<Longrightarrow> strings_into [] vs = Some ss \<Longrightarrow> vs ! i = JNull \<Longrightarrow> ss ! i = []"
  by (induction vs arbitrary: i ss) (auto simp: nth_Cons split: json.splits nat.splits)

end
