(* ===== verification/GoServe.thy ===== *)
theory GoServe
  imports GoJson
begin

text \<open>
  \<open>net/url\<close> and the request multiplexer of \<open>net/http\<close>, as far as the control API and its client use them: escaping,
  query strings, path cleaning, and patterns of a method and literal or single-segment wildcard parts.
\<close>

section \<open>Escaping\<close>

definition upper_hex :: "nat \<Rightarrow> char" where
  "upper_hex n = (if n < 10 then chr (48 + n) else chr (55 + n))"

definition percent :: "char \<Rightarrow> bytes" where
  "percent c = [CHR ''%'', upper_hex (byte c div 16), upper_hex (byte c mod 16)]"

definition unreserved :: "char \<Rightarrow> bool" where
  "unreserved c =
     (let b = byte c in (48 \<le> b \<and> b \<le> (57::nat)) \<or> (65 \<le> b \<and> b \<le> 90) \<or> (97 \<le> b \<and> b \<le> 122) \<or> c \<in> set ''-_.~'')"

definition QueryEscape :: "bytes \<Rightarrow> bytes" where
  "QueryEscape s = concat (map (\<lambda>c. if unreserved c then [c] else if c = CHR '' '' then ''+'' else percent c) s)"

definition escape_path :: "bytes \<Rightarrow> bytes" where
  "escape_path s = concat (map (\<lambda>c. if unreserved c \<or> c \<in> set ''$&+,/:;=@'' then [c] else percent c) s)"

text \<open>\<open>unescape\<close>: in a query (\<open>True\<close>) a plus sign is a space; a malformed escape is an error.\<close>

fun unescape :: "bool \<Rightarrow> bytes \<Rightarrow> bytes option" where
  "unescape inq [] = Some []"
| "unescape inq (c # s) =
     (if c = CHR ''%'' then
        (case s of
           a # b # t \<Rightarrow>
             (case (hex_val a, hex_val b) of
                (Some x, Some y) \<Rightarrow> map_option ((#) (chr (16 * x + y))) (unescape inq t)
              | _ \<Rightarrow> None)
         | _ \<Rightarrow> None)
      else map_option ((#) (if inq \<and> c = CHR ''+'' then CHR '' '' else c)) (unescape inq s))"

definition valid_encoded :: "bytes \<Rightarrow> bool" where
  "valid_encoded s = list_all (\<lambda>c. unreserved c \<or> c \<in> set ''!$&()*+,;=:@[]%/'' \<or> byte c = (39::nat)) s"

definition EscapedPath :: "request \<Rightarrow> bytes" where
  "EscapedPath r =
     (if req_rawpath r \<noteq> [] \<and> valid_encoded (req_rawpath r) \<and> unescape False (req_rawpath r) = Some (req_path r) then req_rawpath r
      else if req_path r = ''*'' then ''*''
      else escape_path (req_path r))"

section \<open>Query strings\<close>

fun split_on :: "char \<Rightarrow> bytes \<Rightarrow> bytes list" where
  "split_on sep_char [] = [[]]"
| "split_on sep_char (c # s) =
     (if c = sep_char then [] # split_on sep_char s
      else (case split_on sep_char s of x # xs \<Rightarrow> (c # x) # xs | [] \<Rightarrow> [[c]]))"

definition Cut :: "bytes \<Rightarrow> char \<Rightarrow> bytes \<times> bytes" where
  "Cut s c = (takeWhile (\<lambda>x. x \<noteq> c) s, drop 1 (dropWhile (\<lambda>x. x \<noteq> c) s))"

fun query_pairs :: "bytes list \<Rightarrow> (bytes \<times> bytes) list" where
  "query_pairs [] = []"
| "query_pairs (p # ps) =
     (if CHR '';'' \<in> set p \<or> p = [] then query_pairs ps
      else (case Cut p (CHR ''='') of
        (k, v) \<Rightarrow>
          (case (unescape True k, unescape True v) of
             (Some k', Some v') \<Rightarrow> (k', v') # query_pairs ps
           | _ \<Rightarrow> query_pairs ps)))"

text \<open>\<open>r.URL.Query().Get(k)\<close>.\<close>

definition query_get :: "bytes \<Rightarrow> bytes \<Rightarrow> bytes" where
  "query_get raw k =
     (case map_of (query_pairs (split_on (CHR ''&'') raw)) k of None \<Rightarrow> [] | Some v \<Rightarrow> v)"

section \<open>The multiplexer\<close>

fun clean_step :: "bytes list \<Rightarrow> bytes \<Rightarrow> bytes list" where
  "clean_step acc seg =
     (if seg = [] \<or> seg = ''.'' then acc else if seg = ''..'' then butlast acc else acc @ [seg])"

definition join_path :: "bytes list \<Rightarrow> bytes" where
  "join_path segs = (if segs = [] then ''/'' else concat (map (\<lambda>s. CHR ''/'' # s) segs))"

definition cleanPath :: "bytes \<Rightarrow> bytes" where
  "cleanPath p0 =
     (if p0 = [] then ''/''
      else let p = (if hd p0 \<noteq> CHR ''/'' then CHR ''/'' # p0 else p0);
               np = join_path (foldl clean_step [] (split_on (CHR ''/'') p)) in
        if last p = CHR ''/'' \<and> np \<noteq> ''/'' then np @ ''/'' else np)"

datatype segment = Lit bytes | Wild

type_synonym 'h pattern = "bytes \<times> segment list \<times> 'h"

definition unescape_segment :: "bytes \<Rightarrow> bytes" where
  "unescape_segment s = (case unescape False s of None \<Rightarrow> s | Some t \<Rightarrow> t)"

text \<open>The values of the wildcards, if the segments of a path fit a pattern.\<close>

fun match_segments :: "segment list \<Rightarrow> bytes list \<Rightarrow> bytes list option" where
  "match_segments [] [] = Some []"
| "match_segments (Lit l # ps) (s # ss) = (if unescape_segment s = l then match_segments ps ss else None)"
| "match_segments (Wild # ps) (s # ss) = (if s = [] then None else map_option ((#) (unescape_segment s)) (match_segments ps ss))"
| "match_segments _ _ = None"

definition path_segments :: "bytes \<Rightarrow> bytes list" where
  "path_segments p = tl (split_on (CHR ''/'') p)"

fun find_route :: "'h pattern list \<Rightarrow> bytes \<Rightarrow> bytes list \<Rightarrow> ('h \<times> bytes list) option" where
  "find_route [] m segs = None"
| "find_route ((pm, ps, h) # rest) m segs =
     (if pm = m then
        (case match_segments ps segs of Some vs \<Rightarrow> Some (h, vs) | None \<Rightarrow> find_route rest m segs)
      else find_route rest m segs)"

fun methods_for :: "'h pattern list \<Rightarrow> bytes list \<Rightarrow> bytes list" where
  "methods_for [] segs = []"
| "methods_for ((pm, ps, h) # rest) segs =
     (if match_segments ps segs = None then methods_for rest segs
      else (if pm = ''GET'' then [''GET'', ''HEAD''] else [pm]) @ methods_for rest segs)"

text \<open>
  What becomes of a request: a handler with its wildcard values, a redirection to the cleaned path, a 405 with the methods that would
  do (for the registered patterns they are listed in alphabetical order), or a 404.
\<close>

datatype 'h routed = Handled 'h "bytes list" | MovedTo bytes | BadMethod "bytes list" | NoRoute

definition non_ascii_hex :: "bytes \<Rightarrow> bytes" where
  "non_ascii_hex s = concat (map (\<lambda>c. if byte c < (128::nat) then [c]
     else [CHR ''%'', hex_digit (byte c div 16), hex_digit (byte c mod 16)]) s)"

definition mux :: "'h pattern list \<Rightarrow> request \<Rightarrow> 'h routed" where
  "mux pats r =
     (let p0 = EscapedPath r;
          p = (if req_method r = ''CONNECT'' then p0 else cleanPath p0);
          segs = path_segments p;
          found = (case find_route pats (req_method r) segs of
                     Some x \<Rightarrow> Some x
                   | None \<Rightarrow> if req_method r = ''HEAD'' then find_route pats ''GET'' segs else None) in
      if p \<noteq> p0 then
        MovedTo (non_ascii_hex (escape_path p @ (if req_query r = [] then [] else CHR ''?'' # req_query r)))
      else case found of
        Some (h, vs) \<Rightarrow> Handled h vs
      | None \<Rightarrow> (let ms = methods_for pats segs in if ms = [] then NoRoute else BadMethod ms))"

definition join_comma :: "bytes list \<Rightarrow> bytes" where
  "join_comma ms = (case ms of [] \<Rightarrow> [] | m # rest \<Rightarrow> m @ concat (map (\<lambda>x. '', '' @ x) rest))"

text \<open>The answers the multiplexer gives itself.\<close>

definition answer_moved :: "bytes \<Rightarrow> request \<Rightarrow> writer \<Rightarrow> writer" where
  "answer_moved url r w =
     (let w1 = w_set ''Location'' url w;
          fresh = (Header_Get (w_header w) ''Content-Type'' = []);
          w2 = (if fresh \<and> (req_method r = ''GET'' \<or> req_method r = ''HEAD'') then w_set ''Content-Type'' ''text/html; charset=utf-8'' w1 else w1);
          w3 = WriteHeader 301 w2 in
      if fresh \<and> req_method r = ''GET'' then
        Write (''<a href='' @ [QUOTE] @ EscapeString url @ [QUOTE] @ ''>Moved Permanently</a>.'' @ [chr 10, chr 10]) w3
      else w3)"

definition answer_bad_method :: "bytes list \<Rightarrow> writer \<Rightarrow> writer" where
  "answer_bad_method ms w = http_Error ''Method Not Allowed'' 405 (w_set ''Allow'' (join_comma ms) w)"

definition answer_no_route :: "writer \<Rightarrow> writer" where
  "answer_no_route w = http_Error ''404 page not found'' 404 w"

section \<open>Query values come back\<close>

lemma hex_val_upper: "n < 16 \<Longrightarrow> hex_val (upper_hex n) = Some n"
  by (auto simp: hex_val_def upper_hex_def Let_def)

lemma byte_less: "(byte c :: nat) < 256"
  using of_char_mod_256 [of c, where 'a = nat] mod_less_divisor [of 256 "byte c"] by simp

lemma unescape_percent: "unescape inq (percent c @ s) = map_option ((#) c) (unescape inq s)"
proof -
  have "(byte c :: nat) div 16 < 16" "(byte c :: nat) mod 16 < 16" using byte_less [of c] by (simp_all add: div_less_iff_less_mult)
  then show ?thesis by (simp add: percent_def hex_val_upper)
qed

lemma unescape_QueryEscape: "unescape True (QueryEscape s) = Some s"
proof (induction s)
  case Nil
  then show ?case by (simp add: QueryEscape_def)
next
  case (Cons c s)
  have e: "QueryEscape (c # s) = (if unreserved c then [c] else if c = CHR '' '' then ''+'' else percent c) @ QueryEscape s"
    by (simp add: QueryEscape_def)
  have u: "unreserved c \<Longrightarrow> c \<noteq> CHR ''%'' \<and> c \<noteq> CHR ''+''" by (auto simp: unreserved_def)
  show ?case using Cons u by (auto simp: e unescape_percent)
qed

lemma QueryEscape_plain:
  "CHR ''&'' \<notin> set (QueryEscape s) \<and> CHR '';'' \<notin> set (QueryEscape s) \<and> CHR ''='' \<notin> set (QueryEscape s)"
proof -
  have h: "upper_hex n \<noteq> CHR ''&'' \<and> upper_hex n \<noteq> CHR '';'' \<and> upper_hex n \<noteq> CHR ''=''" if "n < 16" for n
  proof -
    have "hex_val (CHR ''&'') = None" "hex_val (CHR '';'') = None" "hex_val (CHR ''='') = None" by code_simp+
    then show ?thesis using hex_val_upper [OF that] by auto
  qed
  have "(byte c :: nat) div 16 < 16" "(byte c :: nat) mod 16 < 16" for c using byte_less [of c] by (simp_all add: div_less_iff_less_mult)
  then have p: "CHR ''&'' \<notin> set (percent c) \<and> CHR '';'' \<notin> set (percent c) \<and> CHR ''='' \<notin> set (percent c)" for c
    using h [of "byte c div 16"] h [of "byte c mod 16"] by (simp add: percent_def not_sym)
  show ?thesis using p by (induction s) (auto simp: QueryEscape_def unreserved_def)
qed

lemma split_on_none: "c \<notin> set s \<Longrightarrow> split_on c s = [s]"
  by (induction s) auto

lemma split_on_first: "c \<notin> set s \<Longrightarrow> split_on c (s @ c # t) = s # split_on c t"
  by (induction s) auto

lemma Cut_first: "c \<notin> set k \<Longrightarrow> Cut (k @ c # v) c = (k, v)"
  by (simp add: Cut_def takeWhile_append)

text \<open>\<open>url.Values.Encode\<close> of a list of single values, already in key order.\<close>

fun query_encode :: "(bytes \<times> bytes) list \<Rightarrow> bytes" where
  "query_encode [] = []"
| "query_encode [(k, v)] = QueryEscape k @ CHR ''='' # QueryEscape v"
| "query_encode ((k, v) # kvs) = QueryEscape k @ CHR ''='' # QueryEscape v @ CHR ''&'' # query_encode kvs"

lemma query_pair_back:
  "query_pairs ((QueryEscape k @ CHR ''='' # QueryEscape v) # ps) = (k, v) # query_pairs ps"
  using QueryEscape_plain [of k] QueryEscape_plain [of v]
  by (simp add: Cut_first unescape_QueryEscape)

lemma query_round_trip: "kvs \<noteq> [] \<Longrightarrow> query_pairs (split_on (CHR ''&'') (query_encode kvs)) = kvs"
proof (induction kvs rule: query_encode.induct)
  case (2 k v)
  have "CHR ''&'' \<notin> set (QueryEscape k @ CHR ''='' # QueryEscape v)"
    using QueryEscape_plain [of k] QueryEscape_plain [of v] by simp
  from split_on_none [OF this] show ?case
    by (simp only: query_encode.simps query_pair_back) simp
next
  case (3 k v kv kvs)
  have "CHR ''&'' \<notin> set (QueryEscape k @ CHR ''='' # QueryEscape v)"
    using QueryEscape_plain [of k] QueryEscape_plain [of v] by simp
  from split_on_first [OF this, of "query_encode (kv # kvs)"] 3 show ?case
    by (simp add: query_pair_back del: query_pairs.simps)
qed simp

end
