(* ===== verification/PageCache.thy ===== *)
theory PageCache
  imports StoreUsers
begin

text \<open>
  \<open>internal/edge/snapshot\<close>: which live responses may be stored for offline use, which of their
  headers are kept, and the banner put into a stored page when it is served.
\<close>

definition cacheableContentTypePrefixes :: "bytes list" where
  "cacheableContentTypePrefixes =
     [''text/html'', ''text/css'', ''text/plain'', ''text/javascript'', ''application/javascript'',
      ''application/json'', ''image/'', ''font/'']"

definition hopByHopHeaders :: "bytes list" where
  "hopByHopHeaders =
     [''Connection'', ''Keep-Alive'', ''Proxy-Authenticate'', ''Proxy-Authorization'',
      ''Te'', ''Trailer'', ''Transfer-Encoding'', ''Upgrade'', ''Set-Cookie'', ''Content-Length'']"

fun any_prefix :: "bytes list \<Rightarrow> bytes \<Rightarrow> bool" where
  "any_prefix [] ct = False"
| "any_prefix (q # qs) ct = (if HasPrefix ct q then True else any_prefix qs ct)"

definition Cacheable :: "platform \<Rightarrow> request \<Rightarrow> response \<Rightarrow> bool" where
  "Cacheable p req resp =
     (if req_method req \<noteq> ''GET'' then False
      else if resp_status resp \<noteq> 200 then False
      else if Header_Get (req_header req) ''Cookie'' \<noteq> [] \<or> Header_Get (req_header req) ''Authorization'' \<noteq> [] then False
      else if Header_Get (resp_header resp) ''Set-Cookie'' \<noteq> [] then False
      else let cc = ToLower (pl_lower p) (Header_Get (resp_header resp) ''Cache-Control'') in
        if Contains cc ''private'' \<or> Contains cc ''no-store'' then False
        else any_prefix cacheableContentTypePrefixes
               (ToLower (pl_lower p) (Header_Get (resp_header resp) ''Content-Type'')))"

fun name_in :: "bytes list \<Rightarrow> bytes \<Rightarrow> bool" where
  "name_in [] name = False"
| "name_in (h # hs) name = (if EqualFold h name then True else name_in hs name)"

definition isHopByHop :: "bytes \<Rightarrow> bool" where
  "isHopByHop name = name_in hopByHopHeaders name"

fun Headers_loop :: "header \<Rightarrow> (bytes \<times> bytes) list" where
  "Headers_loop [] = []"
| "Headers_loop ((k, vals) # h) =
     (if isHopByHop k \<or> vals = [] then Headers_loop h else (k, hd vals) # Headers_loop h)"

definition Headers :: "response \<Rightarrow> (bytes \<times> bytes) list" where
  "Headers resp = Headers_loop (resp_header resp)"

definition banner :: "platform \<Rightarrow> int \<Rightarrow> bytes" where
  "banner p capturedAt =
     ''<div style=\"position:fixed;bottom:0;left:0;right:0;z-index:2147483647;'' @ [chr 10] @
     ''background:#151a23;color:#e8e8ec;font:13px system-ui,sans-serif;padding:8px 14px;'' @ [chr 10] @
     ''border-top:1px solid #2a3140;text-align:center\">'' @ [chr 10] @
     ''liveurl: live server is offline &mdash; showing a snapshot captured '' @ pl_local_time p capturedAt @ [chr 10] @
     ''</div>''"

text \<open>\<open>None\<close> is the panic of slicing \<open>body\<close> beyond its end.\<close>

definition InjectBanner :: "platform \<Rightarrow> bytes \<Rightarrow> int \<Rightarrow> bytes option" where
  "InjectBanner p body capturedAt =
     (let lower = ToLower (pl_lower p) body in
      case LastIndex lower ''</body>'' of
        Some idx \<Rightarrow>
          if length body < idx then None
          else Some (take idx body @ banner p capturedAt @ drop idx body)
      | None \<Rightarrow> Some (body @ banner p capturedAt))"

section \<open>What is kept of a response\<close>

lemma any_prefix_iff: "any_prefix qs ct \<longleftrightarrow> (\<exists>q \<in> set qs. HasPrefix ct q)"
  by (induction qs) auto

lemma name_in_iff: "name_in hs name \<longleftrightarrow> (\<exists>h \<in> set hs. EqualFold h name)"
  by (induction hs) auto

text \<open>
  What a stored page carries. Of a response's headers (a map, so keys are distinct) exactly
  those are stored, each with its first value, that have a value and whose name is not one of the
  hop-by-hop, cookie or length headers in any letter case; in particular no \<open>Set-Cookie\<close> is ever replayed to
  another visitor.
\<close>
theorem stored_headers_exactly:
  assumes "distinct (map fst (resp_header resp))"
  shows "map_of (Headers resp) k =
      (case map_of (resp_header resp) k of
         Some (v # vs) \<Rightarrow> if \<exists>h \<in> set hopByHopHeaders. EqualFold h k then None else Some v
       | _ \<Rightarrow> None)
    \<and> map_of (Headers resp) ''Set-Cookie'' = None"
proof -
  have loop: "map_of (Headers_loop h) k =
      (case map_of h k of Some (v # vs) \<Rightarrow> if isHopByHop k then None else Some v | _ \<Rightarrow> None)"
    if "distinct (map fst h)" for h k
    using that
  proof (induction h rule: Headers_loop.induct)
    case 1
    then show ?case by simp
  next
    case (2 k' vals h)
    have "k \<notin> fst ` set h \<Longrightarrow> map_of h k = None" by (simp add: map_of_eq_None_iff)
    then show ?case using 2 by (cases vals) (auto split: option.splits list.splits)
  qed
  have "isHopByHop ''Set-Cookie''"
    using EqualFold_refl by (force simp: isHopByHop_def name_in_iff hopByHopHeaders_def)
  then show ?thesis
    using loop [OF assms, of k] loop [OF assms, of "''Set-Cookie''"]
    by (simp add: Headers_def isHopByHop_def name_in_iff split: option.split list.split)
qed

lemma Header_Get_Cons: "Header_Get ((c, v # vs) # h) k = (if CanonicalKey k = c then v else Header_Get h k)"
  by (simp add: Header_Get_def)

text \<open>
  Only the first \<open>Cache-Control\<close> line is looked at: whether a response is stored does not
  depend on further lines, so \<open>private\<close> or \<open>no-store\<close> on a second line does not keep a page out of the cache.
\<close>
theorem later_cache_control_ignored:
  "Cacheable p req \<lparr>resp_status = st, resp_header = (''Cache-Control'', v # vs) # h, resp_body = b\<rparr>
     = Cacheable p req \<lparr>resp_status = st, resp_header = (''Cache-Control'', [v]) # h, resp_body = b\<rparr>"
  by (simp add: Cacheable_def Header_Get_Cons Let_def)

section \<open>The banner\<close>

lemma drop_append_length: "drop (length a + Suc j) (a @ t) = drop j (drop 1 t)"
  by simp

lemma LastIndex_last:
  assumes "s = a @ t @ b" and "\<not> Contains (drop 1 (t @ b)) t"
  shows "LastIndex s t = Some (length a)"
proof -
  let ?P = "\<lambda>i. prefix t (drop i s)"
  have later: "\<not> ?P i" if i: "length a < i" for i
  proof
    assume p: "?P i"
    obtain j where j: "i = length a + Suc j" using less_imp_Suc_add [OF i] by auto
    have "drop i s = drop j (drop 1 (t @ b))"
      unfolding assms(1) j by (simp only: drop_append_length drop_drop)
    then obtain u where u: "drop j (drop 1 (t @ b)) = t @ u" using p by (auto simp: prefix_def)
    have "drop 1 (t @ b) = take j (drop 1 (t @ b)) @ drop j (drop 1 (t @ b))" by (rule append_take_drop_id [symmetric])
    then have "drop 1 (t @ b) = take j (drop 1 (t @ b)) @ t @ u" unfolding u .
    then show False using assms(2) unfolding Contains_def sublist_def by blast
  qed
  have "[0..<Suc (length s)] = [0..<length a] @ length a # [Suc (length a)..<Suc (length s)]"
    using assms(1) upt_add_eq_append [of 0 "length a" "Suc (length s) - length a"]
    by (simp add: upt_conv_Cons del: upt_Suc)
  then have "filter ?P (rev [0..<Suc (length s)]) = filter ?P (rev [Suc (length a)..<Suc (length s)])
      @ filter ?P [length a] @ filter ?P (rev [0..<length a])" by simp
  moreover have "filter ?P (rev [Suc (length a)..<Suc (length s)]) = []"
    using later by (auto simp: filter_empty_conv simp del: upt_Suc)
  moreover have "?P (length a)" using assms(1) by simp
  ultimately show ?thesis by (simp add: LastIndex_def del: upt_Suc)
qed

text \<open>
  The banner goes where it should on ASCII pages: with a last closing body tag, in any letter
  case, the page is unchanged except that the banner stands right before that tag; without one the
  banner is appended.
\<close>
theorem banner_before_closing_tag:
  assumes "ascii page" and "page = pre @ tag @ post" and "ToLower (pl_lower p) tag = ''</body>''"
    and "\<not> Contains (ToLower (pl_lower p) (drop 1 tag @ post)) ''</body>''"
  shows "InjectBanner p page t = Some (pre @ banner p t @ tag @ post)"
proof -
  have a: "ascii pre" "ascii tag" "ascii post" using assms(1,2) by auto
  have l: "ToLower (pl_lower p) page = ToLower (pl_lower p) pre @ ''</body>'' @ ToLower (pl_lower p) post"
    using a assms(2,3) by (simp add: ToLower_append_ascii)
  have tag: "length tag = 7" using assms(3) length_ToLower_ascii [OF a(2), of "pl_lower p"] by simp
  have "ToLower (pl_lower p) (drop 1 tag @ post) = drop 1 (''</body>'' @ ToLower (pl_lower p) post)"
  proof -
    have "ascii (drop 1 tag)" using a(2) by (auto simp: ascii_def list_all_iff dest: in_set_dropD)
    moreover have "ToLower (pl_lower p) (drop 1 tag) = drop 1 (ToLower (pl_lower p) tag)"
      using a(2) calculation by (simp add: ToLower_ascii drop_map)
    ultimately show ?thesis using a(3) assms(3) by (simp add: ToLower_append_ascii)
  qed
  then have "LastIndex (ToLower (pl_lower p) page) ''</body>'' = Some (length (ToLower (pl_lower p) pre))"
    using LastIndex_last [OF l] assms(4) by simp
  then have i: "LastIndex (ToLower (pl_lower p) page) ''</body>'' = Some (length pre)"
    using length_ToLower_ascii [OF a(1)] by simp
  have "take (length pre) page = pre" "drop (length pre) page = tag @ post" "\<not> length page < length pre"
    using assms(2) by simp_all
  then show ?thesis by (simp add: InjectBanner_def Let_def i)
qed

text \<open>Each byte \<open>0xE9\<close> (an accented letter in Latin-1) that no continuation byte follows is an invalid rune.\<close>

lemma chunks_latin1:
  assumes "\<not> is_cont (byte_at s 0)"
  shows "utf8_chunks (chr 233 # s) = (RuneError, [chr 233]) # utf8_chunks s"
proof -
  have "byte_at (chr 233 # s) 1 = byte_at s 0" by (simp add: byte_at_def)
  moreover have "byte_at (chr 233 # s) 0 = 233" by (simp add: byte_at_def)
  ultimately have "decode_rune (chr 233 # s) = (RuneError, 1)"
    using assms by (auto simp: decode_rune_def decode_nats_def is_cont_def)
  then show ?thesis by (subst utf8_chunks.simps) simp
qed

lemma decode_latin1:
  assumes "ascii t" and "t \<noteq> []"
  shows "utf8_decode (replicate n (chr 233) @ t) = replicate n RuneError @ map byte t"
proof (induction n)
  case 0
  then show ?case using assms(1) by (simp add: utf8_decode_ascii)
next
  case (Suc n)
  obtain c u where t: "t = c # u" using assms(2) by (cases t) auto
  have "\<not> is_cont (byte_at (replicate n (chr 233) @ t) 0)"
    using assms(1) t by (cases n) (auto simp: byte_at_def is_cont_def)
  from chunks_latin1 [OF this] show ?case using Suc by (simp add: utf8_decode_def)
qed

lemma utf8_encode_ascii: "ascii s \<Longrightarrow> utf8_encode (map byte s) = s"
  by (induction s) (auto simp: utf8_encode_def encode_rune_def Let_def)

text \<open>
  The banner is placed by an index into the lower-cased page, in which every invalid UTF-8 byte has
  become three bytes. On a Latin-1 page with four or more accented letters before its closing
  tag (and nothing after it) the index lies beyond the page and the slice panics, so the
  snapshot is never served.
\<close>
theorem banner_panics_on_latin1:
  assumes "pl_lower p RuneError = RuneError"
  shows "InjectBanner p (replicate (n + 4) (chr 233) @ ''</body>'') t = None"
proof -
  let ?page = "replicate (n + 4) (chr 233) @ ''</body>''"
  have "ascii ''</body>''" by code_simp
  then have d: "utf8_decode ?page = replicate (n + 4) RuneError @ map byte ''</body>''"
    using decode_latin1 [of "''</body>''" "n + 4"] by simp
  have "n + 4 = Suc (n + 3)" by simp
  then have "\<not> ascii ?page" by (simp only: replicate_Suc append_Cons ascii_simps) simp
  moreover have "lower_rune (pl_lower p) RuneError = RuneError"
    using assms by (simp add: lower_rune_def RuneError_def)
  moreover have "utf8_encode (map (lower_rune (pl_lower p)) (map byte ''</body>'')) = ''</body>''"
  proof -
    have "map (lower_rune (pl_lower p)) (map byte ''</body>'') = map byte ''</body>''"
      by (simp add: lower_rune_def lower_ascii_def)
    moreover have "utf8_encode (map byte ''</body>'') = ''</body>''" by (rule utf8_encode_ascii) simp
    ultimately show ?thesis by (simp only:)
  qed
  ultimately have l: "ToLower (pl_lower p) ?page = utf8_encode (replicate (n + 4) RuneError) @ ''</body>'' @ []"
    by (simp add: ToLower_def d utf8_encode_def)
  have len: "length (utf8_encode (replicate m RuneError)) = 3 * m" for m
    by (induction m) (simp_all add: utf8_encode_def encode_rune_def RuneError_def)
  have "\<not> Contains (drop 1 (''</body>'' @ [])) ''</body>''"
    by (auto simp: Contains_def dest: sublist_length_le)
  from LastIndex_last [OF l this] show ?thesis
    by (simp add: InjectBanner_def Let_def len)
qed

section \<open>Examples\<close>

definition demo_page :: bytes where
  "demo_page = ''<html><Body>hi</Body></html>''"

definition demo_response :: response where
  "demo_response = \<lparr>resp_status = 200,
     resp_header = [(''Content-Type'', [''text/html'']), (''Set-Cookie'', [''id=7'']), (''X-A'', [''1'', ''2''])],
     resp_body = \<lparr>body_data = demo_page, body_err = False\<rparr>\<rparr>"

theorem stored_headers_exactly_witness:
  "map_of (Headers demo_response) ''X-A'' = Some ''1'' \<and> map_of (Headers demo_response) ''Set-Cookie'' = None"
proof -
  have "distinct (map fst (resp_header demo_response))" by (simp add: demo_response_def)
  from stored_headers_exactly [OF this, of "''X-A''"]
  have "map_of (Headers demo_response) ''X-A'' = (if \<exists>h \<in> set hopByHopHeaders. EqualFold h ''X-A'' then None else Some ''1'')
      \<and> map_of (Headers demo_response) ''Set-Cookie'' = None"
    by (simp add: demo_response_def)
  moreover have "\<not> (\<exists>h \<in> set hopByHopHeaders. EqualFold h ''X-A'')"
    by (auto simp: hopByHopHeaders_def EqualFold_def utf8_decode_ascii)
  ultimately show ?thesis by simp
qed

theorem banner_before_closing_tag_witness:
  "InjectBanner demo_platform demo_page 0
     = Some (''<html><Body>hi'' @ banner demo_platform 0 @ ''</Body>'' @ ''</html>'')"
proof (rule banner_before_closing_tag)
  show "ascii demo_page" by code_simp
  show "demo_page = ''<html><Body>hi'' @ ''</Body>'' @ ''</html>''" by (simp add: demo_page_def)
  show "ToLower (pl_lower demo_platform) ''</Body>'' = ''</body>''" by (simp add: lower_eval)
  have l: "ToLower (pl_lower demo_platform) (drop 1 ''</Body>'' @ ''</html>'') = ''/body></html>''" by (simp add: lower_eval)
  show "\<not> Contains (ToLower (pl_lower demo_platform) (drop 1 ''</Body>'' @ ''</html>'')) ''</body>''" unfolding l by code_simp
qed

theorem banner_panics_on_latin1_witness:
  "InjectBanner demo_platform (replicate (0 + 4) (chr 233) @ ''</body>'') 0 = None"
  by (rule banner_panics_on_latin1) (simp add: demo_platform_def)

end
