(* ===== verification/ProtoWire.thy ===== *)
theory ProtoWire
  imports GoStruct Proto
begin

text \<open>
  The framing of \<open>internal/proto\<close>: a handshake message is one JSON value, written by an encoder with a newline after it and read
  by a decoder from a stream. A stream that times out or breaks is a body that ends with an error.
\<close>

section \<open>Messages\<close>

definition omitempty :: "bytes \<Rightarrow> bytes \<Rightarrow> (bytes \<times> json) list" where
  "omitempty key s = (if s = [] then [] else [(key, JStr s)])"

definition handshake_json :: "handshake \<Rightarrow> json" where
  "handshake_json hs =
     JObj ([(''version'', JInt (hs_version hs)), (''token'', JStr (hs_token hs))]
       @ omitempty ''subdomain'' (hs_subdomain hs)
       @ (if hs_rules hs = [] then [] else [(''buffer_rules'', JArr (map JStr (hs_rules hs)))]))"

definition read_handshake :: "json \<Rightarrow> handshake option" where
  "read_handshake v =
     (case object_of v of
        None \<Rightarrow> None
      | Some kvs \<Rightarrow>
          (case (int_field ''version'' kvs 0, string_field ''token'' kvs [], string_field ''subdomain'' kvs [],
                 strings_field ''buffer_rules'' kvs []) of
             (Some i, Some t, Some s, Some r) \<Rightarrow> Some \<lparr>hs_version = i, hs_token = t, hs_subdomain = s, hs_rules = r\<rparr>
           | _ \<Rightarrow> None))"

definition reply_json :: "handshake_reply \<Rightarrow> json" where
  "reply_json hr =
     JObj ([(''ok'', JBool (hr_ok hr))] @ omitempty ''error'' (hr_error hr)
       @ omitempty ''subdomain'' (hr_subdomain hr) @ omitempty ''public_url'' (hr_url hr))"

definition read_reply :: "json \<Rightarrow> handshake_reply option" where
  "read_reply v =
     (case object_of v of
        None \<Rightarrow> None
      | Some kvs \<Rightarrow>
          (case (bool_field ''ok'' kvs False, string_field ''error'' kvs [], string_field ''subdomain'' kvs [],
                 string_field ''public_url'' kvs []) of
             (Some ok, Some e, Some s, Some u) \<Rightarrow> Some \<lparr>hr_ok = ok, hr_error = e, hr_subdomain = s, hr_url = u\<rparr>
           | _ \<Rightarrow> None))"

definition WriteJSON :: "json \<Rightarrow> bytes" where
  "WriteJSON v = Encode v"

definition ReadJSON :: "(json \<Rightarrow> 'a option) \<Rightarrow> body \<Rightarrow> 'a option" where
  "ReadJSON rd b = Option.bind (Decode b) rd"

section \<open>Both ends agree\<close>

definition text_handshake :: "handshake \<Rightarrow> bool" where
  "text_handshake hs =
     (-(2 ^ 63) \<le> hs_version hs \<and> hs_version hs < 2 ^ 63 \<and> utf8_valid (hs_token hs) \<and> utf8_valid (hs_subdomain hs)
      \<and> list_all utf8_valid (hs_rules hs))"

definition text_reply :: "handshake_reply \<Rightarrow> bool" where
  "text_reply hr = (utf8_valid (hr_error hr) \<and> utf8_valid (hr_subdomain hr) \<and> utf8_valid (hr_url hr))"

lemma wire_keys:
  "selects ''version'' ''version'' \<and> \<not> selects ''version'' ''token'' \<and> \<not> selects ''version'' ''subdomain'' \<and> \<not> selects ''version'' ''buffer_rules''"
  "selects ''token'' ''token'' \<and> \<not> selects ''token'' ''version'' \<and> \<not> selects ''token'' ''subdomain'' \<and> \<not> selects ''token'' ''buffer_rules''"
  "selects ''subdomain'' ''subdomain'' \<and> \<not> selects ''subdomain'' ''token'' \<and> \<not> selects ''subdomain'' ''version'' \<and> \<not> selects ''subdomain'' ''buffer_rules''"
  "selects ''buffer_rules'' ''buffer_rules'' \<and> \<not> selects ''buffer_rules'' ''token'' \<and> \<not> selects ''buffer_rules'' ''version''
     \<and> \<not> selects ''buffer_rules'' ''subdomain''"
  "selects ''ok'' ''ok'' \<and> \<not> selects ''ok'' ''error'' \<and> \<not> selects ''ok'' ''subdomain'' \<and> \<not> selects ''ok'' ''public_url''"
  "selects ''error'' ''error'' \<and> \<not> selects ''error'' ''ok'' \<and> \<not> selects ''error'' ''subdomain'' \<and> \<not> selects ''error'' ''public_url''"
  "\<not> selects ''subdomain'' ''ok'' \<and> \<not> selects ''subdomain'' ''error'' \<and> \<not> selects ''subdomain'' ''public_url''"
  "selects ''public_url'' ''public_url'' \<and> \<not> selects ''public_url'' ''ok'' \<and> \<not> selects ''public_url'' ''error'' \<and> \<not> selects ''public_url'' ''subdomain''"
  by code_simp+

lemma utf8_keys: "utf8_valid ''version'' \<and> utf8_valid ''token'' \<and> utf8_valid ''subdomain'' \<and> utf8_valid ''buffer_rules''
    \<and> utf8_valid ''ok'' \<and> utf8_valid ''error'' \<and> utf8_valid ''public_url''"
  by code_simp

lemma read_handshake_json: "text_handshake hs \<Longrightarrow> read_handshake (handshake_json hs) = Some hs"
  by (simp add: read_handshake_def handshake_json_def object_of_def omitempty_def wire_keys text_handshake_def JInt_def
      ParseInt64_Itoa strings_into_JStr)

lemma read_reply_json: "read_reply (reply_json hr) = Some hr"
  by (simp add: read_reply_def reply_json_def object_of_def omitempty_def wire_keys)

lemma height_strings [simp]: "foldr (\<lambda>x. max (height x)) (map JStr ss) 0 \<le> 1"
  by (induction ss) simp_all

lemma height_strings_max: "foldr (\<lambda>x. max (height x)) (map JStr ss) 0 \<le> 9998"
  using height_strings [of ss] by linarith

lemma plain_handshake: "text_handshake hs \<Longrightarrow> plain_json (handshake_json hs) \<and> height (handshake_json hs) \<le> max_depth"
  by (auto simp: handshake_json_def omitempty_def text_handshake_def JInt_def utf8_keys max_depth_def list_all_iff height_strings_max)

lemma plain_reply: "text_reply hr \<Longrightarrow> plain_json (reply_json hr) \<and> height (reply_json hr) \<le> max_depth"
  by (simp add: reply_json_def omitempty_def text_reply_def utf8_keys max_depth_def)

text \<open>
  C28. Agent and server understand each other. A handshake or a reply whose texts are UTF-8 (and whose version is a machine
  integer) is read back exactly as it was written, whatever follows it on the stream.
\<close>
theorem handshake_round_trip:
  assumes "text_handshake hs" and "text_reply hr"
  shows "ReadJSON read_handshake \<lparr>body_data = WriteJSON (handshake_json hs) @ rest, body_err = e\<rparr> = Some hs
    \<and> ReadJSON read_reply \<lparr>body_data = WriteJSON (reply_json hr) @ rest', body_err = e'\<rparr> = Some hr"
  using plain_handshake [OF assms(1)] plain_reply [OF assms(2)] assms(1)
  by (simp add: ReadJSON_def WriteJSON_def Decode_Encode read_handshake_json read_reply_json)

definition demo_wire_hello :: handshake where
  "demo_wire_hello = \<lparr>hs_version = Version, hs_token = ''lu_72'', hs_subdomain = [], hs_rules = [''/hooks/*'']\<rparr>"

theorem handshake_round_trip_witness:
  "ReadJSON read_handshake \<lparr>body_data = WriteJSON (handshake_json demo_wire_hello), body_err = False\<rparr> = Some demo_wire_hello
   \<and> ReadJSON read_reply \<lparr>body_data = WriteJSON (reply_json (reject ''invalid token'')), body_err = True\<rparr> = Some (reject ''invalid token'')"
proof -
  have "utf8_valid ''lu_72'' \<and> utf8_valid [] \<and> utf8_valid ''/hooks/*'' \<and> utf8_valid ''invalid token''" by code_simp
  then have "text_handshake demo_wire_hello" "text_reply (reject ''invalid token'')"
    by (simp_all add: text_handshake_def demo_wire_hello_def Version_def text_reply_def reject_def)
  from handshake_round_trip [OF this, of "[]" False "[]" True] show ?thesis by simp
qed

end
