(* ===== verification/Agent.thy ===== *)
theory Agent
  imports ProtoWire Db
begin

text \<open>
  \<open>internal/agent\<close>: the client that keeps a tunnel up. \<open>Run\<close> connects again and again with a growing, randomised delay; a
  connection sends the handshake and then answers the streams the server opens from the local application. What the network, the
  local application and the clock do is given by records: \<open>attempt\<close> for one connection, \<open>local_app\<close> for one forwarded request,
  \<open>turn\<close> for one round of the loop.
\<close>

record agent_config =
  ac_server :: bytes
  ac_tls :: bool
  ac_token :: bytes
  ac_subdomain :: bytes
  ac_rules :: "bytes list"
  ac_local :: bytes

section \<open>One forwarded request\<close>

record local_app =
  la_dial_err :: "bytes option"
  la_write_err :: "bytes option"
  la_reply :: "bytes + response"
  la_buffered :: bytes        \<comment> \<open>bytes the application sent right after its response\<close>
  la_from_edge :: bytes       \<comment> \<open>what then comes from the edge until the first direction ends\<close>
  la_from_app :: bytes        \<comment> \<open>what then comes from the application\<close>

text \<open>
  What the agent writes to the stream before it closes it: nothing, a response, or for an upgrade the response and then bytes in both
  directions.
\<close>

datatype stream_reply = NoReply | Replied response | Joined response bytes bytes

definition badGateway :: response where
  "badGateway = \<lparr>resp_status = 502, resp_header = [(''Content-Type'', [''text/plain; charset=utf-8''])],
     resp_body = \<lparr>body_data = ''liveurl: could not reach local server'' @ [chr 10], body_err = False\<rparr>\<rparr>"

definition joinUpgrade :: "response \<Rightarrow> local_app \<Rightarrow> stream_reply" where
  "joinUpgrade resp la = Joined resp (la_from_edge la) (la_buffered la @ la_from_app la)"

text \<open>
  The request written in full to the local application, with the address dialled, and the answer on the stream.
\<close>

definition handleStream :: "bytes \<Rightarrow> request option \<Rightarrow> local_app \<Rightarrow> (bytes \<times> request) option \<times> stream_reply" where
  "handleStream localAddr rq la =
     (case rq of
        None \<Rightarrow> (None, NoReply)
      | Some r \<Rightarrow>
          if la_dial_err la \<noteq> None then (None, Replied badGateway)
          else if la_write_err la \<noteq> None then (None, Replied badGateway)
          else (Some (localAddr, r),
            (case la_reply la of
              Inl m \<Rightarrow> Replied badGateway
            | Inr resp \<Rightarrow> if resp_status resp = 101 then joinUpgrade resp la else Replied resp)))"

section \<open>One connection\<close>

record agent_lib =
  al_quote :: "bytes \<Rightarrow> bytes"         \<comment> \<open>the verb \<open>%q\<close>\<close>
  al_split_err :: "bytes \<Rightarrow> bytes"     \<comment> \<open>the message of \<open>net.SplitHostPort\<close>\<close>

record attempt =
  at_dial_err :: "bytes option"
  at_mux_err :: "bytes option"
  at_open_err :: "bytes option"
  at_write_err :: "bytes option"
  at_reply :: body
  at_read_err :: bytes
  at_streams :: "(request option \<times> local_app) list"

text \<open>What a connection did: the address dialled with the name expected of its certificate, the handshake sent, and for each stream what was
  forwarded to the local application and the answer given.\<close>

record conn_log =
  cl_dialled :: "(bytes \<times> bytes option) option"
  cl_hello :: "bytes option"
  cl_answers :: "((bytes \<times> request) option \<times> stream_reply) list"

definition hello_of :: "agent_config \<Rightarrow> handshake" where
  "hello_of cfg = \<lparr>hs_version = Version, hs_token = ac_token cfg, hs_subdomain = ac_subdomain cfg, hs_rules = ac_rules cfg\<rparr>"

definition acceptLoop :: "bytes \<Rightarrow> (request option \<times> local_app) list \<Rightarrow> ((bytes \<times> request) option \<times> stream_reply) list" where
  "acceptLoop localAddr streams = map (\<lambda>(rq, la). handleStream localAddr rq la) streams"

definition dial_target :: "agent_config \<Rightarrow> (bytes \<times> bytes option) option" where
  "dial_target cfg =
     (if ac_tls cfg then (case SplitHostPort (ac_server cfg) of None \<Rightarrow> None | Some (host, _) \<Rightarrow> Some (ac_server cfg, Some host))
      else Some (ac_server cfg, None))"

definition connectAndServe ::
  "agent_lib \<Rightarrow> agent_config \<Rightarrow> attempt \<Rightarrow> (bytes \<times> go_error option) \<times> conn_log" where
  "connectAndServe lib cfg att =
     (let none = \<lparr>cl_dialled = None, cl_hello = None, cl_answers = []\<rparr> in
      case dial_target cfg of
        None \<Rightarrow> (([], Some (Wrap (''invalid server address '' @ al_quote lib (ac_server cfg)) (ErrText (al_split_err lib (ac_server cfg))))), none)
      | Some target \<Rightarrow>
         (let l0 = none\<lparr>cl_dialled := Some target\<rparr> in
          case at_dial_err att of
            Some m \<Rightarrow> (([], Some (Wrap (''dial '' @ ac_server cfg) (ErrText m))), l0)
          | None \<Rightarrow>
         (case at_mux_err att of
            Some m \<Rightarrow> (([], Some (Wrap ''yamux client'' (ErrText m))), l0)
          | None \<Rightarrow>
         (case at_open_err att of
            Some m \<Rightarrow> (([], Some (Wrap ''open handshake stream'' (ErrText m))), l0)
          | None \<Rightarrow>
         (case at_write_err att of
            Some m \<Rightarrow> (([], Some (Wrap ''send handshake'' (ErrText m))), l0)
          | None \<Rightarrow>
             (let l1 = l0\<lparr>cl_hello := Some (WriteJSON (handshake_json (hello_of cfg)))\<rparr> in
              case ReadJSON read_reply (at_reply att) of
                None \<Rightarrow> (([], Some (Wrap ''read handshake reply'' (ErrText (at_read_err att)))), l1)
              | Some reply \<Rightarrow>
                  if \<not> hr_ok reply then (([], Some (Wrap ''server rejected handshake'' (ErrText (hr_error reply)))), l1)
                  else ((hr_url reply, None), l1\<lparr>cl_answers := acceptLoop (ac_local cfg) (at_streams att)\<rparr>)))))))"

section \<open>The loop\<close>

text \<open>Durations in nanoseconds.\<close>

definition minBackoff :: int where "minBackoff = 500 * 1000000"
definition maxBackoff :: int where "maxBackoff = 30 * 1000000000"

text \<open>\<open>rnd n\<close> is the draw of \<open>rand.Int63n(n)\<close>.\<close>

definition jitter :: "(int \<Rightarrow> int) \<Rightarrow> int \<Rightarrow> int" where
  "jitter rnd d = d div 2 + rnd (d div 2 + 1)"

text \<open>
  One round: whether the context is done before the connection, the connection, whether the context is done before the
  delay is over, and the random draw.
\<close>

record turn =
  tu_done :: bool
  tu_attempt :: attempt
  tu_done_waiting :: bool
  tu_rand :: "int \<Rightarrow> int"

datatype run_state = Returned | Waited int int   \<comment> \<open>the delay and the next backoff\<close>

definition run_turn :: "agent_lib \<Rightarrow> agent_config \<Rightarrow> int \<Rightarrow> turn \<Rightarrow> run_state" where
  "run_turn lib cfg backoff tu =
     (if tu_done tu then Returned
      else (case connectAndServe lib cfg (tu_attempt tu) of
         ((url, err), clog) \<Rightarrow>
           (let backoff = (if url \<noteq> [] then minBackoff else backoff) in
            if tu_done_waiting tu then Returned
            else (let next = backoff * 2 in
                  Waited (jitter (tu_rand tu) backoff) (if maxBackoff < next then maxBackoff else next)))))"

text \<open>The delays of the rounds until the loop returns; \<open>True\<close> when it has returned.\<close>

fun run_loop :: "agent_lib \<Rightarrow> agent_config \<Rightarrow> int \<Rightarrow> turn list \<Rightarrow> int list \<times> bool" where
  "run_loop lib cfg backoff [] = ([], False)"
| "run_loop lib cfg backoff (tu # tus) =
     (case run_turn lib cfg backoff tu of
        Returned \<Rightarrow> ([], True)
      | Waited delay next \<Rightarrow> (case run_loop lib cfg next tus of (delays, fin) \<Rightarrow> (delay # delays, fin)))"

definition Run :: "agent_lib \<Rightarrow> agent_config \<Rightarrow> turn list \<Rightarrow> int list \<times> bool" where
  "Run lib cfg turns = run_loop lib cfg minBackoff turns"

section \<open>The delays\<close>

definition backoff_level :: "nat \<Rightarrow> int" where
  "backoff_level j = min (minBackoff * 2 ^ j) maxBackoff"

definition healthy :: "agent_lib \<Rightarrow> agent_config \<Rightarrow> turn \<Rightarrow> bool" where
  "healthy lib cfg tu = (fst (fst (connectAndServe lib cfg (tu_attempt tu))) \<noteq> [])"

definition runs_on :: "turn \<Rightarrow> bool" where
  "runs_on tu = (\<not> tu_done tu \<and> \<not> tu_done_waiting tu \<and> (\<forall>n > 0. 0 \<le> tu_rand tu n \<and> tu_rand tu n < n))"

lemma jitter_bounds: "0 \<le> d \<Longrightarrow> (\<And>n. 0 < n \<Longrightarrow> 0 \<le> rnd n \<and> rnd n < n) \<Longrightarrow> d div 2 \<le> jitter rnd d \<and> jitter rnd d \<le> d"
proof -
  assume d: "0 \<le> d" and r: "\<And>n. 0 < n \<Longrightarrow> 0 \<le> rnd n \<and> rnd n < n"
  have "0 \<le> rnd (d div 2 + 1) \<and> rnd (d div 2 + 1) < d div 2 + 1" using d by (intro r) simp
  then show ?thesis unfolding jitter_def by linarith
qed

lemma backoff_level_0: "backoff_level 0 = minBackoff"
  by (simp add: backoff_level_def minBackoff_def maxBackoff_def)

lemma backoff_level_Suc: "min (backoff_level j * 2) maxBackoff = backoff_level (Suc j)"
proof -
  have "0 < maxBackoff" by (simp add: maxBackoff_def)
  then show ?thesis unfolding backoff_level_def power_Suc by linarith
qed

lemma backoff_level_range: "minBackoff \<le> backoff_level j \<and> backoff_level j \<le> maxBackoff"
proof -
  have "minBackoff * 1 \<le> minBackoff * 2 ^ j" by (rule mult_left_mono) (simp_all add: minBackoff_def)
  then show ?thesis by (simp add: backoff_level_def minBackoff_def maxBackoff_def)
qed

text \<open>A round at level \<open>j\<close> continues at the next level, or at the second after a healthy connection.\<close>

lemma run_turn_level:
  assumes "runs_on tu"
  obtains delay k where "run_turn lib cfg (backoff_level j) tu = Waited delay (backoff_level (Suc k))"
    and "k = (if healthy lib cfg tu then 0 else j)"
    and "backoff_level k div 2 \<le> delay" and "delay \<le> backoff_level k"
proof -
  let ?k = "if healthy lib cfg tu then 0 else j"
  have "run_turn lib cfg (backoff_level j) tu = Waited (jitter (tu_rand tu) (backoff_level ?k)) (min (backoff_level ?k * 2) maxBackoff)"
    using assms by (auto simp: run_turn_def runs_on_def healthy_def Let_def backoff_level_0 split: prod.splits)
  moreover have "backoff_level ?k div 2 \<le> jitter (tu_rand tu) (backoff_level ?k) \<and> jitter (tu_rand tu) (backoff_level ?k) \<le> backoff_level ?k"
    using assms backoff_level_range [of ?k] by (intro jitter_bounds) (auto simp: runs_on_def minBackoff_def)
  ultimately show thesis using that [of _ ?k] backoff_level_Suc by metis
qed

text \<open>The number of rounds since the last healthy connection, or since the start.\<close>

fun levels :: "agent_lib \<Rightarrow> agent_config \<Rightarrow> turn list \<Rightarrow> nat \<Rightarrow> nat list" where
  "levels lib cfg [] j = []"
| "levels lib cfg (tu # tus) j = (let k = (if healthy lib cfg tu then 0 else j) in k # levels lib cfg tus (Suc k))"

definition delay_ok :: "nat \<Rightarrow> int \<Rightarrow> bool" where
  "delay_ok k delay = (backoff_level k div 2 \<le> delay \<and> delay \<le> backoff_level k)"

lemma length_levels [simp]: "length (levels lib cfg turns j) = length turns"
  by (induction turns arbitrary: j) (simp_all add: Let_def)

lemma levels_append: "\<exists>k. levels lib cfg (a @ b) j = levels lib cfg a j @ levels lib cfg b k \<and> (a = [] \<longrightarrow> k = j)"
proof (induction a arbitrary: j)
  case (Cons t a)
  show ?case using Cons.IH [of "Suc (if healthy lib cfg t then 0 else j)"] by (auto simp: Let_def)
qed simp

lemma levels_failing: "list_all (\<lambda>t. \<not> healthy lib cfg t) fs \<Longrightarrow> levels lib cfg fs j = [j ..< j + length fs]"
  by (induction fs arbitrary: j) (auto simp: Let_def upt_rec)

lemma run_loop_levels:
  assumes "list_all runs_on turns"
  shows "list_all2 delay_ok (levels lib cfg turns j) (fst (run_loop lib cfg (backoff_level j) turns))"
  using assms
proof (induction turns arbitrary: j)
  case Nil
  then show ?case by simp
next
  case (Cons tu tus)
  then have "runs_on tu" by simp
  then obtain delay k where t: "run_turn lib cfg (backoff_level j) tu = Waited delay (backoff_level (Suc k))"
    "k = (if healthy lib cfg tu then 0 else j)" "backoff_level k div 2 \<le> delay" "delay \<le> backoff_level k"
    by (rule run_turn_level)
  have "levels lib cfg (tu # tus) j = k # levels lib cfg tus (Suc k)" using t(2) by (simp add: Let_def)
  moreover have "list_all2 delay_ok (levels lib cfg tus (Suc k)) (fst (run_loop lib cfg (backoff_level (Suc k)) tus))"
    using Cons.IH Cons.prems by simp
  moreover have "delay_ok k delay" using t(3,4) by (simp add: delay_ok_def)
  ultimately show ?case using t(1)
    by (cases "run_loop lib cfg (backoff_level (Suc k)) tus") (simp del: levels.simps)
qed

text \<open>
  C18. The reconnect delays. After the \<open>j\<close>-th round in a row since the start or since the last connection that got through the handshake,
  the agent waits at least half and at most all of \<open>min(500ms * 2^j, 30s)\<close>; so no delay is shorter than a quarter of
  a second or longer than thirty seconds, failures back off exponentially, and a connection that worked starts again at
  the shortest delay.
\<close>
theorem backoff_schedule:
  assumes "list_all runs_on (ts @ t # fs)" and "ts = [] \<or> healthy lib cfg t" and "list_all (\<lambda>f. \<not> healthy lib cfg f) fs"
    and "j \<le> length fs"
  shows "min (minBackoff * 2 ^ j) maxBackoff div 2 \<le> fst (Run lib cfg (ts @ t # fs)) ! (length ts + j)
    \<and> fst (Run lib cfg (ts @ t # fs)) ! (length ts + j) \<le> min (minBackoff * 2 ^ j) maxBackoff"
proof -
  have l2: "list_all2 delay_ok (levels lib cfg (ts @ t # fs) 0) (fst (Run lib cfg (ts @ t # fs)))"
    using run_loop_levels [OF assms(1), of lib cfg 0] by (simp add: Run_def backoff_level_0)
  obtain k where k: "levels lib cfg (ts @ t # fs) 0 = levels lib cfg ts 0 @ levels lib cfg (t # fs) k" "ts = [] \<longrightarrow> k = 0"
    using levels_append [of lib cfg ts "t # fs" 0] by blast
  have "levels lib cfg (t # fs) k = [0 ..< Suc (length fs)]"
    using assms(2) k(2) levels_failing [OF assms(3), of 1] upt_conv_Cons [of 0 "Suc (length fs)"]
    by (auto simp: Let_def simp del: upt_Suc)
  then have "levels lib cfg (ts @ t # fs) 0 ! (length ts + j) = j" using assms(4) k(1) by (simp add: nth_append del: upt_Suc)
  moreover have "delay_ok (levels lib cfg (ts @ t # fs) 0 ! (length ts + j)) (fst (Run lib cfg (ts @ t # fs)) ! (length ts + j))"
    using list_all2_nthD [OF l2, of "length ts + j"] assms(4) by simp
  ultimately show ?thesis by (simp add: delay_ok_def backoff_level_def)
qed

lemma run_turn_returned: "run_turn lib cfg b tu = Returned \<longleftrightarrow> tu_done tu \<or> tu_done_waiting tu"
  by (auto simp: run_turn_def Let_def split: prod.split)

text \<open>
  C38. The agent never gives up. Whatever its connections do, \<open>Run\<close> goes on until its context is cancelled, and then returns in the very
  round in which that is seen; it has waited once for every round before.
\<close>
theorem runs_until_cancelled:
  "snd (Run lib cfg turns) = list_ex (\<lambda>tu. tu_done tu \<or> tu_done_waiting tu) turns
   \<and> length (fst (Run lib cfg turns)) = length (takeWhile (\<lambda>tu. \<not> (tu_done tu \<or> tu_done_waiting tu)) turns)"
proof -
  have "snd (run_loop lib cfg b turns) = list_ex (\<lambda>tu. tu_done tu \<or> tu_done_waiting tu) turns
      \<and> length (fst (run_loop lib cfg b turns)) = length (takeWhile (\<lambda>tu. \<not> (tu_done tu \<or> tu_done_waiting tu)) turns)" for b
  proof (induction turns arbitrary: b)
    case Nil
    then show ?case by simp
  next
    case (Cons tu tus)
    show ?case
    proof (cases "run_turn lib cfg b tu")
      case Returned
      then show ?thesis using run_turn_returned [of lib cfg b tu] by auto
    next
      case (Waited delay nx)
      then have "\<not> (tu_done tu \<or> tu_done_waiting tu)" using run_turn_returned [of lib cfg b tu] by auto
      then show ?thesis using Waited Cons.IH [of nx] by (auto split: prod.split)
    qed
  qed
  then show ?thesis by (simp add: Run_def)
qed

text \<open>
  Every request that arrives is answered. A forwarded request gets the local application's own response; if the
  application cannot be reached, cannot be written to or sends no response, it gets a 502 with a plain-text explanation.
\<close>
theorem every_request_is_answered:
  "snd (handleStream localAddr (Some r) la) =
     (if la_dial_err la = None \<and> la_write_err la = None \<and> \<not> isl (la_reply la) then
        (if resp_status (projr (la_reply la)) = 101 then Joined (projr (la_reply la)) (la_from_edge la) (la_buffered la @ la_from_app la)
         else Replied (projr (la_reply la)))
      else Replied badGateway)
   \<and> resp_status badGateway = 502"
  by (cases "la_reply la") (simp_all add: handleStream_def joinUpgrade_def badGateway_def)

text \<open>Three connections are refused.\<close>

definition demo_agent_lib :: agent_lib where
  "demo_agent_lib = \<lparr>al_quote = id, al_split_err = id\<rparr>"

definition demo_agent_config :: agent_config where
  "demo_agent_config = \<lparr>ac_server = ''127.0.0.1:4443'', ac_tls = False, ac_token = ''lu_72'', ac_subdomain = ''myapp'',
     ac_rules = [''/hooks/*''], ac_local = ''127.0.0.1:3000''\<rparr>"

definition demo_refused :: turn where
  "demo_refused = \<lparr>tu_done = False,
     tu_attempt = \<lparr>at_dial_err = Some ''connection refused'', at_mux_err = None, at_open_err = None, at_write_err = None,
       at_reply = \<lparr>body_data = [], body_err = False\<rparr>, at_read_err = [], at_streams = []\<rparr>,
     tu_done_waiting = False, tu_rand = (\<lambda>n. n - 1)\<rparr>"

theorem backoff_schedule_witness:
  "1000000000 \<le> fst (Run demo_agent_lib demo_agent_config [demo_refused, demo_refused, demo_refused]) ! 2
   \<and> fst (Run demo_agent_lib demo_agent_config [demo_refused, demo_refused, demo_refused]) ! 2 \<le> 2000000000"
proof -
  have "runs_on demo_refused" by (simp add: runs_on_def demo_refused_def)
  moreover have "\<not> healthy demo_agent_lib demo_agent_config demo_refused"
    by (simp add: healthy_def connectAndServe_def dial_target_def demo_refused_def demo_agent_config_def Let_def)
  ultimately show ?thesis
    using backoff_schedule [of "[]" demo_refused "[demo_refused, demo_refused]" demo_agent_lib demo_agent_config 2]
    by (simp add: minBackoff_def maxBackoff_def numeral_2_eq_2)
qed

end
