(* ===== verification/DemoApp.thy ===== *)
theory DemoApp
  imports AppConfig PageCache Agent
begin

text \<open>
  \<open>examples/demoapp/main.go\<close>: the small site the tunnel is tried out with, two pages, a style sheet and two webhook endpoints. What it
  logs is not modelled, nor is the indentation of a JSON body that only goes to the log.
\<close>

section \<open>The pages\<close>

definition quoted :: "bytes \<Rightarrow> bytes" where
  "quoted s = [CHR 0x22] @ s @ [CHR 0x22]"

fun text_lines :: "bytes list \<Rightarrow> bytes" where
  "text_lines [] = []"
| "text_lines [l] = l"
| "text_lines (l # ls) = l @ [chr 10] @ text_lines ls"

definition indexHTML :: bytes where
  "indexHTML = text_lines
     [''<!doctype html><html><head><title>demoapp</title>'',
      ''<link rel='' @ quoted ''stylesheet'' @ '' href='' @ quoted ''/style.css'' @ ''></head>'',
      ''<body>'',
      ''<h1>liveurl demo app</h1>'',
      ''<p>If you can see this through your tunnel, the live proxy path works.</p>'',
      ''<p><a href='' @ quoted ''/about'' @ ''>about page</a></p>'',
      ''<script>console.log('' @ quoted ''demoapp loaded'' @ '')</script>'',
      ''</body></html>'']"

definition aboutHTML :: bytes where
  "aboutHTML = text_lines
     [''<!doctype html><html><head><title>about '' @ [CHR 0xE2, CHR 0x80, CHR 0x94] @ '' demoapp</title>'',
      ''<link rel='' @ quoted ''stylesheet'' @ '' href='' @ quoted ''/style.css'' @ ''></head>'',
      ''<body><h1>About</h1><p>Second page, for testing multi-page snapshots.</p>'',
      ''<p><a href='' @ quoted ''/'' @ ''>home</a></p></body></html>'']"

definition styleCSS :: bytes where
  "styleCSS = ''body{font-family:system-ui,sans-serif;max-width:40rem;margin:3rem auto;padding:0 1rem}''"

section \<open>The handlers\<close>

definition demo_addr :: "environ \<Rightarrow> bytes" where
  "demo_addr env = (let port = (if env ''PORT'' \<noteq> [] then env ''PORT'' else ''3000'') in ''127.0.0.1:'' @ port)"

definition demo_page :: "bytes \<Rightarrow> bytes \<Rightarrow> request \<Rightarrow> writer \<Rightarrow> writer" where
  "demo_page ctype page r w = Write page (w_set ''Content-Type'' ctype w)"

definition demo_index :: "request \<Rightarrow> writer \<Rightarrow> writer" where
  "demo_index = demo_page ''text/html; charset=utf-8'' indexHTML"

definition demo_about :: "request \<Rightarrow> writer \<Rightarrow> writer" where
  "demo_about = demo_page ''text/html; charset=utf-8'' aboutHTML"

definition demo_style :: "request \<Rightarrow> writer \<Rightarrow> writer" where
  "demo_style = demo_page ''text/css; charset=utf-8'' styleCSS"

text \<open>The body is read, its error ignored, and logged.\<close>

definition demo_stripe :: "request \<Rightarrow> writer \<Rightarrow> writer" where
  "demo_stripe r w = Write (''ok'' @ [chr 10]) (WriteHeader 200 w)"

definition demo_fail :: "request \<Rightarrow> writer \<Rightarrow> writer" where
  "demo_fail r w = http_Error ''boom'' 500 w"

definition demo_routes :: "(request \<Rightarrow> writer \<Rightarrow> writer) pattern list" where
  "demo_routes =
     [(''GET'', [Lit []], demo_index),
      (''GET'', [Lit ''about''], demo_about),
      (''GET'', [Lit ''style.css''], demo_style),
      (''POST'', [Lit ''webhooks'', Lit ''stripe''], demo_stripe),
      (''POST'', [Lit ''webhooks'', Lit ''fail''], demo_fail)]"

definition demo_serve :: "request \<Rightarrow> writer \<Rightarrow> writer" where
  "demo_serve r w =
     (case mux demo_routes r of
        MovedTo url \<Rightarrow> answer_moved url r w
      | BadMethod ms \<Rightarrow> answer_bad_method ms w
      | NoRoute \<Rightarrow> answer_no_route w
      | Handled h vs \<Rightarrow> h r w)"

text \<open>
  The application as the agent sees it: reachable, and answering with what its handler leaves in the writer, completed by \<open>net/http\<close>
  and read by \<open>http.ReadResponse\<close>, which takes the transfer encoding out of the header.
\<close>

definition written :: "net_http \<Rightarrow> writer \<Rightarrow> response" where
  "written net w = \<lparr>resp_status = client_status w,
     resp_header = filter (\<lambda>(k, vs). k \<noteq> ''Transfer-Encoding'') (client_header net w),
     resp_body = \<lparr>body_data = w_out w, body_err = False\<rparr>\<rparr>"

definition demo_application :: "net_http \<Rightarrow> request \<Rightarrow> local_app" where
  "demo_application net r = \<lparr>la_dial_err = None, la_write_err = None, la_reply = Inr (written net (demo_serve r new_writer)),
     la_buffered = [], la_from_edge = [], la_from_app = []\<rparr>"

definition demo_net :: net_http where
  "demo_net = \<lparr>nh_sniff = (\<lambda>b. ''text/plain; charset=utf-8''), nh_date = ''Sat, 01 Aug 2026 12:00:00 GMT'',
     nh_framing = [(''Connection'', [''keep-alive''])]\<rparr>"

section \<open>What it answers\<close>

lemma escaped_plain: "req_rawpath r = [] \<Longrightarrow> req_path r \<noteq> ''*'' \<Longrightarrow> EscapedPath r = escape_path (req_path r)"
  by (simp add: EscapedPath_def)

lemma demo_paths:
  "escape_path ''/'' = ''/''" "escape_path ''/about'' = ''/about''" "escape_path ''/style.css'' = ''/style.css''"
  "escape_path ''/webhooks/stripe'' = ''/webhooks/stripe''" "escape_path ''/webhooks/fail'' = ''/webhooks/fail''"
  "cleanPath ''/'' = ''/''" "cleanPath ''/about'' = ''/about''" "cleanPath ''/style.css'' = ''/style.css''"
  "cleanPath ''/webhooks/stripe'' = ''/webhooks/stripe''" "cleanPath ''/webhooks/fail'' = ''/webhooks/fail''"
  "path_segments ''/'' = [[]]" "path_segments ''/about'' = [''about'']" "path_segments ''/style.css'' = [''style.css'']"
  "path_segments ''/webhooks/stripe'' = [''webhooks'', ''stripe'']" "path_segments ''/webhooks/fail'' = [''webhooks'', ''fail'']"
  "unescape_segment [] = []" "unescape_segment ''about'' = ''about''" "unescape_segment ''style.css'' = ''style.css''"
  "unescape_segment ''webhooks'' = ''webhooks''" "unescape_segment ''stripe'' = ''stripe''" "unescape_segment ''fail'' = ''fail''"
  by code_simp+

lemma demo_served:
  assumes "req_rawpath r = []"
  shows "req_method r = ''GET'' \<Longrightarrow> req_path r = ''/'' \<Longrightarrow> demo_serve r w = demo_index r w"
    and "req_method r = ''GET'' \<Longrightarrow> req_path r = ''/about'' \<Longrightarrow> demo_serve r w = demo_about r w"
    and "req_method r = ''GET'' \<Longrightarrow> req_path r = ''/style.css'' \<Longrightarrow> demo_serve r w = demo_style r w"
    and "req_method r = ''POST'' \<Longrightarrow> req_path r = ''/webhooks/stripe'' \<Longrightarrow> demo_serve r w = demo_stripe r w"
    and "req_method r = ''POST'' \<Longrightarrow> req_path r = ''/webhooks/fail'' \<Longrightarrow> demo_serve r w = demo_fail r w"
  using assms by (simp_all add: demo_serve_def mux_def escaped_plain demo_paths demo_routes_def Let_def)

lemma demo_headers:
  "Header_Get (Header_Set ''Content-Type'' v []) ''Content-Type'' = v" "Header_Get (Header_Set ''Content-Type'' v []) ''Set-Cookie'' = []"
  "Header_Get (Header_Set ''Content-Type'' v []) ''Cache-Control'' = []"
proof -
  have "CanonicalKey ''Content-Type'' \<noteq> CanonicalKey ''Set-Cookie''" "CanonicalKey ''Content-Type'' \<noteq> CanonicalKey ''Cache-Control''"
    by code_simp+
  then show "Header_Get (Header_Set ''Content-Type'' v []) ''Content-Type'' = v" "Header_Get (Header_Set ''Content-Type'' v []) ''Set-Cookie'' = []"
    "Header_Get (Header_Set ''Content-Type'' v []) ''Cache-Control'' = []"
    by (simp_all add: Header_Get_Set) (simp_all add: Header_Get_def)
qed

lemma demo_page_written:
  "resp_status (written net (demo_page ct page r new_writer)) = 200"
  "resp_body (written net (demo_page ct page r new_writer)) = \<lparr>body_data = page, body_err = False\<rparr>"
  "handler_header (demo_page ct page r new_writer) = Header_Set ''Content-Type'' ct []"
  by (simp_all add: written_def demo_page_def new_writer_def client_status_def handler_header_def)

lemma demo_page_headers:
  assumes "ct \<noteq> []"
  shows "Header_Get (resp_header (written net (demo_page ct page r new_writer))) ''Content-Type'' = ct"
    and "Header_Get (resp_header (written net (demo_page ct page r new_writer))) ''Set-Cookie'' = []"
    and "Header_Get (resp_header (written net (demo_page ct page r new_writer))) ''Cache-Control'' = []"
proof -
  let ?w = "demo_page ct page r new_writer"
  have c: "CanonicalKey ''Content-Type'' = ''Content-Type''" "CanonicalKey ''Set-Cookie'' = ''Set-Cookie''"
    "CanonicalKey ''Cache-Control'' = ''Cache-Control''" by code_simp+
  have st: "client_status ?w = 200" using demo_page_written(1) [of undefined ct page r] by (simp add: written_def)
  have f: "map_of (resp_header (written net ?w)) k = map_of (client_header net ?w) k" if "k \<noteq> ''Transfer-Encoding''" for k
    using that by (simp add: written_def map_of_filter_key [where P = "\<lambda>k. k \<noteq> ''Transfer-Encoding''"])
  have "Header_Get (client_header net ?w) ''Content-Type'' = ct"
    using demo_page_written(3) demo_headers(1) assms st c by (intro client_keeps) (simp_all add: dropped_names_def body_allowed_def)
  then show "Header_Get (resp_header (written net ?w)) ''Content-Type'' = ct" using f c by (simp add: Header_Get_def)
  have n: "k \<notin> fst ` set (client_header net ?w)" if "k \<noteq> ''Content-Type''" "k \<notin> set net_names" for k
    using that demo_page_written(3) c by (intro client_header_absent) (simp_all add: Header_Set_def)
  have "map_of (client_header net ?w) ''Set-Cookie'' = None" "map_of (client_header net ?w) ''Cache-Control'' = None"
    using n [of "''Set-Cookie''"] n [of "''Cache-Control''"] by (simp_all add: net_names_def map_of_eq_None_iff)
  then show "Header_Get (resp_header (written net ?w)) ''Set-Cookie'' = []" "Header_Get (resp_header (written net ?w)) ''Cache-Control'' = []"
    using f c by (simp_all add: Header_Get_def)
qed

lemma demo_types:
  "any_prefix cacheableContentTypePrefixes (ToLower lo ''text/html; charset=utf-8'')"
  "any_prefix cacheableContentTypePrefixes (ToLower lo ''text/css; charset=utf-8'')"
  "\<not> Contains (ToLower lo []) ''private''" "\<not> Contains (ToLower lo []) ''no-store''"
proof -
  have l: "ToLower lo ''text/html; charset=utf-8'' = ''text/html; charset=utf-8''" "ToLower lo ''text/css; charset=utf-8'' = ''text/css; charset=utf-8''"
    "ToLower lo [] = []"
    by (simp_all add: lower_eval)
  show "any_prefix cacheableContentTypePrefixes (ToLower lo ''text/html; charset=utf-8'')"
    "any_prefix cacheableContentTypePrefixes (ToLower lo ''text/css; charset=utf-8'')"
    "\<not> Contains (ToLower lo []) ''private''" "\<not> Contains (ToLower lo []) ''no-store''"
    unfolding l by code_simp+
qed

text \<open>Its pages are made for the cache: each is kept when it is fetched through the tunnel without cookies or credentials.\<close>

lemma demo_pages_are_cacheable:
  assumes "req_method r = ''GET''" and "req_path r \<in> {''/'', ''/about'', ''/style.css''}" and "req_rawpath r = []"
    and "Header_Get (req_header r) ''Cookie'' = []" and "Header_Get (req_header r) ''Authorization'' = []"
  shows "Cacheable p r (written net (demo_serve r new_writer))"
proof -
  have "Cacheable p r (written net (demo_page ct page r new_writer))"
    if "any_prefix cacheableContentTypePrefixes (ToLower (pl_lower p) ct)" and "ct \<noteq> []" for ct page
    using assms(1,4,5) that demo_types(3,4) [of "pl_lower p"] by (simp add: Cacheable_def demo_page_written demo_page_headers Let_def)
  then show ?thesis using assms(1,2) demo_served(1-3) [OF assms(3)] demo_types(1,2) [of "pl_lower p"]
    by (auto simp: demo_index_def demo_about_def demo_style_def)
qed

lemma demo_hooks:
  assumes "req_method r = ''POST''" and "req_rawpath r = []"
  shows "req_path r = ''/webhooks/stripe'' \<Longrightarrow> resp_status (written net (demo_serve r new_writer)) = 200"
    and "req_path r = ''/webhooks/fail'' \<Longrightarrow> resp_status (written net (demo_serve r new_writer)) = 500"
  using assms demo_served [OF assms(2)]
  by (simp_all add: written_def demo_stripe_def demo_fail_def client_status_def new_writer_def)

end
