(* ===== verification/AppReplay.thy ===== *)
theory AppReplay
  imports ReplayRuns DemoApp
begin

text \<open>
  The replay seen from the local application: the edge drains a queue over the session, and at the other end \<open>handleStream\<close> of
  \<open>internal/agent/stream.go\<close> passes each request on to the application. What the edge reads from a stream is
  what the agent writes to it.
\<close>

section \<open>The edge and the agent together\<close>

text \<open>The outcome of one stream: the edge reads the status of the response the agent has written, or the end of the stream.\<close>

definition agent_outcome :: "bytes \<Rightarrow> (request \<Rightarrow> local_app) \<Rightarrow> request \<Rightarrow> stream_outcome" where
  "agent_outcome addr app r =
     (case snd (handleStream addr (Some r) (app r)) of
        NoReply \<Rightarrow> ReadFails ''EOF''
      | Replied resp \<Rightarrow> Responds (resp_status resp)
      | Joined resp down up \<Rightarrow> Responds (resp_status resp))"

text \<open>
  The session of an agent with such an application, during the replay of a list of events; and what the agent has written in full
  to the application, with the address it dialled, for the requests the edge has sent over the session.
\<close>

definition agent_link :: "bytes \<Rightarrow> (request \<Rightarrow> local_app) \<Rightarrow> event list \<Rightarrow> link" where
  "agent_link addr app es = \<lparr>lk_script = map (agent_outcome addr app \<circ> buildRequest) es, lk_sent = []\<rparr>"

definition agent_reconnect :: "bytes \<Rightarrow> (request \<Rightarrow> local_app) \<Rightarrow> int \<Rightarrow> db \<Rightarrow> link \<times> db" where
  "agent_reconnect addr app tid d = Drain tid (agent_link addr app (queue tid d), d)"

definition app_received :: "bytes \<Rightarrow> (request \<Rightarrow> local_app) \<Rightarrow> link \<Rightarrow> (bytes \<times> request) list" where
  "app_received addr app lk = List.map_filter (\<lambda>r. fst (handleStream addr (Some r) (app r))) (lk_sent lk)"

text \<open>The application is there, accepts the request and answers it; the status it answers with.\<close>

definition app_status :: "(request \<Rightarrow> local_app) \<Rightarrow> request \<Rightarrow> int option" where
  "app_status app r =
     (if la_dial_err (app r) = None \<and> la_write_err (app r) = None
      then (case la_reply (app r) of Inl m \<Rightarrow> None | Inr resp \<Rightarrow> Some (resp_status resp)) else None)"

lemma agent_outcome_status: "agent_outcome addr app r = Responds (case app_status app r of None \<Rightarrow> 502 | Some st \<Rightarrow> st)"
  by (auto simp: agent_outcome_def app_status_def handleStream_def joinUpgrade_def badGateway_def split: sum.split)

lemma map_filter_map: "(\<And>x. x \<in> set xs \<Longrightarrow> f (g x) = Some (h x)) \<Longrightarrow> List.map_filter f (map g xs) = map h xs"
  by (induction xs) (simp_all add: List.map_filter_simps)

lemma handled_is_forwarded: "app_status app r \<noteq> None \<Longrightarrow> fst (handleStream addr (Some r) (app r)) = Some (addr, r)"
  by (auto simp: app_status_def handleStream_def split: if_splits)

text \<open>
  C6. Buffered webhooks reach the application. When the agent connects while the database answers, and its local application answers every
  buffered webhook of the tunnel, each with a status below 500, then what the agent writes to the application, at the configured address,
  is exactly the buffered webhooks in the order of the queue, each once and none left out; each is recorded as delivered
  with the status the application gave, and the queue is empty.
\<close>
theorem queue_reaches_the_application:
  assumes "db_outcomes d = []" and "db_wf d" and "tid \<noteq> 0"
    and "list_all (\<lambda>e. app_status app (buildRequest e) = Some (st e) \<and> st e < 500) (queue tid d)"
    and "agent_reconnect addr app tid d = (lk, d')"
  shows "app_received addr app lk = map (\<lambda>e. (addr, buildRequest e)) (queue tid d) \<and> queue tid d' = []
    \<and> list_all (\<lambda>e. set_delivered (st e) (db_now d) e \<in> set (db_events d')) (queue tid d)"
proof -
  let ?q = "queue tid d"
  have script: "lk_script (agent_link addr app ?q) = map Responds (map st ?q) @ []"
    using assms(4) by (auto simp: agent_link_def agent_outcome_status list_all_iff)
  have below: "list_all (\<lambda>c. c < 500) (map st ?q)" using assms(4) by (auto simp: list_all_iff)
  have "Drain tid (agent_link addr app ?q, d) = (lk, d')" using assms(5) by (simp add: agent_reconnect_def)
  from drain_all [OF assms(1-3) _ below script this]
  have sent: "lk_sent lk = map buildRequest ?q" and "queue tid d' = []"
    and "\<forall>(e, c) \<in> set (zip ?q (map st ?q)). set_delivered c (db_now d) e \<in> set (db_events d')"
    by (simp_all add: agent_link_def)
  moreover have "app_received addr app lk = map (\<lambda>e. (addr, buildRequest e)) ?q"
    unfolding app_received_def sent using assms(4) by (intro map_filter_map handled_is_forwarded) (auto simp: list_all_iff)
  moreover have "(e, st e) \<in> set (zip ?q (map st ?q))" if "e \<in> set ?q" for e
    using that by (auto simp: in_set_zip in_set_conv_nth)
  ultimately show ?thesis by (fastforce simp: list_all_iff)
qed

section \<open>An application that is not there\<close>

lemma reconnect_without_app:
  assumes "db_outcomes d = []" and "db_wf d" and "tid \<noteq> 0" and "queue tid d = e # es" and "\<forall>r. app_status app r = None"
  shows "snd (agent_reconnect addr app tid d) = reconnect tid 502 d"
  using drain_first_fails [OF assms(1-4), of 502 "agent_link addr app (queue tid d)"] assms(4,5)
  by (simp add: agent_reconnect_def agent_link_def agent_outcome_status)

text \<open>
  Webhooks die without ever reaching the application. When the agent runs but the local application is not there, each connection of the agent
  uses up one attempt of the webhook at the head of the queue: the agent answers 502 on the application's
  behalf, and the edge takes that for the application's own failure. The fifth connection marks the webhook dead,
  although no application has seen it, and the next webhook takes its place.
\<close>
theorem absent_application_kills_webhooks:
  assumes "db_outcomes d = []" and "db_wf d" and "tid \<noteq> 0" and "queue tid d = e # es" and "ev_attempts e = 0"
    and "\<forall>r. la_dial_err (app r) \<noteq> None"
  shows "queue tid (((\<lambda>d. snd (agent_reconnect addr app tid d)) ^^ 5) d) = es
    \<and> (\<exists>x \<in> set (db_events (((\<lambda>d. snd (agent_reconnect addr app tid d)) ^^ 5) d)).
        ev_id x = ev_id e \<and> ev_state x = EventDead \<and> ev_attempts x = 5 \<and> ev_last_status x = 502)"
proof -
  let ?step = "\<lambda>d. snd (agent_reconnect addr app tid d)" and ?five = "replicate 5 (502::int)"
  have none: "\<forall>r. app_status app r = None" using assms(6) unfolding app_status_def by metis
  have steps: "(?step ^^ k) d = fold (reconnect tid) (replicate k 502) d" if "k \<le> 5" for k
    using that
  proof (induction k)
    case (Suc k)
    have "queue tid (fold (reconnect tid) (replicate k 502) d) = fold set_failed (replicate k 502) e # es
        \<and> db_outcomes (fold (reconnect tid) (replicate k 502) d) = [] \<and> db_wf (fold (reconnect tid) (replicate k 502) d)"
      using failing_reconnects [OF assms(1-4), of "replicate k 502"] Suc.prems assms(5) by (simp add: max_attempts_def list_all_iff)
    then have "?step (fold (reconnect tid) (replicate k 502) d) = reconnect tid 502 (fold (reconnect tid) (replicate k 502) d)"
      using reconnect_without_app [OF _ _ assms(3) _ none] by blast
    then show ?case using Suc by (simp add: replicate_append_same [symmetric] del: replicate_Suc)
  qed simp
  show ?thesis using steps [of 5] failing_head_dies [OF assms(1-5), of ?five] by (simp add: list_all_iff)
qed

section \<open>The demo application at the end of the line\<close>

text \<open>It has no handler for the two webhooks of the example queue; its 404 counts as delivered.\<close>

lemma demo_ways:
  "escape_path ''/a'' = ''/a''" "escape_path ''/b'' = ''/b''" "cleanPath ''/a'' = ''/a''" "cleanPath ''/b'' = ''/b''"
  "path_segments ''/a'' = [''a'']" "path_segments ''/b'' = [''b'']" "unescape_segment ''a'' = ''a''" "unescape_segment ''b'' = ''b''"
  by code_simp+

lemma demo_status:
  "app_status (demo_application net) (buildRequest demo_event1) = Some 404" "app_status (demo_application net) (buildRequest demo_event2) = Some 404"
proof -
  have m: "mux demo_routes (buildRequest demo_event1) = NoRoute" "mux demo_routes (buildRequest demo_event2) = NoRoute"
    by (simp_all add: mux_def EscapedPath_def buildRequest_def demo_event1_def demo_event2_def stored_event_def demo_ways demo_routes_def Let_def)
  show "app_status (demo_application net) (buildRequest demo_event1) = Some 404" "app_status (demo_application net) (buildRequest demo_event2) = Some 404"
    by (simp_all add: app_status_def demo_application_def written_def demo_serve_def m answer_no_route_def new_writer_def)
qed

theorem queue_reaches_the_application_witness:
  "app_received ''127.0.0.1:3000'' (demo_application demo_net) (fst (agent_reconnect ''127.0.0.1:3000'' (demo_application demo_net) 1 demo_queue_db))
     = [(''127.0.0.1:3000'', buildRequest demo_event1), (''127.0.0.1:3000'', buildRequest demo_event2)]
    \<and> set_delivered 404 (db_now demo_queue_db) demo_event1
        \<in> set (db_events (snd (agent_reconnect ''127.0.0.1:3000'' (demo_application demo_net) 1 demo_queue_db)))"
proof -
  obtain lk d where r: "agent_reconnect ''127.0.0.1:3000'' (demo_application demo_net) 1 demo_queue_db = (lk, d)" by fastforce
  show ?thesis
    using queue_reaches_the_application [OF demo_queue_db_quiet demo_queue_db_wf _ _ r, of "\<lambda>e. 404"] demo_status by (simp add: r demo_queue)
qed

theorem absent_application_kills_webhooks_witness:
  "queue 1 (((\<lambda>d. snd (agent_reconnect ''127.0.0.1:3000'' (\<lambda>r. (demo_application demo_net r)\<lparr>la_dial_err := Some ''connection refused''\<rparr>) 1 d)) ^^ 5) demo_queue_db)
     = [demo_event2]"
  using absent_application_kills_webhooks [OF demo_queue_db_quiet demo_queue_db_wf _ demo_head,
      of "\<lambda>r. (demo_application demo_net r)\<lparr>la_dial_err := Some ''connection refused''\<rparr>"]
  by (simp add: demo_event1_def stored_event_def)

end
