(* ===== verification/GoPathMatch.thy ===== *)
theory GoPathMatch
  imports GoStrings
begin

text \<open>
  \<open>path.Match\<close> of Go's standard library: shell patterns in which \<open>*\<close> matches any run of bytes
  without a slash, \<open>?\<close> one rune that is not a slash, and \<open>[...]\<close> a class of runes. The three
  functions below are the library's \<open>scanChunk\<close>, \<open>matchChunk\<close> with \<open>getEsc\<close>, and \<open>Match\<close>.
  A malformed pattern is the value \<open>BadPattern\<close>.
\<close>

datatype match_result = Matched | NotMatched | BadPattern

text \<open>Skip the leading stars, then split at the next star outside brackets.\<close>

fun scan_body :: "bool \<Rightarrow> bytes \<Rightarrow> bytes \<times> bytes" where
  "scan_body inrange [] = ([], [])"
| "scan_body inrange (c # cs) =
     (if c = CHR 0x5C then
        (case cs of [] \<Rightarrow> ([c], [])
         | d # ds \<Rightarrow> (case scan_body inrange ds of (a, b) \<Rightarrow> (c # d # a, b)))
      else if c = CHR ''*'' \<and> \<not> inrange then ([], c # cs)
      else (case scan_body (if c = CHR ''['' then True else if c = CHR '']'' then False else inrange) cs of
              (a, b) \<Rightarrow> (c # a, b)))"

definition scan_chunk :: "bytes \<Rightarrow> bool \<times> bytes \<times> bytes" where
  "scan_chunk p =
     (let q = dropWhile (\<lambda>c. c = CHR ''*'') p in
      (q \<noteq> p, fst (scan_body False q), snd (scan_body False q)))"

text \<open>\<open>getEsc\<close>: a possibly escaped rune of a class; \<open>None\<close> is a bad pattern.\<close>

definition get_esc :: "bytes \<Rightarrow> (rune \<times> bytes) option" where
  "get_esc p =
     (if p = [] \<or> hd p = CHR ''-'' \<or> hd p = CHR '']'' then None
      else let q = (if hd p = CHR 0x5C then tl p else p) in
        if q = [] then None
        else let (r, n) = decode_rune q in
          if (r = RuneError \<and> n = 1) \<or> drop n q = [] then None else Some (r, drop n q))"

lemma get_esc_shorter: "get_esc p = Some (r, q) \<Longrightarrow> length q < length p"
proof -
  assume g: "get_esc p = Some (r, q)"
  define p' where "p' = (if hd p = CHR 0x5C then tl p else p)"
  have p: "p \<noteq> []" and p': "p' \<noteq> []" and q: "q = drop (snd (decode_rune p')) p'"
    using g by (auto simp: get_esc_def p'_def Let_def split: if_splits prod.splits)
  have "0 < length p'" using p' by simp
  then have "length q < length p'" using decode_rune_width [OF p'] q by simp
  moreover have "length p' \<le> length p" by (simp add: p'_def)
  ultimately show ?thesis by simp
qed

text \<open>The ranges of a class, up to the closing bracket; the flag says whether \<open>r\<close> was in one.\<close>

function class_ranges :: "rune \<Rightarrow> nat \<Rightarrow> bool \<Rightarrow> bytes \<Rightarrow> (bool \<times> bytes) option" where
  "class_ranges r n m p =
     (if p \<noteq> [] \<and> hd p = CHR '']'' \<and> 0 < n then Some (m, tl p)
      else case get_esc p of
        None \<Rightarrow> None
      | Some (lo, q) \<Rightarrow>
          if hd q = CHR ''-'' then
            (case get_esc (tl q) of
               None \<Rightarrow> None
             | Some (hi, q') \<Rightarrow> class_ranges r (Suc n) (m \<or> (lo \<le> r \<and> r \<le> hi)) q')
          else class_ranges r (Suc n) (m \<or> r = lo) q)"
  by pat_completeness auto
termination
proof (relation "measure (\<lambda>(r, n, m, p). length p)", goal_cases)
  case (2 r n m p a lo q b hi q')
  then have "length q < length p" "length q' < length (tl q)" by (auto dest: get_esc_shorter)
  then show ?case by simp
qed (auto dest: get_esc_shorter)

declare class_ranges.simps [simp del]

lemma class_ranges_shorter: "class_ranges r n m p = Some (m', q) \<Longrightarrow> length q < length p"
proof (induction r n m p arbitrary: m' q rule: class_ranges.induct)
  case (1 r n m p)
  show ?case
  proof (cases "p \<noteq> [] \<and> hd p = CHR '']'' \<and> 0 < n")
    case True
    then show ?thesis using "1.prems" by (auto simp: class_ranges.simps [of r n m p])
  next
    case False
    then obtain lo q1 where g: "get_esc p = Some (lo, q1)"
      using "1.prems" by (subst (asm) class_ranges.simps) (auto split: option.splits)
    note len1 = get_esc_shorter [OF g]
    show ?thesis
    proof (cases "hd q1 = CHR ''-''")
      case True
      then obtain hi q2 where g2: "get_esc (tl q1) = Some (hi, q2)"
        and c: "class_ranges r (Suc n) (m \<or> (lo \<le> r \<and> r \<le> hi)) q2 = Some (m', q)"
        using "1.prems" False g by (subst (asm) class_ranges.simps) (auto split: option.splits)
      have "length q < length q2" using "1.IH"(1) [OF False g refl True g2 refl c] .
      with get_esc_shorter [OF g2] len1 show ?thesis by simp
    next
      case nodash: False
      then have c: "class_ranges r (Suc n) (m \<or> r = lo) q1 = Some (m', q)"
        using "1.prems" False g by (subst (asm) class_ranges.simps) auto
      have "length q < length q1" using "1.IH"(2) [OF False g refl nodash c] .
      with len1 show ?thesis by simp
    qed
  qed
qed

text \<open>
  \<open>matchChunk\<close>: a chunk without stars against the front of \<open>s\<close>. After the match has failed
  the rest of the chunk is still parsed, so that a malformed one is reported.
  \<open>None\<close> is a bad pattern, \<open>Some None\<close> no match, \<open>Some (Some t)\<close> a match that leaves \<open>t\<close>.
\<close>

function match_chunk :: "bool \<Rightarrow> bytes \<Rightarrow> bytes \<Rightarrow> bytes option option" where
  "match_chunk failed0 [] s = Some (if failed0 then None else Some s)"
| "match_chunk failed0 (c # p) s =
     (let failed = (failed0 \<or> s = []) in
      if c = CHR ''['' then
        (let (r, n) = (if failed then (0, 0) else decode_rune s);
             neg = (p \<noteq> [] \<and> hd p = CHR ''^'');
             p' = (if neg then tl p else p) in
         case class_ranges r 0 False p' of
           None \<Rightarrow> None
         | Some (m, q) \<Rightarrow> match_chunk (failed \<or> m = neg) q (drop n s))
      else if c = CHR ''?'' then
        (if failed then match_chunk True p s
         else match_chunk (hd s = CHR ''/'') p (drop (snd (decode_rune s)) s))
      else if c = CHR 0x5C \<and> p = [] then None
      else
        (let d = (if c = CHR 0x5C then hd p else c); p' = (if c = CHR 0x5C then tl p else p) in
         if failed then match_chunk True p' s else match_chunk (d \<noteq> hd s) p' (tl s)))"
  by pat_completeness auto
termination
proof (relation "measure (\<lambda>(f, p, s). length p)", goal_cases)
  case (2 f c p s failed x r n neg p' y m q)
  then have "length q < length p'" by (auto dest: class_ranges_shorter)
  moreover have "length p' \<le> length p" using 2 by (auto split: if_splits)
  ultimately show ?case by simp
qed (auto split: if_splits)

declare match_chunk.simps(2) [simp del]

text \<open>Skip \<open>i + 1\<close> bytes (no slash among the first \<open>i\<close>) for the first position where the chunk matches.\<close>

fun star_search :: "bytes \<Rightarrow> bool \<Rightarrow> bytes \<Rightarrow> bytes option option" where
  "star_search chunk lastchunk [] = Some None"
| "star_search chunk lastchunk (c # cs) =
     (if c = CHR ''/'' then Some None
      else case match_chunk False chunk cs of
        None \<Rightarrow> None
      | Some (Some t) \<Rightarrow>
          if lastchunk \<and> t \<noteq> [] then star_search chunk lastchunk cs else Some (Some t)
      | Some None \<Rightarrow> star_search chunk lastchunk cs)"

lemma scan_body_length: "length (fst (scan_body b p)) + length (snd (scan_body b p)) = length p"
proof (induction p arbitrary: b rule: length_induct)
  case (1 p)
  then have IH: "length q < length p \<Longrightarrow>
      length (fst (scan_body b' q)) + length (snd (scan_body b' q)) = length q" for q b' by blast
  show ?case
  proof (cases p)
    case (Cons c cs)
    have step: "scan_body b p =
      (if c = CHR 0x5C then (case cs of [] \<Rightarrow> ([c], [])
         | d # ds \<Rightarrow> (c # d # fst (scan_body b ds), snd (scan_body b ds)))
       else if c = CHR ''*'' \<and> \<not> b then ([], p)
       else (c # fst (scan_body (if c = CHR ''['' then True else if c = CHR '']'' then False else b) cs),
             snd (scan_body (if c = CHR ''['' then True else if c = CHR '']'' then False else b) cs)))"
      unfolding Cons by (cases cs) (simp_all add: case_prod_beta)
    have IHcs: "length (fst (scan_body b' cs)) + length (snd (scan_body b' cs)) = length cs" for b'
      using IH [of cs] Cons by simp
    have IHds: "cs = d # ds \<Longrightarrow> length (fst (scan_body b ds)) + length (snd (scan_body b ds)) = length ds" for d ds
      using IH [of ds] Cons by simp
    show ?thesis unfolding step using Cons IHcs IHds by (cases cs) simp_all
  qed simp
qed

lemma scan_chunk_shorter: "scan_chunk p = (st, ch, rest) \<Longrightarrow> p \<noteq> [] \<Longrightarrow> length rest < length p"
proof -
  assume s: "scan_chunk p = (st, ch, rest)" and p: "p \<noteq> []"
  define q where "q = dropWhile (\<lambda>c. c = CHR ''*'') p"
  have r: "rest = snd (scan_body False q)" using s by (simp add: scan_chunk_def q_def Let_def)
  have lq: "length q \<le> length p" by (simp add: q_def length_dropWhile_le)
  show ?thesis
  proof (cases "q = p")
    case False
    then have "length q < length p"
      using suffix_dropWhile [of "\<lambda>c. c = CHR ''*''" p] unfolding q_def
      by (metis strict_suffix_def suffix_length_less)
    with r scan_body_length [of False q] show ?thesis by simp
  next
    case True
    obtain c cs where c: "p = c # cs" using p by (cases p) auto
    have "c \<noteq> CHR ''*''" using True c unfolding q_def
      by (metis dropWhile_eq_self_iff list.sel(1) list.simps(3))
    then have "fst (scan_body False p) \<noteq> []" using c by (cases cs) (simp_all add: case_prod_beta)
    then show ?thesis using scan_body_length [of False p] r True
      by (metis add_gr_0 length_greater_0_conv less_add_same_cancel2)
  qed
qed

text \<open>Before answering "no match", the rest of the pattern is checked for well-formedness.\<close>

function check_rest :: "bytes \<Rightarrow> match_result" where
  "check_rest p =
     (if p = [] then NotMatched
      else case scan_chunk p of (st, ch, rest) \<Rightarrow>
        if match_chunk False ch [] = None then BadPattern else check_rest rest)"
  by pat_completeness auto
termination
  by (relation "measure length") (auto dest: scan_chunk_shorter [OF sym])

declare check_rest.simps [simp del]

function path_Match :: "bytes \<Rightarrow> bytes \<Rightarrow> match_result" where
  "path_Match p name =
     (if p = [] then (if name = [] then Matched else NotMatched)
      else case scan_chunk p of (star, chunk, rest) \<Rightarrow>
        if star \<and> chunk = [] then (if CHR ''/'' \<in> set name then NotMatched else Matched)
        else case match_chunk False chunk name of
          None \<Rightarrow> BadPattern
        | Some m \<Rightarrow>
            (case m of
               Some t \<Rightarrow>
                 if t = [] \<or> rest \<noteq> [] then path_Match rest t
                 else if star then
                   (case star_search chunk (rest = []) name of
                      None \<Rightarrow> BadPattern | Some (Some t') \<Rightarrow> path_Match rest t' | Some None \<Rightarrow> check_rest rest)
                 else check_rest rest
             | None \<Rightarrow>
                 if star then
                   (case star_search chunk (rest = []) name of
                      None \<Rightarrow> BadPattern | Some (Some t') \<Rightarrow> path_Match rest t' | Some None \<Rightarrow> check_rest rest)
                 else check_rest rest))"
  by pat_completeness auto
termination
  by (relation "measure (\<lambda>(p, name). length p)") (auto dest: scan_chunk_shorter [OF sym])

declare path_Match.simps [simp del]

section \<open>Literal patterns\<close>

text \<open>A byte that stands for itself in a pattern.\<close>

definition plain :: "char \<Rightarrow> bool" where
  "plain c = (c \<notin> {CHR ''*'', CHR ''?'', CHR ''['', CHR '']'', CHR 0x5C})"

lemma scan_body_plain:
  "list_all plain l \<Longrightarrow> scan_body False (l @ CHR ''*'' # p) = (l, CHR ''*'' # p)"
  by (induction l) (auto simp: plain_def)

lemma scan_body_plain_end: "list_all plain l \<Longrightarrow> scan_body False l = (l, [])"
  by (induction l) (auto simp: plain_def)

lemma match_chunk_failed_plain: "list_all plain l \<Longrightarrow> match_chunk True l s = Some None"
  by (induction l arbitrary: s) (auto simp: match_chunk.simps plain_def Let_def)

lemma match_chunk_plain:
  "list_all plain l \<Longrightarrow>
     match_chunk False l s = Some (if prefix l s then Some (drop (length l) s) else None)"
proof (induction l arbitrary: s)
  case Nil
  then show ?case by simp
next
  case (Cons c l)
  then have c: "c \<noteq> CHR ''[''" "c \<noteq> CHR ''?''" "c \<noteq> CHR 0x5C" by (auto simp: plain_def)
  show ?case
  proof (cases s)
    case Nil
    then show ?thesis using Cons c by (simp add: match_chunk.simps match_chunk_failed_plain)
  next
    case (Cons d ds)
    show ?thesis
    proof (cases "c = d")
      case True
      then show ?thesis using Cons Cons.prems Cons.IH [of ds] c \<open>list_all plain (c # l)\<close>
        by (simp add: match_chunk.simps)
    next
      case False
      then show ?thesis using Cons c \<open>list_all plain (c # l)\<close>
        by (simp add: match_chunk.simps match_chunk_failed_plain)
    qed
  qed
qed

lemma scan_chunk_plain_star:
  "list_all plain l \<Longrightarrow> l \<noteq> [] \<Longrightarrow> scan_chunk (l @ ''*'') = (False, l, ''*'')"
  using scan_body_plain [of l "[]"] by (cases l) (auto simp: scan_chunk_def plain_def)

lemma scan_chunk_plain: "list_all plain l \<Longrightarrow> l \<noteq> [] \<Longrightarrow> scan_chunk l = (False, l, [])"
  using scan_body_plain_end [of l] by (cases l) (auto simp: scan_chunk_def plain_def)

lemma path_Match_star: "path_Match ''*'' name = (if CHR ''/'' \<in> set name then NotMatched else Matched)"
  by (subst path_Match.simps) (simp add: scan_chunk_def)

lemma check_rest_star: "check_rest ''*'' = NotMatched"
  by (subst check_rest.simps) (simp add: scan_chunk_def check_rest.simps [of "[]"])

text \<open>A literal followed by a star: the shape of the documented buffer rules.\<close>

lemma path_Match_plain_star:
  assumes "list_all plain l" and "l \<noteq> []"
  shows "path_Match (l @ ''*'') name =
    (if prefix l name \<and> CHR ''/'' \<notin> set (drop (length l) name) then Matched else NotMatched)"
  using assms by (subst path_Match.simps)
    (simp add: scan_chunk_plain_star match_chunk_plain path_Match_star check_rest_star)

lemma path_Match_plain:
  assumes "list_all plain l"
  shows "path_Match l name = (if name = l then Matched else NotMatched)"
proof (cases "l = []")
  case True
  then show ?thesis by (subst path_Match.simps) simp
next
  case False
  have e: "prefix l name \<Longrightarrow> drop (length l) name = [] \<longleftrightarrow> name = l" by (auto simp: prefix_def)
  show ?thesis using assms False e
    by (subst path_Match.simps)
      (auto simp: scan_chunk_plain match_chunk_plain path_Match.simps [of "[]" "[]"] check_rest.simps [of "[]"])
qed

end
