(* ===== verification/Classify.thy ===== *)
theory Classify
  imports GoHttp GoPathMatch
begin

text \<open>
  \<open>internal/edge/classify\<close>: is a request that arrives while the agent is away a webhook to be queued,
  or ordinary traffic? A declared path glob decides first, then a known signature header,
  then the shape of the request.
\<close>

definition SignatureHeaders :: "bytes list" where
  "SignatureHeaders =
     [''Stripe-Signature'', ''X-GitHub-Event'', ''X-Hub-Signature-256'', ''X-Hub-Signature'',
      ''X-Twilio-Signature'', ''Svix-Signature'', ''X-Shopify-Hmac-Sha256'', ''X-Slack-Signature'',
      ''Paypal-Transmission-Sig'']"

definition heuristic :: "platform \<Rightarrow> request \<Rightarrow> bool" where
  "heuristic p r =
     (if req_method r = ''GET'' \<or> req_method r = ''HEAD'' then False
      else let ct = ToLower (pl_lower p) (Header_Get (req_header r) ''Content-Type'');
               looksLikeAPIBody = Contains ct ''json'' \<or> Contains ct ''form-urlencoded'' in
        if \<not> looksLikeAPIBody then False
        else let accept = ToLower (pl_lower p) (Header_Get (req_header r) ''Accept'') in
          if Contains accept ''text/html'' then False else True)"

text \<open>The two loops return at their first hit; the error of \<open>path.Match\<close> on a bad pattern is dropped.\<close>

fun rule_hit :: "bytes list \<Rightarrow> bytes \<Rightarrow> bool" where
  "rule_hit [] path = False"
| "rule_hit (rule # rules) path = (if path_Match rule path = Matched then True else rule_hit rules path)"

fun header_hit :: "bytes list \<Rightarrow> header \<Rightarrow> bool" where
  "header_hit [] h = False"
| "header_hit (k # ks) h = (if Header_Get h k \<noteq> [] then True else header_hit ks h)"

definition IsWebhook :: "platform \<Rightarrow> bytes list \<Rightarrow> request \<Rightarrow> bool" where
  "IsWebhook p bufferRules r =
     (if rule_hit bufferRules (req_path r) then True
      else if header_hit SignatureHeaders (req_header r) then True
      else heuristic p r)"

section \<open>Which requests are webhooks\<close>

lemma rule_hit_iff: "rule_hit rules path \<longleftrightarrow> (\<exists>rule \<in> set rules. path_Match rule path = Matched)"
  by (induction rules) auto

lemma header_hit_iff: "header_hit ks h \<longleftrightarrow> (\<exists>k \<in> set ks. Header_Get h k \<noteq> [])"
  by (induction ks) auto

lemma Header_Get_canonical: "CanonicalKey k = CanonicalKey k' \<Longrightarrow> Header_Get h k = Header_Get h k'"
  by (simp add: Header_Get_def)

text \<open>
  What a declared rule such as \<open>/webhooks/*\<close> does. For a prefix without metacharacters, adding the
  rule \<open>prefix*\<close> makes webhooks of exactly the requests, of any method and with any headers, whose path
  continues the prefix within one path segment; all other requests, those for deeper paths included,
  are classified as without the rule.
\<close>
theorem star_rule_covers_one_segment:
  assumes "list_all plain l" and "l \<noteq> []"
  shows "IsWebhook p [l @ ''*''] r \<longleftrightarrow>
    (\<exists>rest. req_path r = l @ rest \<and> CHR ''/'' \<notin> set rest) \<or> IsWebhook p [] r"
  using path_Match_plain_star [OF assms, of "req_path r"]
  by (auto simp: IsWebhook_def prefix_def split: if_splits)

text \<open>Two names that differ only in the case of ASCII letters have the same canonical key.\<close>

definition same_letters :: "bytes \<Rightarrow> bytes \<Rightarrow> bool" where
  "same_letters a b = list_all2 (\<lambda>c c'. lower_ascii (byte c) = lower_ascii (byte c')) a b"

lemma byte_eq_iff: "(byte c :: nat) = byte c' \<longleftrightarrow> c = c'"
  by (metis of_char_eq_iff)

lemma byte_dash: "(byte c :: nat) = 45 \<longleftrightarrow> c = CHR ''-''"
  using byte_eq_iff [of c "CHR ''-''"] by simp

lemma lower_case_cases:
  assumes "lower_ascii a = lower_ascii b"
  shows "upper_ascii a = upper_ascii b \<and> lower_ascii a = lower_ascii b \<and> (a = 45 \<longleftrightarrow> b = 45)
    \<and> (a = b \<or> ((65 \<le> a \<and> a \<le> 90 \<or> 97 \<le> a \<and> a \<le> 122) \<and> (65 \<le> b \<and> b \<le> 90 \<or> 97 \<le> b \<and> b \<le> 122)))"
  using assms by (auto simp: lower_ascii_def upper_ascii_def split: if_splits)

lemma same_letters_canon: "same_letters a b \<Longrightarrow> canon_bytes up a = canon_bytes up b"
  unfolding same_letters_def
proof (induction a b arbitrary: up rule: list_all2_induct)
  case Nil
  then show ?case by simp
next
  case (Cons c a c' b)
  then show ?case using lower_case_cases [OF Cons.hyps(1)] byte_dash [of c] byte_dash [of c'] by auto
qed

lemma same_letters_token: "same_letters a b \<Longrightarrow> list_all token_byte a = list_all token_byte b"
  unfolding same_letters_def
proof (induction a b rule: list_all2_induct)
  case Nil
  then show ?case by simp
next
  case (Cons c a c' b)
  have "token_byte c = token_byte c'"
    using lower_case_cases [OF Cons.hyps(1)] byte_eq_iff [of c c'] by (auto simp: token_byte_def Let_def)
  then show ?case using Cons by simp
qed

lemma same_letters_key:
  assumes "list_all token_byte b" and "same_letters a b"
  shows "CanonicalKey a = CanonicalKey b"
  using assms same_letters_canon same_letters_token by (simp add: CanonicalKey_def)

lemma SignatureHeaders_tokens: "k \<in> set SignatureHeaders \<Longrightarrow> list_all token_byte k"
proof -
  have "list_all (list_all token_byte) SignatureHeaders" by code_simp
  then show "k \<in> set SignatureHeaders \<Longrightarrow> list_all token_byte k" by (simp add: list_all_iff)
qed

text \<open>
  A known provider's signature header marks a webhook whatever case the sender writes its name in:
  if the header map, keyed by canonical names as the server builds it, has a non-empty value for
  a name that differs from a signature header only in letter case, the request is a webhook.
\<close>
theorem signature_header_any_case:
  assumes "sig \<in> set SignatureHeaders" and "same_letters name sig"
    and "map_of (req_header r) (CanonicalKey name) = Some (v # vs)" and "v \<noteq> []"
  shows "IsWebhook p rules r"
proof -
  have "CanonicalKey name = CanonicalKey sig"
    using same_letters_key [OF SignatureHeaders_tokens [OF assms(1)] assms(2)] .
  then have "Header_Get (req_header r) sig \<noteq> []" using assms(3,4) by (simp add: Header_Get_def)
  then show ?thesis using assms(1) by (auto simp: IsWebhook_def header_hit_iff)
qed

text \<open>
  Ordinary traffic is not queued. Without a matching rule and without a signature header,
  a GET or HEAD is never a webhook, nor is a request whose \<open>Accept\<close> asks for \<open>text/html\<close> or whose
  \<open>Content-Type\<close> names neither JSON nor a form; every other method with such a body is.
\<close>
theorem unmarked_requests:
  assumes "\<forall>rule \<in> set rules. path_Match rule (req_path r) \<noteq> Matched"
    and "\<forall>k \<in> set SignatureHeaders. Header_Get (req_header r) k = []"
  shows "IsWebhook p rules r \<longleftrightarrow> req_method r \<noteq> ''GET'' \<and> req_method r \<noteq> ''HEAD''
    \<and> (Contains (ToLower (pl_lower p) (Header_Get (req_header r) ''Content-Type'')) ''json''
       \<or> Contains (ToLower (pl_lower p) (Header_Get (req_header r) ''Content-Type'')) ''form-urlencoded'')
    \<and> \<not> Contains (ToLower (pl_lower p) (Header_Get (req_header r) ''Accept'')) ''text/html''"
  using assms by (auto simp: IsWebhook_def rule_hit_iff header_hit_iff heuristic_def Let_def)

section \<open>Examples\<close>

definition demo_request :: request where
  "demo_request = \<lparr>req_method = ''POST'', req_host = ''myapp.lvh.me:8080'', req_path = ''/hooks/pay'',
     req_rawpath = [], req_query = [], req_header = [(''X-Github-Event'', [''push''])],
     req_body = \<lparr>body_data = ''{}'', body_err = False\<rparr>, req_remote = ''10.0.0.1:999''\<rparr>"

theorem star_rule_covers_one_segment_witness:
  "\<forall>p. IsWebhook p [''/hooks/*''] (demo_request\<lparr>req_method := ''GET'', req_header := []\<rparr>)"
proof
  fix p
  have "list_all plain ''/hooks/''" by code_simp
  then have "IsWebhook p [''/hooks/'' @ ''*''] (demo_request\<lparr>req_method := ''GET'', req_header := []\<rparr>)"
    using star_rule_covers_one_segment [of "''/hooks/''" p "demo_request\<lparr>req_method := ''GET'', req_header := []\<rparr>"]
    by (auto simp: demo_request_def)
  then show "IsWebhook p [''/hooks/*''] (demo_request\<lparr>req_method := ''GET'', req_header := []\<rparr>)" by simp
qed

theorem signature_header_any_case_witness: "\<forall>p. IsWebhook p [] demo_request"
proof (rule allI, rule signature_header_any_case)
  show "''X-GitHub-Event'' \<in> set SignatureHeaders" by (simp add: SignatureHeaders_def)
  show "same_letters ''x-github-event'' ''X-GitHub-Event''" by code_simp
  have "CanonicalKey ''x-github-event'' = ''X-Github-Event''" by code_simp
  then show "map_of (req_header demo_request) (CanonicalKey ''x-github-event'') = Some [''push'']"
    by (simp add: demo_request_def)
qed simp

theorem unmarked_requests_witness:
  "\<forall>p. \<not> IsWebhook p [''/hooks/*''] (demo_request\<lparr>req_method := ''GET'', req_path := ''/'', req_header := []\<rparr>)"
proof
  fix p
  have "path_Match ''/hooks/*'' ''/'' \<noteq> Matched"
    using path_Match_plain_star [of "''/hooks/''" "''/''"] by (simp add: plain_def)
  then show "\<not> IsWebhook p [''/hooks/*''] (demo_request\<lparr>req_method := ''GET'', req_path := ''/'', req_header := []\<rparr>)"
    using unmarked_requests [of "[''/hooks/*'']" "demo_request\<lparr>req_method := ''GET'', req_path := ''/'', req_header := []\<rparr>" p]
    by (simp add: Header_Get_def)
qed

end
