(* ===== verification/StoreSnapshots.thy ===== *)
theory StoreSnapshots
  imports StoreTunnels
begin

text \<open>
  \<open>internal/store/snapshots.go\<close>: the cache of captured pages, one row per tunnel, path and query
  hash, with a cap on the bytes stored for a tunnel that is enforced by evicting the oldest rows inside
  the transaction that stores a new one.
\<close>

definition MaxSnapshotBytes :: int where "MaxSnapshotBytes = 100 * 2 ^ 20"

record snapshot =
  ss_path :: bytes
  ss_ctype :: bytes
  ss_headers :: "(bytes \<times> bytes) list"
  ss_body :: bytes
  ss_captured :: int

definition QueryHash :: "platform \<Rightarrow> bytes \<Rightarrow> bytes" where
  "QueryHash p rawQuery = (if rawQuery = [] then [] else hex_encode (take 8 (pl_sha256 p rawQuery)))"

section \<open>The statements\<close>

definition json_map :: "(bytes \<times> bytes) list \<Rightarrow> (bytes \<times> bytes) list" where
  "json_map = map (\<lambda>(k, v). (to_valid k, to_valid v))"

definition json_map_ok :: "(bytes \<times> bytes) list \<Rightarrow> bool" where
  "json_map_ok h = list_all (\<lambda>(k, v). json_ok [k, v]) h"

definition size_of :: "snap \<Rightarrow> int" where "size_of s = int (length (sn_body s))"

definition snaps_of :: "int \<Rightarrow> db \<Rightarrow> snap list" where
  "snaps_of tid d = filter (\<lambda>s. sn_tunnel s = tid) (db_snaps d)"

definition snap_total :: "int \<Rightarrow> db \<Rightarrow> int" where
  "snap_total tid d = sum_list (map size_of (snaps_of tid d))"

text \<open>
  \<open>INSERT ... ON CONFLICT(tunnel_id, path, query_hash) DO UPDATE\<close>. The bytes of a \<open>bytes.Buffer\<close> nothing was written to are a nil slice,
  which the driver sends as NULL, and the column \<open>body\<close> is NOT NULL.
\<close>

definition sql_upsert_snap :: "snap \<Rightarrow> unit stmt" where
  "sql_upsert_snap s d =
     (if sn_body s = [] then (Inl (ErrPg ''23502''), d)
      else if sn_tunnel s \<notin> tn_id ` set (db_tunnels d) then (Inl (ErrPg ''23503''), d)
      else (Inr (), d\<lparr>db_snaps := filter (\<lambda>x. snap_key x \<noteq> snap_key s) (db_snaps d) @ [s]\<rparr>))"

definition sql_snap_total :: "int \<Rightarrow> int stmt" where
  "sql_snap_total tid d = (Inr (snap_total tid d), d)"

text \<open>
  \<open>DELETE ... ORDER BY captured_at LIMIT 1 ... RETURNING octet_length(body)\<close>; of rows captured in the same
  instant the first stored goes first.
\<close>

definition sql_evict_oldest :: "int \<Rightarrow> int stmt" where
  "sql_evict_oldest tid d =
     (case sort_key sn_time (snaps_of tid d) of
        [] \<Rightarrow> (Inl ErrNoRows, d)
      | s # _ \<Rightarrow> (Inr (size_of s), d\<lparr>db_snaps := filter (\<lambda>x. snap_key x \<noteq> snap_key s) (db_snaps d)\<rparr>))"

definition sql_get_snap :: "int \<Rightarrow> bytes \<Rightarrow> bytes \<Rightarrow> snap stmt" where
  "sql_get_snap tid path qh d =
     (case find (\<lambda>s. snap_key s = (tid, path, qh)) (db_snaps d) of None \<Rightarrow> (Inl ErrNoRows, d) | Some s \<Rightarrow> (Inr s, d))"

section \<open>The operations\<close>

text \<open>The eviction loop: it goes round again only after a row has been deleted.\<close>

lemma oldest_mem:
  assumes "sort_key sn_time (snaps_of tid d) = s # rest"
  shows "s \<in> set (db_snaps d) \<and> sn_tunnel s = tid"
proof -
  have "s \<in> set (sort_key sn_time (snaps_of tid d))" using assms by simp
  then show ?thesis by (simp add: snaps_of_def)
qed

lemma evict_oldest_Inr:
  assumes "sql_evict_oldest tid d = (Inr n, d')"
  obtains s rest where "sort_key sn_time (snaps_of tid d) = s # rest" "n = size_of s"
    "d' = d\<lparr>db_snaps := filter (\<lambda>x. snap_key x \<noteq> snap_key s) (db_snaps d)\<rparr>"
  using assms by (auto simp: sql_evict_oldest_def split: list.splits)

lemma filter_key_shorter: "s \<in> set xs \<Longrightarrow> length (filter (\<lambda>x. f x \<noteq> f s) xs) < length xs"
  by (rule length_filter_less) simp_all

lemma evict_shorter:
  assumes "sql ok (sql_evict_oldest tid) d = (Inr n, d')"
  shows "length (db_snaps d') < length (db_snaps d)"
proof -
  obtain d0 where d0: "sql_evict_oldest tid d0 = (Inr n, d')" "same_tables d d0"
    using assms by (rule sql_Inr)
  obtain s rest where s: "sort_key sn_time (snaps_of tid d0) = s # rest"
    "d' = d0\<lparr>db_snaps := filter (\<lambda>x. snap_key x \<noteq> snap_key s) (db_snaps d0)\<rparr>"
    using d0(1) by (rule evict_oldest_Inr)
  then show ?thesis
    using oldest_mem [OF s(1)] filter_key_shorter [of s "db_snaps d0" snap_key] d0(2)
    by (simp add: same_tables_def)
qed

function evict :: "int \<Rightarrow> int \<Rightarrow> unit stmt" where
  "evict tid tot d =
     (if tot \<le> MaxSnapshotBytes then (Inr (), d)
      else case sql True (sql_evict_oldest tid) d of
        (Inl e, d') \<Rightarrow> if errors_Is e ErrNoRows then (Inr (), d') else (Inl e, d')
      | (Inr evicted, d') \<Rightarrow> evict tid (tot - evicted) d')"
  by pat_completeness auto

termination evict
  by (relation "measure (\<lambda>(tid, tot, d). length (db_snaps d))") (auto dest!: evict_shorter [OF sym])

declare evict.simps [simp del]

definition put_body :: "int \<Rightarrow> bytes \<Rightarrow> bytes \<Rightarrow> bytes \<Rightarrow> (bytes \<times> bytes) list \<Rightarrow> bytes \<Rightarrow> unit stmt" where
  "put_body tid path qh ctype h body d =
     (let s = \<lparr>sn_tunnel = tid, sn_path = path, sn_query = qh, sn_ctype = ctype, sn_headers = h,
               sn_body = body, sn_time = db_now d\<rparr> in
      and_then (sql (pg_text path \<and> pg_text qh \<and> pg_text ctype \<and> json_map_ok h) (sql_upsert_snap s))
        (\<lambda>_. and_then (sql True (sql_snap_total tid)) (evict tid)) d)"

definition PutSnapshot :: "int \<Rightarrow> bytes \<Rightarrow> bytes \<Rightarrow> bytes \<Rightarrow> (bytes \<times> bytes) list \<Rightarrow> bytes \<Rightarrow> unit stmt" where
  "PutSnapshot tid path qh ctype headers body =
     (let h = json_map headers in transaction (put_body tid path qh ctype h body))"

definition GetSnapshot :: "int \<Rightarrow> bytes \<Rightarrow> bytes \<Rightarrow> snapshot stmt" where
  "GetSnapshot tid path qh =
     and_then (not_found (sql (pg_text path \<and> pg_text qh) (sql_get_snap tid path qh)))
       (\<lambda>s. ret \<lparr>ss_path = sn_path s, ss_ctype = sn_ctype s, ss_headers = sn_headers s, ss_body = sn_body s,
            ss_captured = sn_time s\<rparr>)"

definition SnapshotStats :: "int \<Rightarrow> (int \<times> int) stmt" where
  "SnapshotStats tid = sql True (\<lambda>d. (Inr (int (length (snaps_of tid d)), snap_total tid d), d))"

section \<open>Well-formedness\<close>

lemma snaps_change:
  assumes "db_wf d" and "set xs \<subseteq> set (db_snaps d)" and "distinct (map snap_key xs)"
  shows "db_wf (d\<lparr>db_snaps := xs\<rparr>) \<and> evolves d (d\<lparr>db_snaps := xs\<rparr>)"
  using assms by (auto simp: wf_defs evolves_defs)

lemma good_evict_oldest [wf_intros]: "good (sql_evict_oldest tid)"
proof (rule goodI)
  fix d assume d: "db_wf d"
  then have "distinct (map snap_key (db_snaps d))" by (simp add: db_wf_def snaps_wf_def)
  then show "db_wf (snd (sql_evict_oldest tid d)) \<and> evolves d (snd (sql_evict_oldest tid d))"
    using d snaps_change [OF d] by (auto simp: sql_evict_oldest_def distinct_map_filter' split: list.split)
qed

lemma evict_good: "db_wf d \<Longrightarrow> db_wf (snd (evict tid tot d)) \<and> evolves d (snd (evict tid tot d))"
proof (induction tid tot d rule: evict.induct)
  case (1 tid tot d)
  obtain r d1 where r: "sql True (sql_evict_oldest tid) d = (r, d1)" by fastforce
  have "good (sql True (sql_evict_oldest tid))" by (intro wf_intros)
  then have d1: "db_wf d1" "evolves d d1" using 1(2) r by (metis good_def snd_conv)+
  show ?case
  proof (cases "tot \<le> MaxSnapshotBytes")
    case True
    then show ?thesis using 1(2) by (simp add: evict.simps)
  next
    case False
    then show ?thesis
    proof (cases r)
      case (Inl e)
      then show ?thesis using False d1 r by (simp add: evict.simps)
    next
      case (Inr n)
      then show ?thesis
        using False 1(1) [OF False r [unfolded Inr, symmetric] refl] d1 r evolves_trans
        by (auto simp: evict.simps [of tid tot d])
    qed
  qed
qed

lemma good_evict [wf_intros]: "good (evict tid tot)"
  by (rule goodI) (rule evict_good)

lemma upsert_good:
  assumes "db_wf d" and "sn_time s \<le> db_now d"
  shows "db_wf (snd (sql_upsert_snap s d)) \<and> evolves d (snd (sql_upsert_snap s d))"
  using assms by (auto simp: sql_upsert_snap_def wf_defs evolves_defs distinct_map_filter')

lemma sql_upsert_good:
  assumes d: "db_wf d" and s: "sn_time s \<le> db_now d"
  shows "db_wf (snd (sql ok (sql_upsert_snap s) d)) \<and> evolves d (snd (sql ok (sql_upsert_snap s) d))"
proof -
  obtain x d0 where n: "next_outcome d = (x, d0)" by fastforce
  note d0 = next_outcome_good [OF d n]
  have "sn_time s \<le> db_now d0" using next_outcome_tables [OF n] s by linarith
  then have "db_wf (snd (sql_upsert_snap s d0)) \<and> evolves d (snd (sql_upsert_snap s d0))"
    using upsert_good [of d0 s] d0 evolves_trans by blast
  then show ?thesis using d0 by (simp add: sql_def n split: outcome.split)
qed

lemma snd_snap_total [simp]: "snd (sql_snap_total tid d) = d"
  by (simp add: sql_snap_total_def)

lemma snd_get_snap [simp]: "snd (sql_get_snap tid path qh d) = d"
  by (simp add: sql_get_snap_def split: option.split)

lemma good_put_body [wf_intros]: "good (put_body tid path qh ctype h body)"
proof (rule goodI)
  fix d assume d: "db_wf d"
  let ?s = "\<lparr>sn_tunnel = tid, sn_path = path, sn_query = qh, sn_ctype = ctype, sn_headers = h, sn_body = body,
      sn_time = db_now d\<rparr>"
  let ?ok = "pg_text path \<and> pg_text qh \<and> pg_text ctype \<and> json_map_ok h"
  obtain r d1 where r: "sql ?ok (sql_upsert_snap ?s) d = (r, d1)" by fastforce
  have d1: "db_wf d1" "evolves d d1" using sql_upsert_good [OF d, of ?s ?ok] r by simp_all
  have "good (and_then (sql True (sql_snap_total tid)) (evict tid))" by (intro wf_intros good_read) simp
  then have "db_wf (snd (and_then (sql True (sql_snap_total tid)) (evict tid) d1))
      \<and> evolves d (snd (and_then (sql True (sql_snap_total tid)) (evict tid) d1))"
    using d1 evolves_trans by (auto simp: good_def)
  then show "db_wf (snd (put_body tid path qh ctype h body d)) \<and> evolves d (snd (put_body tid path qh ctype h body d))"
    using d1 r by (auto simp: put_body_def Let_def and_then_def [of _ _ d] split: sum.split)
qed

lemma good_PutSnapshot [wf_intros]: "good (PutSnapshot tid path qh ctype headers body)"
  unfolding PutSnapshot_def Let_def by (intro wf_intros)

lemma good_GetSnapshot [wf_intros]: "good (GetSnapshot tid path qh)"
  unfolding GetSnapshot_def not_found_def by (intro wf_intros good_read) simp

lemma good_SnapshotStats [wf_intros]: "good (SnapshotStats tid)"
  unfolding SnapshotStats_def by (intro wf_intros good_read) simp

section \<open>What the eviction loop does\<close>

lemma same_tables_snaps: "same_tables d d' \<Longrightarrow> snaps_of tid d' = snaps_of tid d \<and> snap_total tid d' = snap_total tid d"
  by (simp add: same_tables_def snaps_of_def snap_total_def)

lemma filter_key_eq:
  "distinct (map f xs) \<Longrightarrow> s \<in> set xs \<Longrightarrow> filter (\<lambda>x. f x \<noteq> f s) xs = remove1 s xs"
proof (induction xs)
  case Nil
  then show ?case by simp
next
  case (Cons x xs)
  then show ?case by (cases "x = s") (auto simp: image_iff intro!: filter_True)
qed

lemma filter_remove1_other: "\<not> P s \<Longrightarrow> filter P (remove1 s xs) = filter P xs"
  by (induction xs) auto

lemma sum_list_remove1: "x \<in> set xs \<Longrightarrow> sum_list (map f (remove1 x xs)) = sum_list (map f xs) - (f x :: int)"
  by (induction xs) auto

text \<open>One pass of the loop: a row with the smallest capture time goes, and its size is subtracted.\<close>

lemma evict_step:
  assumes "sql True (sql_evict_oldest tid) d = (Inr n, d')" and "distinct (map snap_key (db_snaps d))"
  obtains s where "s \<in> set (snaps_of tid d)" and "\<forall>x \<in> set (snaps_of tid d). sn_time s \<le> sn_time x"
    and "n = size_of s" and "db_snaps d' = remove1 s (db_snaps d)"
    and "snap_total tid d' = snap_total tid d - n"
proof -
  obtain d0 where q: "sql_evict_oldest tid d0 = (Inr n, d')" and s0: "same_tables d d0"
    using assms(1) by (rule sql_Inr)
  obtain s rest where s: "sort_key sn_time (snaps_of tid d0) = s # rest" "n = size_of s"
    "d' = d0\<lparr>db_snaps := filter (\<lambda>x. snap_key x \<noteq> snap_key s) (db_snaps d0)\<rparr>"
    using q by (rule evict_oldest_Inr)
  have d0: "db_snaps d0 = db_snaps d" using s0 by (simp add: same_tables_def)
  have mem: "s \<in> set (db_snaps d)" "sn_tunnel s = tid" using oldest_mem [OF s(1)] d0 by simp_all
  have snaps: "db_snaps d' = remove1 s (db_snaps d)" using s(3) d0 filter_key_eq [OF assms(2) mem(1)] by simp
  have "sorted (map sn_time (s # rest))" using sorted_sort_key [of sn_time "snaps_of tid d0"] s(1) by simp
  moreover have "set (snaps_of tid d) = set (s # rest)"
    using s(1) d0 set_sort [of sn_time "snaps_of tid d0"] by (simp add: snaps_of_def)
  ultimately have min: "\<forall>x \<in> set (snaps_of tid d). sn_time s \<le> sn_time x" by auto
  have m: "s \<in> set (snaps_of tid d)" using mem by (simp add: snaps_of_def)
  have "filter (\<lambda>x. sn_tunnel x = tid) (remove1 s (db_snaps d)) = remove1 s (snaps_of tid d)"
    by (simp add: snaps_of_def filter_remove1 mem)
  then have "snap_total tid d' = snap_total tid d - n"
    using sum_list_remove1 [OF m, of size_of] s(2) snaps by (simp add: snap_total_def snaps_of_def)
  then show thesis using that m min s(2) snaps by blast
qed

lemma evict_no_rows:
  assumes "sql True (sql_evict_oldest tid) d = (Inl e, d')" and "errors_Is e ErrNoRows"
  shows "snaps_of tid d' = [] \<and> same_tables d d'"
proof -
  obtain x d0 where n: "next_outcome d = (x, d0)" by fastforce
  have "sql_evict_oldest tid d0 = (Inl e, d')" using assms n
    by (auto simp: sql_def split: outcome.splits)
  then show ?thesis using next_outcome_same [OF n]
    by (auto simp: sql_evict_oldest_def split: list.splits) (metis length_0_conv length_sort)
qed

lemma evict_result:
  assumes "evict tid tot d = (Inr (), d')" and "distinct (map snap_key (db_snaps d))" and "tot = snap_total tid d"
  shows "set (db_snaps d') \<subseteq> set (db_snaps d)
    \<and> (\<forall>x \<in> set (db_snaps d) - set (db_snaps d'). sn_tunnel x = tid \<and> (\<forall>y \<in> set (snaps_of tid d'). sn_time x \<le> sn_time y))
    \<and> snap_total tid d' \<le> MaxSnapshotBytes \<and> (\<forall>t. t \<noteq> tid \<longrightarrow> snaps_of t d' = snaps_of t d)"
  using assms
proof (induction tid tot d arbitrary: d' rule: evict.induct)
  case (1 tid tot d)
  show ?case
  proof (cases "tot \<le> MaxSnapshotBytes")
    case True
    then show ?thesis using 1(2,4) by (simp add: evict.simps)
  next
    case False
    obtain q d1 where q: "sql True (sql_evict_oldest tid) d = (q, d1)" by fastforce
    show ?thesis
    proof (cases q)
      case (Inr n)
      obtain s where s: "s \<in> set (snaps_of tid d)" "\<forall>x \<in> set (snaps_of tid d). sn_time s \<le> sn_time x"
        "n = size_of s" "db_snaps d1 = remove1 s (db_snaps d)" "snap_total tid d1 = snap_total tid d - n"
        using q [unfolded Inr] 1(3) by (rule evict_step)
      have e: "evict tid (tot - n) d1 = (Inr (), d')" using 1(2) False q Inr by (simp add: evict.simps)
      have dist: "distinct (map snap_key (db_snaps d1))"
        using 1(3) s(4) by (metis distinct_map distinct_remove1 inj_on_subset set_remove1_subset)
      have "tot - n = snap_total tid d1" using s(5) 1(4) by simp
      note ih = 1(1) [OF False q [unfolded Inr, symmetric] refl e dist this]
      have set1: "set (db_snaps d1) = set (db_snaps d) - {s}"
        using s(4) 1(3) by (metis distinct_map set_remove1_eq)
      have other: "snaps_of t d1 = snaps_of t d" if "t \<noteq> tid" for t
        using s(1,4) that by (simp add: snaps_of_def filter_remove1_other)
      have stay: "y \<in> set (snaps_of tid d)" if "y \<in> set (snaps_of tid d')" for y
        using that ih set1 by (auto simp: snaps_of_def)
      have "sn_tunnel x = tid \<and> (\<forall>y \<in> set (snaps_of tid d'). sn_time x \<le> sn_time y)"
        if "x \<in> set (db_snaps d) - set (db_snaps d')" for x
      proof (cases "x = s")
        case True
        then show ?thesis using s(1,2) stay by (simp add: snaps_of_def)
      next
        case False
        then show ?thesis using that ih set1 by blast
      qed
      moreover have "set (db_snaps d') \<subseteq> set (db_snaps d)" using ih set1 by blast
      ultimately show ?thesis using ih other by simp
    next
      case (Inl e)
      then have "errors_Is e ErrNoRows" "d' = d1"
        using 1(2) False q by (auto simp: evict.simps split: if_splits)
      then have e: "snaps_of tid d' = []" "same_tables d d'" using evict_no_rows [OF q [unfolded Inl]] by auto
      have "snap_total tid d' \<le> MaxSnapshotBytes" using e(1) by (simp add: snap_total_def MaxSnapshotBytes_def)
      moreover have "db_snaps d' = db_snaps d" using e(2) by (simp add: same_tables_def)
      ultimately show ?thesis by (simp add: snaps_of_def)
    qed
  qed
qed

text \<open>It evicts no more than it must: without the last row it took the tunnel would be above the cap.\<close>

lemma evict_minimal:
  assumes "evict tid tot d = (Inr (), d')" and "distinct (map snap_key (db_snaps d))" and "tot = snap_total tid d"
  shows "db_snaps d' = db_snaps d
    \<or> (\<exists>x \<in> set (db_snaps d) - set (db_snaps d'). MaxSnapshotBytes < snap_total tid d' + size_of x)"
  using assms
proof (induction tid tot d arbitrary: d' rule: evict.induct)
  case (1 tid tot d)
  show ?case
  proof (cases "tot \<le> MaxSnapshotBytes")
    case True
    then show ?thesis using 1(2) by (simp add: evict.simps)
  next
    case False
    obtain q d1 where q: "sql True (sql_evict_oldest tid) d = (q, d1)" by fastforce
    show ?thesis
    proof (cases q)
      case (Inl e)
      then have "errors_Is e ErrNoRows" "d' = d1"
        using 1(2) False q by (auto simp: evict.simps split: if_splits)
      then show ?thesis using evict_no_rows [OF q [unfolded Inl]] by (simp add: same_tables_def)
    next
      case (Inr n)
      obtain s where s: "s \<in> set (snaps_of tid d)" "n = size_of s" "db_snaps d1 = remove1 s (db_snaps d)"
        "snap_total tid d1 = snap_total tid d - n"
        using q [unfolded Inr] 1(3) by (rule evict_step)
      have e: "evict tid (tot - n) d1 = (Inr (), d')" using 1(2) False q Inr by (simp add: evict.simps)
      have dist: "distinct (map snap_key (db_snaps d1))"
        using 1(3) s(3) by (metis distinct_map distinct_remove1 inj_on_subset set_remove1_subset)
      have set1: "set (db_snaps d1) = set (db_snaps d) - {s}" using s(3) 1(3) by (metis distinct_map set_remove1_eq)
      have "tot - n = snap_total tid d1" using s(4) 1(4) by simp
      from 1(1) [OF False q [unfolded Inr, symmetric] refl e dist this] show ?thesis
      proof (elim disjE)
        assume same: "db_snaps d' = db_snaps d1"
        then have "snap_total tid d' + size_of s = tot" using s(2,4) 1(4) by (simp add: snap_total_def snaps_of_def)
        moreover have "s \<in> set (db_snaps d) - set (db_snaps d')" using s(1) set1 same by (simp add: snaps_of_def)
        moreover have "MaxSnapshotBytes < snap_total tid d' + size_of s" using calculation False by linarith
        ultimately show ?thesis by blast
      qed (use set1 in blast)
    qed
  qed
qed

text \<open>The other tables.\<close>

definition same_rest :: "db \<Rightarrow> db \<Rightarrow> bool" where
  "same_rest d d' = same_tables (d\<lparr>db_snaps := db_snaps d'\<rparr>) d'"

lemma same_rest_trans: "same_rest a b \<Longrightarrow> same_rest b c \<Longrightarrow> same_rest a c"
  by (simp add: same_rest_def same_tables_def)

lemma same_rest_same: "same_tables a b \<Longrightarrow> same_rest a b"
  by (simp add: same_rest_def same_tables_def)

lemma same_rest_sql:
  assumes "\<And>d. same_rest d (snd (q d))"
  shows "same_rest d (snd (sql ok q d))"
proof -
  obtain x d0 where n: "next_outcome d = (x, d0)" by fastforce
  have "same_rest d d0" using next_outcome_same [OF n] by (rule same_rest_same)
  then show ?thesis using same_rest_trans [OF _ assms [of d0]] n by (auto simp: sql_def split: outcome.split)
qed

lemma same_rest_then:
  assumes "\<And>d. same_rest d (snd (m d))" and "\<And>a d. same_rest d (snd (f a d))"
  shows "same_rest d (snd (and_then m f d))"
proof -
  obtain r d0 where r: "m d = (r, d0)" by fastforce
  then have "same_rest d d0" using assms(1) [of d] by simp
  then show ?thesis using same_rest_trans [OF _ assms(2)] r by (auto simp: and_then_def split: sum.split)
qed

lemma same_rest_evict: "same_rest d (snd (evict tid tot d))"
proof (induction tid tot d rule: evict.induct)
  case (1 tid tot d)
  have s: "same_rest d (snd (sql True (sql_evict_oldest tid) d))" for d
    by (rule same_rest_sql) (simp add: sql_evict_oldest_def same_rest_def same_tables_def split: list.split)
  show ?case
    using s [of d] 1 same_rest_same same_rest_trans
    by (auto simp: evict.simps [of tid tot d] split: prod.split sum.split)
qed

lemma same_rest_put: "same_rest d (snd (put_body tid path qh ctype h body d))"
  unfolding put_body_def Let_def
  by (intro same_rest_then same_rest_sql same_rest_evict)
    (auto simp: sql_upsert_snap_def same_rest_def same_tables_def)

lemma singleton_list: "distinct xs \<Longrightarrow> set xs = {s} \<Longrightarrow> xs = [s]"
proof (cases xs)
  case (Cons x ys)
  assume "distinct xs" "set xs = {s}"
  then have "x = s" "set ys \<subseteq> {s}" "s \<notin> set ys" using Cons by auto
  then have "ys = []" by (cases ys) auto
  then show ?thesis using Cons \<open>x = s\<close> by simp
qed simp

text \<open>A row younger than all others of its tunnel survives, if it fits under the cap by itself.\<close>

lemma evict_keeps_newest:
  assumes "evict tid tot d = (Inr (), d')" and "distinct (map snap_key (db_snaps d))" and "tot = snap_total tid d"
    and "s \<in> set (snaps_of tid d)" and "\<forall>x \<in> set (snaps_of tid d). x = s \<or> sn_time x < sn_time s"
    and "size_of s \<le> MaxSnapshotBytes"
  shows "s \<in> set (db_snaps d')"
  using assms
proof (induction tid tot d arbitrary: d' rule: evict.induct)
  case (1 tid tot d)
  show ?case
  proof (cases "tot \<le> MaxSnapshotBytes")
    case True
    then show ?thesis using 1(2,5) by (simp add: evict.simps snaps_of_def)
  next
    case False
    obtain q d1 where q: "sql True (sql_evict_oldest tid) d = (q, d1)" by fastforce
    show ?thesis
    proof (cases q)
      case (Inl e)
      then have "errors_Is e ErrNoRows" "d' = d1"
        using 1(2) False q by (auto simp: evict.simps split: if_splits)
      then show ?thesis using evict_no_rows [OF q [unfolded Inl]] 1(5)
        by (simp add: same_tables_def snaps_of_def)
    next
      case (Inr n)
      obtain o' where o: "o' \<in> set (snaps_of tid d)" "\<forall>x \<in> set (snaps_of tid d). sn_time o' \<le> sn_time x"
        "n = size_of o'" "db_snaps d1 = remove1 o' (db_snaps d)" "snap_total tid d1 = snap_total tid d - n"
        using q [unfolded Inr] 1(3) by (rule evict_step)
      have "distinct (db_snaps d)" using 1(3) by (simp add: distinct_map)
      then have set1: "set (snaps_of tid d1) = set (snaps_of tid d) - {o'}"
        using o(1,4) by (auto simp: snaps_of_def)
      have "o' \<noteq> s"
      proof
        assume os: "o' = s"
        then have "set (snaps_of tid d) = {s}" using o(2) 1(5,6) by force
        moreover have "distinct (snaps_of tid d)" using \<open>distinct (db_snaps d)\<close> by (simp add: snaps_of_def)
        ultimately have "snaps_of tid d = [s]" by (rule singleton_list [rotated])
        then show False using False 1(4,7) by (simp add: snap_total_def)
      qed
      moreover have e: "evict tid (tot - n) d1 = (Inr (), d')" using 1(2) False q Inr by (simp add: evict.simps)
      moreover have dist: "distinct (map snap_key (db_snaps d1))"
        using 1(3) o(4) by (metis distinct_map distinct_remove1 inj_on_subset set_remove1_subset)
      ultimately show ?thesis
        using 1(1) [OF False q [unfolded Inr, symmetric] refl e dist] set1 1(4-7) o(5) by auto
    qed
  qed
qed

section \<open>The whole operation\<close>

definition new_snap :: "int \<Rightarrow> bytes \<Rightarrow> bytes \<Rightarrow> bytes \<Rightarrow> (bytes \<times> bytes) list \<Rightarrow> bytes \<Rightarrow> int \<Rightarrow> snap" where
  "new_snap tid path qh ctype headers body now =
     \<lparr>sn_tunnel = tid, sn_path = path, sn_query = qh, sn_ctype = ctype, sn_headers = json_map headers,
      sn_body = body, sn_time = now\<rparr>"

lemma put_body_Inr:
  assumes "db_wf d" and "put_body tid path qh ctype (json_map headers) body d = (Inr (), d')"
    and "s = new_snap tid path qh ctype headers body (db_now d)"
  obtains d1 where "db_snaps d1 = filter (\<lambda>x. snap_key x \<noteq> snap_key s) (db_snaps d) @ [s]"
    and "evict tid (snap_total tid d1) d1 = (Inr (), d')" and "distinct (map snap_key (db_snaps d1))"
    and "pg_text path" and "pg_text qh"
proof -
  let ?ok = "pg_text path \<and> pg_text qh \<and> pg_text ctype \<and> json_map_ok (json_map headers)"
  have b: "and_then (sql ?ok (sql_upsert_snap s)) (\<lambda>_. and_then (sql True (sql_snap_total tid)) (evict tid)) d
      = (Inr (), d')"
    using assms(2,3) by (simp add: put_body_def new_snap_def)
  obtain u d1 where u: "sql ?ok (sql_upsert_snap s) d = (Inr u, d1)"
    and rest: "and_then (sql True (sql_snap_total tid)) (evict tid) d1 = (Inr (), d')"
    using b by (rule and_then_Inr)
  obtain d0 where ok: ?ok and d0: "same_tables d d0" and up: "sql_upsert_snap s d0 = (Inr u, d1)"
    using u by (rule sql_Inr)
  obtain n d2 where n: "sql True (sql_snap_total tid) d1 = (Inr n, d2)" and ev: "evict tid n d2 = (Inr (), d')"
    using rest by (rule and_then_Inr)
  obtain d3 where d3: "same_tables d1 d3" and q: "sql_snap_total tid d3 = (Inr n, d2)"
    using n by (rule sql_Inr)
  have snaps: "db_snaps d2 = filter (\<lambda>x. snap_key x \<noteq> snap_key s) (db_snaps d) @ [s]"
    using up d0 d3 q by (auto simp: sql_upsert_snap_def sql_snap_total_def same_tables_def split: if_splits)
  have "n = snap_total tid d2" using q by (auto simp: sql_snap_total_def)
  moreover have "distinct (map snap_key (db_snaps d2))"
    using assms(1) by (auto simp: snaps db_wf_def snaps_wf_def distinct_map_filter')
  ultimately show thesis using that [of d2] snaps ev ok by blast
qed

lemma PutSnapshot_Inr:
  assumes "db_wf d" and "PutSnapshot tid path qh ctype headers body d = (Inr (), d')"
  obtains t d1 d2 where "db_now d \<le> t" and "t \<le> db_now d'"
    and "db_snaps d1 = filter (\<lambda>x. snap_key x \<noteq> (tid, path, qh)) (db_snaps d) @ [new_snap tid path qh ctype headers body t]"
    and "evict tid (snap_total tid d1) d1 = (Inr (), d2)" and "distinct (map snap_key (db_snaps d1))"
    and "same_tables d2 d'" and "pg_text path" and "pg_text qh"
proof -
  obtain d0 d2 where d0: "same_tables d d0" "next_outcome d = (Done, d0)"
    and b: "put_body tid path qh ctype (json_map headers) body d0 = (Inr (), d2)"
    and d2: "next_outcome d2 = (Done, d')" "same_tables d2 d'"
    using assms(2) unfolding PutSnapshot_def Let_def by (rule transaction_Inr)
  have wf0: "db_wf d0" "db_now d \<le> db_now d0"
    using next_outcome_good [OF assms(1) d0(2)] next_outcome_tables [OF d0(2)] by auto
  have "evolves d0 d2" using good_evolves [OF good_put_body wf0(1), of tid path qh ctype "json_map headers" body] b by simp
  then have t: "db_now d0 \<le> db_now d'" using next_outcome_tables [OF d2(1)] by (auto simp: evolves_defs)
  let ?s = "new_snap tid path qh ctype headers body (db_now d0)"
  obtain d1 where "db_snaps d1 = filter (\<lambda>x. snap_key x \<noteq> snap_key ?s) (db_snaps d0) @ [?s]"
    "evict tid (snap_total tid d1) d1 = (Inr (), d2)" "distinct (map snap_key (db_snaps d1))"
    "pg_text path" "pg_text qh"
    using put_body_Inr [OF wf0(1) b refl] by blast
  then show thesis using that [of "db_now d0" d1 d2] wf0(2) t d2(2) d0(1)
    by (simp add: same_tables_def snap_key_def new_snap_def)
qed

lemma put_get:
  assumes "db_wf d" and "PutSnapshot tid path qh ctype headers body d = (Inr (), d')"
    and "int (length body) \<le> MaxSnapshotBytes" and "\<forall>s \<in> set (snaps_of tid d). sn_time s < db_now d"
    and "next_outcome d' = (Done, d'')"
  shows "\<exists>t. db_now d \<le> t \<and> t \<le> db_now d' \<and> GetSnapshot tid path qh d'
    = (Inr \<lparr>ss_path = path, ss_ctype = ctype, ss_headers = json_map headers, ss_body = body, ss_captured = t\<rparr>, d'')"
proof -
  obtain t d1 d2 where t: "db_now d \<le> t" "t \<le> db_now d'"
    and d1: "db_snaps d1 = filter (\<lambda>x. snap_key x \<noteq> (tid, path, qh)) (db_snaps d) @ [new_snap tid path qh ctype headers body t]"
      "evict tid (snap_total tid d1) d1 = (Inr (), d2)" "distinct (map snap_key (db_snaps d1))"
    and d2: "same_tables d2 d'" and ok: "pg_text path" "pg_text qh"
    using assms(1,2) by (rule PutSnapshot_Inr)
  let ?s = "new_snap tid path qh ctype headers body t"
  have "?s \<in> set (snaps_of tid d1)" by (simp add: snaps_of_def d1(1) new_snap_def)
  moreover have "\<forall>x \<in> set (snaps_of tid d1). x = ?s \<or> sn_time x < sn_time ?s"
    using assms(4) t(1) by (auto simp: snaps_of_def d1(1) new_snap_def)
  moreover have "size_of ?s \<le> MaxSnapshotBytes" using assms(3) by (simp add: size_of_def new_snap_def)
  ultimately have "?s \<in> set (db_snaps d2)" using evict_keeps_newest [OF d1(2,3) refl] by blast
  then have mem: "?s \<in> set (db_snaps d'')"
    using d2 next_outcome_same [OF assms(5)] by (simp add: same_tables_def)
  have "db_wf d'" using good_wf [OF good_PutSnapshot assms(1), of tid path qh ctype headers body] assms(2) by simp
  then have "distinct (map snap_key (db_snaps d''))"
    using next_outcome_good [OF _ assms(5)] by (simp add: db_wf_def snaps_wf_def)
  from find_key_Some [OF this mem]
  have "find (\<lambda>x. snap_key x = (tid, path, qh)) (db_snaps d'') = Some ?s" by (simp add: snap_key_def new_snap_def)
  then have "sql_get_snap tid path qh d'' = (Inr ?s, d'')" by (simp add: sql_get_snap_def)
  then have "sql (pg_text path \<and> pg_text qh) (sql_get_snap tid path qh) d' = (Inr ?s, d'')"
    using ok by (simp add: sql_def assms(5))
  then show ?thesis using t
    by (auto simp: GetSnapshot_def not_found_def and_then_def map_err_def ret_def new_snap_def)
qed

text \<open>
  C26. A captured page comes back. After a successful \<open>PutSnapshot\<close> of a body within the cap,
  \<open>GetSnapshot\<close> for the same tunnel, path and query hash returns, when the database answers, that body with its content
  type and (JSON-clean) headers, whatever had to be evicted to make room and whatever was stored for
  the key before; the rows of the tunnel are assumed to be older than the new one.
\<close>
theorem put_snapshot_then_get:
  assumes "db_wf d" and "PutSnapshot tid path qh ctype headers body d = (Inr (), d')"
    and "int (length body) \<le> MaxSnapshotBytes" and "\<forall>s \<in> set (snaps_of tid d). sn_time s < db_now d"
    and "next_outcome d' = (Done, d'')"
  shows "\<exists>t. db_now d \<le> t \<and> t \<le> db_now d' \<and> GetSnapshot tid path qh d'
    = (Inr \<lparr>ss_path = path, ss_ctype = ctype, ss_headers = json_map headers, ss_body = body, ss_captured = t\<rparr>, d'')"
  by (rule put_get [OF assms])

text \<open>
  C24. The cache of a tunnel never exceeds its cap, and storing a page is all or nothing. Whatever fails during a \<open>PutSnapshot\<close>, a
  lost commit answer included (it runs as a whole, with no other capture in between), no tunnel that was within \<open>MaxSnapshotBytes\<close> is above
  it afterwards. Either no table has changed, and then the operation has returned an error, or it has done all its work: the
  page has replaced the one under its key, no table but the pages has changed, and from these only
  pages of the tunnel are gone, none of them younger than one that stayed and no more than the cap requires.
\<close>
theorem snapshot_cap_is_kept:
  assumes "db_wf d" and "\<forall>t. snap_total t d \<le> MaxSnapshotBytes"
    and "PutSnapshot tid path qh ctype headers body d = (r, d')"
  shows "(\<forall>t. snap_total t d' \<le> MaxSnapshotBytes)
    \<and> ((same_tables d d' \<and> isl r)
      \<or> (\<exists>stored t. set stored = {x \<in> set (db_snaps d). snap_key x \<noteq> (tid, path, qh)} \<union> {new_snap tid path qh ctype headers body t}
          \<and> db_now d \<le> t \<and> same_tables (d\<lparr>db_snaps := db_snaps d'\<rparr>) d' \<and> set (db_snaps d') \<subseteq> set stored
          \<and> (\<forall>x \<in> set stored - set (db_snaps d'). sn_tunnel x = tid \<and> (\<forall>y \<in> set (snaps_of tid d'). sn_time x \<le> sn_time y))
          \<and> (db_snaps d' = stored \<or> (\<exists>x \<in> set stored - set (db_snaps d'). MaxSnapshotBytes < snap_total tid d' + size_of x))))"
proof -
  from assms(3) consider "same_tables d d'" "isl r"
    | d0 d1 where "same_tables d d0" "next_outcome d = (Done, d0)"
        "put_body tid path qh ctype (json_map headers) body d0 = (Inr (), d1)" "same_tables d1 d'"
    unfolding PutSnapshot_def Let_def using transaction_cases [of "put_body tid path qh ctype (json_map headers) body" d r d'] by auto
  then show ?thesis
  proof cases
    case 1
    then show ?thesis using assms(2) same_tables_snaps by metis
  next
    case 2
    have wf0: "db_wf d0" "db_now d \<le> db_now d0"
      using next_outcome_good [OF assms(1) 2(2)] next_outcome_tables [OF 2(2)] by auto
    let ?s = "new_snap tid path qh ctype headers body (db_now d0)"
    obtain dx where dx: "db_snaps dx = filter (\<lambda>x. snap_key x \<noteq> snap_key ?s) (db_snaps d0) @ [?s]"
      "evict tid (snap_total tid dx) dx = (Inr (), d1)" "distinct (map snap_key (db_snaps dx))"
      using put_body_Inr [OF wf0(1) 2(3) refl] by blast
    note ev = evict_result [OF dx(2,3) refl] and mini = evict_minimal [OF dx(2,3) refl]
    have "snap_total t d1 = snap_total t d" if "t \<noteq> tid" for t
    proof -
      have "snaps_of t dx = snaps_of t d0"
        using that by (auto simp: snaps_of_def dx(1) new_snap_def snap_key_def intro!: filter_cong)
      then show ?thesis using ev that same_tables_snaps [OF 2(1), of t] by (simp add: snap_total_def)
    qed
    then have cap: "\<forall>t. snap_total t d' \<le> MaxSnapshotBytes" using ev same_tables_snaps [OF 2(4)] assms(2) by metis
    have rest: "same_tables (d\<lparr>db_snaps := db_snaps d'\<rparr>) d'"
      using same_rest_put [of d0 tid path qh ctype "json_map headers" body] 2 by (simp add: same_rest_def same_tables_def)
    have sn: "db_snaps d' = db_snaps d1" "snaps_of tid d' = snaps_of tid d1" "snap_total tid d' = snap_total tid d1" "db_snaps d0 = db_snaps d"
      using same_tables_snaps [OF 2(4)] 2(1,4) by (simp_all add: same_tables_def)
    have "set (db_snaps dx) = {x \<in> set (db_snaps d). snap_key x \<noteq> (tid, path, qh)} \<union> {?s}"
      using dx(1) sn(4) by (auto simp: new_snap_def snap_key_def)
    then show ?thesis using cap rest wf0(2) ev mini unfolding sn by blast
  qed
qed

text \<open>
  C25. Eviction takes the oldest pages of the same tunnel and nothing else. A row that a
  successful \<open>PutSnapshot\<close> removed, other than the one it replaces, belongs to that tunnel and is
  no younger than any page of the tunnel that stayed; the pages of other tunnels are untouched.
\<close>
theorem eviction_takes_oldest:
  assumes "db_wf d" and "PutSnapshot tid path qh ctype headers body d = (Inr (), d')"
    and "s \<in> set (db_snaps d)" and "s \<notin> set (db_snaps d')" and "snap_key s \<noteq> (tid, path, qh)"
  shows "sn_tunnel s = tid \<and> (\<forall>y \<in> set (snaps_of tid d'). sn_time s \<le> sn_time y)
    \<and> (\<forall>t. t \<noteq> tid \<longrightarrow> snaps_of t d' = snaps_of t d)"
proof -
  obtain t d1 d2 where
    d1: "db_snaps d1 = filter (\<lambda>x. snap_key x \<noteq> (tid, path, qh)) (db_snaps d) @ [new_snap tid path qh ctype headers body t]"
      "evict tid (snap_total tid d1) d1 = (Inr (), d2)" "distinct (map snap_key (db_snaps d1))"
    and d2: "same_tables d2 d'"
    using assms(1,2) by (rule PutSnapshot_Inr)
  note ev = evict_result [OF d1(2,3) refl]
  have "s \<in> set (db_snaps d1)" using d1(1) assms(3,5) by simp
  moreover have "s \<notin> set (db_snaps d2)" using d2 assms(4) by (simp add: same_tables_def)
  moreover have "snaps_of t' d1 = snaps_of t' d" if "t' \<noteq> tid" for t'
    using that by (auto simp: snaps_of_def d1(1) new_snap_def snap_key_def intro!: filter_cong)
  ultimately show ?thesis using ev same_tables_snaps [OF d2] by simp
qed

text \<open>
  An empty page is never cached: its body goes to the database as NULL, which the column refuses, and the transaction is rolled back.
\<close>
theorem empty_page_is_never_cached:
  "isl (fst (PutSnapshot tid path qh ctype headers [] d)) \<and> same_tables d (snd (PutSnapshot tid path qh ctype headers [] d))"
proof -
  have "\<exists>e. fst (put_body tid path qh ctype h [] d0) = Inl e" for h d0
    by (auto simp: put_body_def Let_def and_then_def sql_def sql_upsert_snap_def split: prod.split outcome.split)
  then have "(\<exists>e. fst (PutSnapshot tid path qh ctype headers [] d) = Inl e) \<and> same_tables d (snd (PutSnapshot tid path qh ctype headers [] d))"
    unfolding PutSnapshot_def Let_def by (intro transaction_body_fails)
  then show ?thesis by auto
qed

section \<open>Examples\<close>

definition demo_page_db :: db where
  "demo_page_db = snd (PutSnapshot 1 ''/'' [] ''text/html'' [(''X'', ''1'')] ''<p>hi</p>'' demo_db)"

lemma demo_put: "PutSnapshot 1 ''/'' [] ''text/html'' [(''X'', ''1'')] ''<p>hi</p>'' demo_db = (Inr (), demo_page_db)"
  unfolding demo_page_db_def demo_db_eq demo_user_db_eq by code_simp

lemma demo_page_quiet: "db_outcomes demo_page_db = []"
  unfolding demo_page_db_def demo_db_eq demo_user_db_eq by code_simp

lemma demo_no_snaps: "db_snaps demo_db = []"
  by (simp add: demo_db_eq demo_user_db_eq empty_db_def)

theorem put_snapshot_then_get_witness:
  "\<exists>t. GetSnapshot 1 ''/'' [] demo_page_db = (Inr \<lparr>ss_path = ''/'', ss_ctype = ''text/html'',
     ss_headers = [(''X'', ''1'')], ss_body = ''<p>hi</p>'', ss_captured = t\<rparr>, demo_page_db)"
proof -
  have "json_map [(''X'', ''1'')] = [(''X'', ''1'')]" by code_simp
  then show ?thesis
    using put_snapshot_then_get [OF demo_db_wf demo_put _ _ next_outcome_quiet [OF demo_page_quiet]]
    by (auto simp: snaps_of_def demo_no_snaps MaxSnapshotBytes_def)
qed

theorem snapshot_cap_is_kept_witness:
  "snap_total 1 demo_page_db \<le> MaxSnapshotBytes \<and> db_events demo_page_db = db_events demo_db"
proof -
  have "\<forall>t. snap_total t demo_db \<le> MaxSnapshotBytes" by (simp add: snap_total_def snaps_of_def demo_no_snaps MaxSnapshotBytes_def)
  from snapshot_cap_is_kept [OF demo_db_wf this demo_put] show ?thesis by (auto simp: same_tables_def)
qed

text \<open>A database whose tunnel has one page of 60 MiB, to which a second such page is added.\<close>

definition big_page :: bytes where "big_page = replicate (60 * 2 ^ 20) CHR ''x''"

lemma big_page_length: "int (length big_page) = 62914560"
  unfolding big_page_def length_replicate by simp

lemma big_page_some: "big_page \<noteq> []"
  using big_page_length by auto

definition big_snap :: "bytes \<Rightarrow> int \<Rightarrow> snap" where
  "big_snap path t = new_snap 1 path [] [] [] big_page t"

definition full_db :: db where
  "full_db = demo_db\<lparr>db_snaps := [big_snap ''/old'' 0], db_now := 9\<rparr>"

lemma full_db_wf: "db_wf full_db"
  using demo_db_wf by (auto simp: full_db_def wf_defs big_snap_def new_snap_def demo_db_eq demo_user_db_eq empty_db_def demo_tunnel_def)

lemma full_put: "PutSnapshot 1 ''/new'' [] [] [] big_page full_db = (Inr (), full_db\<lparr>db_snaps := [big_snap ''/new'' 9]\<rparr>)"
proof -
  have t: "pg_text ''/new''" "pg_text []" by code_simp+
  show ?thesis
    using big_page_length t big_page_some
    by (simp add: PutSnapshot_def Let_def transaction_def put_body_def and_then_def sql_upsert_snap_def
        sql_snap_total_def snap_total_def snaps_of_def full_db_def big_snap_def new_snap_def demo_db_eq demo_tunnel_def
        demo_user_db_eq empty_db_def snap_key_def json_map_def json_map_ok_def size_of_def evict.simps
        MaxSnapshotBytes_def sql_evict_oldest_def)
qed

theorem eviction_takes_oldest_witness:
  "big_snap ''/old'' 0 \<notin> set (db_snaps (snd (PutSnapshot 1 ''/new'' [] [] [] big_page full_db)))
   \<and> list_all (\<lambda>y. 0 \<le> sn_time y) (snaps_of 1 (snd (PutSnapshot 1 ''/new'' [] [] [] big_page full_db)))"
proof -
  have m: "big_snap ''/old'' 0 \<in> set (db_snaps full_db)"
    and n: "big_snap ''/old'' 0 \<notin> set (db_snaps (full_db\<lparr>db_snaps := [big_snap ''/new'' 9]\<rparr>))"
    and k: "snap_key (big_snap ''/old'' 0) \<noteq> (1, ''/new'', [])" and t: "sn_time (big_snap ''/old'' 0) = 0"
    by (simp_all add: full_db_def big_snap_def new_snap_def snap_key_def)
  show ?thesis
    unfolding full_put snd_conv list_all_iff using n eviction_takes_oldest [OF full_db_wf full_put m n k] unfolding t by blast
qed

end
