(* ===== verification/Offline.thy ===== *)
theory Offline
  imports Classify PageCache StoreSnapshots StoreEvents Proto
begin

text \<open>
  \<open>internal/edge/offline.go\<close>: what a visitor gets while the agent of a tunnel is away. A webhook is
  queued and acknowledged with 202, a page load is served from the cache, anything
  else gets a 503. A handler returns what it wrote, or \<open>Abort\<close> when it panics (the HTTP server then
  drops the connection).
\<close>

datatype served = Reply writer | Abort

definition line :: "bytes \<Rightarrow> bytes" where "line s = s @ [chr 10]"

definition brandedPage :: "bytes \<Rightarrow> bytes \<Rightarrow> bytes" where
  "brandedPage title0 message0 =
     (let title = EscapeString title0; message = EscapeString message0 in
      line (''<!doctype html><html><head><meta charset=\"utf-8\"><title>'' @ title @ ''</title>'')
      @ line ''<style>body{font-family:system-ui,sans-serif;background:#0b0c10;color:#e8e8ec;display:flex;''
      @ line ''align-items:center;justify-content:center;height:100vh;margin:0}''
      @ line ''.box{text-align:center;max-width:32rem;padding:2rem}''
      @ line ''h1{font-size:1.5rem;margin-bottom:.5rem}''
      @ line ''p{color:#9a9aa5}</style></head>''
      @ ''<body><div class=\"box\"><h1>'' @ title @ ''</h1><p>'' @ message @ ''</p></div></body></html>'')"

definition isHTML :: "bytes \<Rightarrow> bool" where
  "isHTML contentType = HasPrefix contentType ''text/html''"

definition bufferWebhook :: "request \<Rightarrow> tunnel \<Rightarrow> writer \<times> db \<Rightarrow> served \<times> db" where
  "bufferWebhook r t s =
     (case s of (w, d) \<Rightarrow>
      (case ReadAll_limit (MaxWebhookBody + 1) (req_body r) of
         None \<Rightarrow> (Reply (http_Error ''failed to read request body'' 400 w), d)
       | Some body \<Rightarrow>
          if MaxWebhookBody < length body then
            (Reply (http_Error ''request body exceeds buffering limit'' 413 w), d)
          else
            (case EnqueueEvent (tn_id t) (req_method r) (req_path r) (req_query r) (req_header r) body d of
               (Inl e, d') \<Rightarrow> (Reply (http_Error ''failed to buffer webhook'' 500 w), d')
             | (Inr i, d') \<Rightarrow>
                 (Reply (Write (line ''liveurl: agent offline, request buffered for replay'')
                   (WriteHeader 202
                     (w_set HeaderEventID (Itoa i) (w_set HeaderBuffered ''true'' w)))), d'))))"

fun copy_headers :: "(bytes \<times> bytes) list \<Rightarrow> writer \<Rightarrow> writer" where
  "copy_headers [] w = w"
| "copy_headers ((k, v) # h) w = copy_headers h (w_set k v w)"

definition no_snapshot_title :: bytes where
  "no_snapshot_title = ''Offline '' @ [chr 226, chr 128, chr 148] @ '' no snapshot''"

definition snapshot_page :: "platform \<Rightarrow> snapshot \<Rightarrow> bytes option" where
  "snapshot_page p snap =
     (if isHTML (ss_ctype snap) then InjectBanner p (ss_body snap) (ss_captured snap) else Some (ss_body snap))"

definition serveSnapshot :: "platform \<Rightarrow> request \<Rightarrow> tunnel \<Rightarrow> writer \<times> db \<Rightarrow> served \<times> db" where
  "serveSnapshot p r t s =
     (case s of (w, d) \<Rightarrow>
      (case GetSnapshot (tn_id t) (req_path r) (QueryHash p (req_query r)) d of
         (Inl e, d') \<Rightarrow>
           (Reply (http_Error (brandedPage no_snapshot_title
              ''The live server is offline and this page was never captured in the snapshot cache.'') 503 w), d')
       | (Inr snap, d') \<Rightarrow>
          (let w1 = copy_headers (ss_headers snap) w in
           case snapshot_page p snap of
             None \<Rightarrow> (Abort, d')
           | Some body \<Rightarrow>
               (Reply (Write body (WriteHeader 200 (w_set ''Content-Length'' (Itoa (int (length body))) w1))), d'))))"

definition ServeOffline :: "platform \<Rightarrow> request \<Rightarrow> tunnel \<Rightarrow> writer \<times> db \<Rightarrow> served \<times> db" where
  "ServeOffline p r t s =
     (if IsWebhook p (tn_rules t) r then bufferWebhook r t s
      else if req_method r = ''GET'' \<or> req_method r = ''HEAD'' then serveSnapshot p r t s
      else (case s of (w, d) \<Rightarrow>
        (Reply (http_Error (brandedPage ''503 Offline''
           (''The live server for this tunnel is offline and this request isn'' @ [CHR 0x27] @ ''t a page load, so there'' @
             [CHR 0x27] @ ''s nothing to show.'')) 503 w), d)))"

section \<open>Buffering\<close>

lemma Header_tokens_status: "w_sent w = None \<Longrightarrow> \<not> informational c \<Longrightarrow> client_status (Write p (WriteHeader c w)) = c"
  by (simp add: client_status_def)

lemma bufferWebhook_ok:
  assumes "ReadAll_limit (MaxWebhookBody + 1) (req_body r) = Some body" and "length body \<le> MaxWebhookBody"
    and "EnqueueEvent (tn_id t) (req_method r) (req_path r) (req_query r) (req_header r) body d = (Inr i, d')"
  shows "bufferWebhook r t (w, d) = (Reply (Write (line ''liveurl: agent offline, request buffered for replay'')
    (WriteHeader 202 (w_set HeaderEventID (Itoa i) (w_set HeaderBuffered ''true'' w)))), d')"
  using assms by (simp add: bufferWebhook_def)

lemma bufferWebhook_cases:
  assumes "bufferWebhook r t (w, d) = (res, d')"
  obtains (refused) msg c where "res = Reply (http_Error msg c w)" "c \<in> {400, 413}" "d' = d"
  | (failed) body e where "res = Reply (http_Error ''failed to buffer webhook'' 500 w)"
      "EnqueueEvent (tn_id t) (req_method r) (req_path r) (req_query r) (req_header r) body d = (Inl e, d')"
  | (accepted) i where "\<not> body_err (req_body r)" "length (body_data (req_body r)) \<le> MaxWebhookBody"
      "EnqueueEvent (tn_id t) (req_method r) (req_path r) (req_query r) (req_header r) (body_data (req_body r)) d = (Inr i, d')"
      "res = Reply (Write (line ''liveurl: agent offline, request buffered for replay'')
         (WriteHeader 202 (w_set HeaderEventID (Itoa i) (w_set HeaderBuffered ''true'' w))))"
proof (cases "ReadAll_limit (MaxWebhookBody + 1) (req_body r)")
  case None
  then show thesis using refused [of "''failed to read request body''" 400] assms
    by (simp add: bufferWebhook_def)
next
  case (Some body)
  show thesis
  proof (cases "MaxWebhookBody < length body")
    case True
    then show thesis using refused [of "''request body exceeds buffering limit''" 413] assms Some
      by (simp add: bufferWebhook_def)
  next
    case False
    then have b: "body = body_data (req_body r)" "\<not> body_err (req_body r)"
      using ReadAll_limit_short [OF Some] by simp_all
    obtain x dx where e: "EnqueueEvent (tn_id t) (req_method r) (req_path r) (req_query r) (req_header r) body d = (x, dx)"
      by fastforce
    show thesis
    proof (cases x)
      case (Inl er)
      then show thesis using failed assms Some False e by (simp add: bufferWebhook_def)
    next
      case (Inr i)
      then show thesis using accepted [of i] assms Some False e b by (simp add: bufferWebhook_def)
    qed
  qed
qed

lemma copy_headers_sent [simp]:
  "w_sent (copy_headers h w) = w_sent w" "w_out (copy_headers h w) = w_out w"
  "w_broken (copy_headers h w) = w_broken w"
  by (induction h arbitrary: w) auto

lemma serveSnapshot_status:
  assumes "w_sent w = None" and "serveSnapshot p r t (w, d) = (Reply w', d')"
  shows "client_status w' = 200 \<or> client_status w' = 503"
  using assms
  by (auto simp: serveSnapshot_def Let_def client_status_def split: prod.splits sum.splits option.splits if_splits)

lemma ServeOffline_202:
  assumes "w_sent w = None" and "ServeOffline p r t (w, d) = (Reply w', d')" and "client_status w' = 202"
  shows "IsWebhook p (tn_rules t) r \<and> bufferWebhook r t (w, d) = (Reply w', d')"
  using assms serveSnapshot_status [OF assms(1)]
  by (fastforce simp: ServeOffline_def split: if_splits)

lemma hook_queued:
  assumes "db_wf d" and "w_sent w = None" and "ServeOffline p r t (w, d) = (Reply w', d')"
    and "client_status w' = 202"
  shows "IsWebhook p (tn_rules t) r \<and> \<not> body_err (req_body r) \<and> length (body_data (req_body r)) \<le> MaxWebhookBody
    \<and> queue (tn_id t) d' = queue (tn_id t) d @
        [stored_event (tn_id t) (req_method r) (req_path r) (req_query r) (req_header r) (body_data (req_body r))
          (db_next_event d) (db_now d')]
    \<and> (\<forall>net. Header_Get (client_header net w') HeaderEventID = Itoa (db_next_event d))
    \<and> (\<forall>k. k \<noteq> tn_id t \<longrightarrow> queue k d' = queue k d)"
proof -
  note b = ServeOffline_202 [OF assms(2-4)]
  from b [THEN conjunct2] show ?thesis
  proof (cases rule: bufferWebhook_cases)
    case (refused msg c)
    then show ?thesis using assms(2,4) by auto
  next
    case (failed body e)
    then show ?thesis using assms(2,4) by simp
  next
    case (accepted i)
    note e = EnqueueEvent_Inr [OF assms(1) accepted(3)]
    have "Header_Get (handler_header w') HeaderEventID = Itoa i"
      using accepted(4) assms(2) by (simp add: handler_header_def Header_Get_Set)
    moreover have "Itoa i \<noteq> []" by (simp add: Itoa_def digits_nonempty)
    moreover have "CanonicalKey HeaderEventID \<notin> set (dropped_names (client_status w'))"
      unfolding canon_HeaderEventID by (simp add: dropped_names_def HeaderEventID_def)
    ultimately have "Header_Get (client_header net w') HeaderEventID = Itoa i" for net by (rule client_keeps)
    then show ?thesis
      using b e accepted(1,2) by (auto simp: queue_def queued_for_def stored_event_def)
  qed
qed

text \<open>
  C4. An acknowledged webhook is stored. If the offline handler answers 202 to a fresh request, then,
  whatever happened to the database meanwhile, the request was classified as a webhook, its body was
  read to the end and is within the limit, and it is now the last event in the tunnel's queue with
  its method, path, query, body and headers (as JSON keeps them, with invalid UTF-8 replaced); the response carries its number, and the
  queues of other tunnels are as before.
\<close>
theorem accepted_webhook_is_queued:
  assumes "db_wf d" and "w_sent w = None" and "ServeOffline p r t (w, d) = (Reply w', d')"
    and "client_status w' = 202"
  shows "IsWebhook p (tn_rules t) r \<and> \<not> body_err (req_body r) \<and> length (body_data (req_body r)) \<le> MaxWebhookBody
    \<and> queue (tn_id t) d' = queue (tn_id t) d @
        [stored_event (tn_id t) (req_method r) (req_path r) (req_query r) (req_header r) (body_data (req_body r))
          (db_next_event d) (db_now d')]
    \<and> (\<forall>net. Header_Get (client_header net w') HeaderEventID = Itoa (db_next_event d))
    \<and> (\<forall>k. k \<noteq> tn_id t \<longrightarrow> queue k d' = queue k d)"
  by (rule hook_queued [OF assms])

lemma hook_accepted:
  assumes "queue_ready (tn_id t) d" and "w_sent w = None" and "IsWebhook p (tn_rules t) r"
    and "hook_ok (req_method r, req_path r, req_query r, req_header r, body_data (req_body r))"
  shows "(\<not> body_err (req_body r) \<and> length (body_data (req_body r)) \<le> MaxWebhookBody \<longrightarrow>
        (\<exists>w' d'. ServeOffline p r t (w, d) = (Reply w', d') \<and> client_status w' = 202))
    \<and> (MaxWebhookBody < length (body_data (req_body r)) \<longrightarrow>
        (\<exists>w'. ServeOffline p r t (w, d) = (Reply w', d) \<and> client_status w' = 413))
    \<and> (body_err (req_body r) \<and> length (body_data (req_body r)) \<le> MaxWebhookBody \<longrightarrow>
        (\<exists>w'. ServeOffline p r t (w, d) = (Reply w', d) \<and> client_status w' = 400))"
proof (intro conjI impI)
  let ?b = "body_data (req_body r)"
  assume b: "\<not> body_err (req_body r) \<and> length ?b \<le> MaxWebhookBody"
  then have read: "ReadAll_limit (MaxWebhookBody + 1) (req_body r) = Some ?b"
    by (simp add: ReadAll_limit_def ReadAll_def)
  obtain i d' where "EnqueueEvent (tn_id t) (req_method r) (req_path r) (req_query r) (req_header r) ?b d = (Inr i, d')"
    using enqueue_quiet [OF assms(1,4)] by blast
  from bufferWebhook_ok [OF read _ this, of w] show "\<exists>w' d'. ServeOffline p r t (w, d) = (Reply w', d') \<and> client_status w' = 202"
    using assms(2,3) b by (simp add: ServeOffline_def client_status_def)
qed (use assms(2,3) in \<open>auto simp: ServeOffline_def bufferWebhook_def ReadAll_limit_def ReadAll_def\<close>)

text \<open>
  A webhook is turned away only for cause. When the database answers, a webhook for an existing
  tunnel whose method, path, query and headers Postgres can store and whose body arrives complete and
  within 5 MiB is acknowledged with 202; a longer body gets 413 and an
  unreadable one 400, and both leave the database alone.
\<close>
theorem webhook_is_accepted:
  assumes "queue_ready (tn_id t) d" and "w_sent w = None" and "IsWebhook p (tn_rules t) r"
    and "hook_ok (req_method r, req_path r, req_query r, req_header r, body_data (req_body r))"
  shows "(\<not> body_err (req_body r) \<and> length (body_data (req_body r)) \<le> MaxWebhookBody \<longrightarrow>
        (\<exists>w' d'. ServeOffline p r t (w, d) = (Reply w', d') \<and> client_status w' = 202))
    \<and> (MaxWebhookBody < length (body_data (req_body r)) \<longrightarrow>
        (\<exists>w'. ServeOffline p r t (w, d) = (Reply w', d) \<and> client_status w' = 413))
    \<and> (body_err (req_body r) \<and> length (body_data (req_body r)) \<le> MaxWebhookBody \<longrightarrow>
        (\<exists>w'. ServeOffline p r t (w, d) = (Reply w', d) \<and> client_status w' = 400))"
  by (rule hook_accepted [OF assms])

section \<open>Serving from the cache\<close>

lemma GetSnapshot_same: "same_tables d (snd (GetSnapshot tid path qh d))"
proof -
  let ?q = "sql (pg_text path \<and> pg_text qh) (sql_get_snap tid path qh)"
  obtain x d1 where x: "not_found ?q d = (x, d1)" by fastforce
  have "same_tables d (snd (?q d))" by (rule sql_read_same) simp
  moreover have "snd (not_found ?q d) = snd (?q d)" by (simp add: not_found_def)
  ultimately have "same_tables d d1" by (simp add: x)
  then show ?thesis by (simp add: GetSnapshot_def and_then_def ret_def x split: sum.split)
qed

lemma canon_content_length: "CanonicalKey ''Content-Length'' = ''Content-Length''"
  by code_simp

lemma page_served:
  assumes "\<not> IsWebhook p (tn_rules t) r" and "req_method r = ''GET'' \<or> req_method r = ''HEAD''"
    and "w_sent w = None" and "w_out w = []" and "\<not> w_broken w"
    and "GetSnapshot (tn_id t) (req_path r) (QueryHash p (req_query r)) d = (res, d')"
    and "ServeOffline p r t (w, d) = (sv, d'')"
  shows "same_tables d d''
    \<and> (case res of
        Inl e \<Rightarrow> \<exists>w'. sv = Reply w' \<and> client_status w' = 503
      | Inr snap \<Rightarrow>
          (case snapshot_page p snap of
             None \<Rightarrow> sv = Abort
           | Some page \<Rightarrow> \<exists>w'. sv = Reply w' \<and> client_status w' = 200 \<and> w_out w' = page
               \<and> (\<forall>net. Header_Get (client_header net w') ''Content-Length'' = Itoa (int (length page)))))"
proof -
  have same: "same_tables d d'" using GetSnapshot_same [of d "tn_id t" "req_path r" "QueryHash p (req_query r)"] assms(6) by simp
  have s: "serveSnapshot p r t (w, d) = (sv, d'')" using assms(1,2,7) by (simp add: ServeOffline_def)
  show ?thesis
  proof (cases res)
    case (Inl e)
    then show ?thesis using s same assms(3,6) by (auto simp: serveSnapshot_def)
  next
    case (Inr snap)
    have len: "Header_Get (client_header net w') ''Content-Length'' = Itoa (int (length page))"
      if "w' = Write page (WriteHeader 200 (w_set ''Content-Length'' (Itoa (int (length page))) w1))" "w_sent w1 = None" for net w' page w1
    proof (rule client_keeps)
      show "Header_Get (handler_header w') ''Content-Length'' = Itoa (int (length page))"
        using that by (simp add: handler_header_def Header_Get_Set)
      show "CanonicalKey ''Content-Length'' \<notin> set (dropped_names (client_status w'))"
        using that by (simp add: canon_content_length client_status_def dropped_names_def body_allowed_def)
    qed (simp add: Itoa_def digits_nonempty)
    show ?thesis using Inr s same assms(3-6) len
      by (auto simp: serveSnapshot_def Let_def client_status_def split: option.splits)
  qed
qed

text \<open>
  Offline page loads. A GET or HEAD that is no webhook changes no table. When the page is in the
  cache and its banner can be placed, the visitor gets status 200, the stored body with the banner if
  it is HTML, and a \<open>Content-Length\<close> that is the length of what is sent; when it is not in the cache
  (or the lookup fails), a 503.
\<close>
theorem offline_page_load:
  assumes "\<not> IsWebhook p (tn_rules t) r" and "req_method r = ''GET'' \<or> req_method r = ''HEAD''"
    and "w_sent w = None" and "w_out w = []" and "\<not> w_broken w"
    and "GetSnapshot (tn_id t) (req_path r) (QueryHash p (req_query r)) d = (res, d')"
    and "ServeOffline p r t (w, d) = (sv, d'')"
  shows "same_tables d d''
    \<and> (case res of
        Inl e \<Rightarrow> \<exists>w'. sv = Reply w' \<and> client_status w' = 503
      | Inr snap \<Rightarrow>
          (case snapshot_page p snap of
             None \<Rightarrow> sv = Abort
           | Some page \<Rightarrow> \<exists>w'. sv = Reply w' \<and> client_status w' = 200 \<and> w_out w' = page
               \<and> (\<forall>net. Header_Get (client_header net w') ''Content-Length'' = Itoa (int (length page)))))"
  by (rule page_served [OF assms])

text \<open>
  The offline page is not shown as a page: a request that is neither a webhook nor a page load is
  answered with 503 and an HTML document, but \<open>http.Error\<close> declares it plain text and forbids
  the browser to look closer.
\<close>
theorem offline_error_page_is_plain_text:
  assumes "\<not> IsWebhook p (tn_rules t) r" and "req_method r \<noteq> ''GET''" and "req_method r \<noteq> ''HEAD''"
    and "w_sent w = None" and "w_out w = []" and "\<not> w_broken w"
  shows "\<exists>w'. ServeOffline p r t (w, d) = (Reply w', d) \<and> client_status w' = 503
    \<and> HasPrefix (w_out w') ''<!doctype html>''
    \<and> (\<forall>net. Header_Get (client_header net w') ''Content-Type'' = ''text/plain; charset=utf-8''
      \<and> Header_Get (client_header net w') ''X-Content-Type-Options'' = ''nosniff'')"
proof -
  have c: "CanonicalKey ''Content-Type'' = ''Content-Type''" "CanonicalKey ''X-Content-Type-Options'' = ''X-Content-Type-Options''" by code_simp+
  have keeps: "Header_Get (client_header net w') k = v"
    if "client_status w' = 503" "Header_Get (handler_header w') k = v" "v \<noteq> []" "CanonicalKey k \<in> {''Content-Type'', ''X-Content-Type-Options''}"
    for net w' k v
    using that by (intro client_keeps) (auto simp: dropped_names_def body_allowed_def)
  have h: "HasPrefix (brandedPage a b @ x) ''<!doctype html>''" for a b x
    by (simp add: brandedPage_def Let_def line_def HasPrefix_def)
  show ?thesis
    using assms c h by (simp add: ServeOffline_def keeps handler_header_def Header_Get_Set)
qed

section \<open>Examples\<close>

definition get_request :: "bytes \<Rightarrow> request" where
  "get_request path = demo_request\<lparr>req_method := ''GET'', req_path := path, req_header := []\<rparr>"

lemma get_not_webhook: "IsWebhook p [] (get_request path) = False"
  by (simp add: IsWebhook_def header_hit_iff Header_Get_def heuristic_def get_request_def)

lemma demo_hook_ok: "hook_ok (''POST'', ''/hooks/pay'', [], [(''X-Github-Event'', [''push''])], ''{}'')"
  by code_simp

lemma demo_request_webhook: "IsWebhook demo_platform [''/hooks/*''] demo_request"
proof -
  have "CanonicalKey ''X-GitHub-Event'' = ''X-Github-Event''" by code_simp
  then show ?thesis
    by (auto simp: IsWebhook_def header_hit_iff SignatureHeaders_def Header_Get_def demo_request_def)
qed

theorem webhook_is_accepted_witness:
  "\<exists>w' d'. ServeOffline demo_platform demo_request demo_tunnel (new_writer, demo_db) = (Reply w', d') \<and> client_status w' = 202"
  using webhook_is_accepted [of demo_tunnel demo_db new_writer demo_platform demo_request]
    demo_queue_ready demo_hook_ok demo_request_webhook
  by (simp add: demo_tunnel_def demo_request_def new_writer_def MaxWebhookBody_def)

lemma demo_webhook_reply:
  "\<exists>w' d'. ServeOffline demo_platform demo_request demo_tunnel (new_writer, demo_db) = (Reply w', d') \<and> client_status w' = 202"
proof -
  have read: "ReadAll_limit (MaxWebhookBody + 1) (req_body demo_request) = Some ''{}''"
    by (simp add: ReadAll_limit_def ReadAll_def demo_request_def MaxWebhookBody_def)
  obtain i d' where "EnqueueEvent 1 ''POST'' ''/hooks/pay'' [] [(''X-Github-Event'', [''push''])] ''{}'' demo_db = (Inr i, d')"
    using enqueue_quiet [OF demo_queue_ready demo_hook_ok] by blast
  then have "bufferWebhook demo_request demo_tunnel (new_writer, demo_db) = (Reply (Write (line ''liveurl: agent offline, request buffered for replay'')
    (WriteHeader 202 (w_set HeaderEventID (Itoa i) (w_set HeaderBuffered ''true'' new_writer)))), d')"
    by (intro bufferWebhook_ok [OF read]) (simp_all add: demo_request_def demo_tunnel_def MaxWebhookBody_def)
  then show ?thesis using demo_request_webhook
    by (simp add: ServeOffline_def client_status_def demo_tunnel_def new_writer_def)
qed

theorem accepted_webhook_is_queued_witness:
  "\<exists>w' d'. ServeOffline demo_platform demo_request demo_tunnel (new_writer, demo_db) = (Reply w', d')
     \<and> map ev_body (queue 1 d') = [''{}''] \<and> (\<forall>net. Header_Get (client_header net w') HeaderEventID = ''1'')"
proof -
  obtain w' d' where r: "ServeOffline demo_platform demo_request demo_tunnel (new_writer, demo_db) = (Reply w', d')"
    "client_status w' = 202" using demo_webhook_reply by blast
  have "db_next_event demo_db = 1" by (simp add: demo_db_eq demo_user_db_eq empty_db_def)
  moreover have "Itoa 1 = ''1''" by code_simp
  ultimately show ?thesis
    using accepted_webhook_is_queued [OF demo_db_wf _ r] r(1)
    by (simp add: new_writer_def demo_tunnel_def demo_queue_empty stored_event_def demo_request_def)
qed

theorem offline_error_page_is_plain_text_witness:
  "\<exists>w'. ServeOffline demo_platform ((get_request ''/'')\<lparr>req_method := ''PUT''\<rparr>) (demo_tunnel\<lparr>tn_rules := []\<rparr>) (new_writer, demo_db)
     = (Reply w', demo_db) \<and> HasPrefix (w_out w') ''<!doctype html>''"
proof -
  have n: "\<not> IsWebhook demo_platform (tn_rules (demo_tunnel\<lparr>tn_rules := []\<rparr>)) ((get_request ''/'')\<lparr>req_method := ''PUT''\<rparr>)"
    by (simp add: IsWebhook_def header_hit_iff Header_Get_def heuristic_def get_request_def ToLower_ascii Contains_def)
  from offline_error_page_is_plain_text [OF n, of new_writer demo_db] show ?thesis
    by (auto simp: new_writer_def)
qed

definition demo_page_tunnel :: tunnel where
  "demo_page_tunnel = demo_tunnel\<lparr>tn_rules := []\<rparr>"

theorem offline_page_load_witness:
  "\<exists>w'. fst (ServeOffline demo_platform (get_request ''/'') demo_page_tunnel (new_writer, demo_page_db)) = Reply w'
     \<and> client_status w' = 200 \<and> w_out w' = ''<p>hi</p>'' @ banner demo_platform 0"
proof -
  let ?snap = "\<lparr>ss_path = ''/'', ss_ctype = ''text/html'', ss_headers = [(''X'', ''1'')], ss_body = ''<p>hi</p>'',
    ss_captured = 0\<rparr>"
  have g: "GetSnapshot (tn_id demo_page_tunnel) (req_path (get_request ''/''))
      (QueryHash demo_platform (req_query (get_request ''/''))) demo_page_db = (Inr ?snap, demo_page_db)"
    unfolding demo_page_db_def demo_db_eq demo_user_db_eq by code_simp
  have hi: "ToLower (pl_lower demo_platform) ''<p>hi</p>'' = ''<p>hi</p>''" by (simp add: lower_eval)
  have l: "LastIndex (ToLower (pl_lower demo_platform) ''<p>hi</p>'') ''</body>'' = None" unfolding hi by code_simp
  then have page: "snapshot_page demo_platform ?snap = Some (''<p>hi</p>'' @ banner demo_platform 0)"
    by (simp add: snapshot_page_def isHTML_def HasPrefix_def InjectBanner_def Let_def)
  obtain sv d'' where r: "ServeOffline demo_platform (get_request ''/'') demo_page_tunnel (new_writer, demo_page_db) = (sv, d'')"
    by fastforce
  have n: "\<not> IsWebhook demo_platform (tn_rules demo_page_tunnel) (get_request ''/'')"
    by (simp add: demo_page_tunnel_def get_not_webhook)
  have m: "req_method (get_request ''/'') = ''GET'' \<or> req_method (get_request ''/'') = ''HEAD''"
    by (simp add: get_request_def)
  show ?thesis
    using offline_page_load [OF n m _ _ _ g r] r by (auto simp: new_writer_def page)
qed

end
