(* ===== verification/Proxy.thy ===== *)
theory Proxy
  imports PageCache StoreSnapshots
begin

text \<open>
  \<open>internal/edge/proxy.go\<close>: a request for a connected agent is written to a stream, the response is copied to the
  client, and a response that qualifies is stored for offline use. What the stream does is an
  \<open>exchange\<close>: a failure at one of the three steps or a response. How the response body arrives in pieces is
  the argument \<open>reads\<close>.
\<close>

datatype exchange = XOpen bytes | XWrite bytes | XRead bytes | XReply response

definition maxTeeBody :: nat where "maxTeeBody = 20 * 2 ^ 20"

text \<open>
  What the client gets: an ordinary response, with the error \<open>forwardLive\<close> returned, or for a protocol upgrade
  the response with the bytes then carried to the agent and to the client, or a taken-over connection that is
  closed on an error, or a connection that is aborted because writing the status panicked.
\<close>

datatype live = Ended "go_error option" writer | Piped response bytes bytes | TakenDown go_error | Panicked

section \<open>The capped buffer\<close>

record capped_buffer =
  cb_buf :: bytes
  cb_limit :: nat
  cb_over :: bool

definition cb_new :: "nat \<Rightarrow> capped_buffer" where
  "cb_new limit = \<lparr>cb_buf = [], cb_limit = limit, cb_over = False\<rparr>"

definition cb_write :: "bytes \<Rightarrow> capped_buffer \<Rightarrow> capped_buffer" where
  "cb_write p c =
     (if \<not> cb_over c then
        if cb_limit c < length (cb_buf c) + length p then c\<lparr>cb_over := True\<rparr>
        else c\<lparr>cb_buf := cb_buf c @ p\<rparr>
      else c)"

section \<open>Copying the body\<close>

text \<open>
  \<open>io.Copy(io.MultiWriter(w, &cb), body)\<close> and \<open>io.Copy(w, body)\<close>: piece by piece, to the client first; a client
  that is gone ends the copy, and so does a body that breaks off. \<open>True\<close> means no error.
\<close>

fun copy_tee :: "bytes list \<Rightarrow> bool \<Rightarrow> writer \<times> capped_buffer \<Rightarrow> bool \<times> writer \<times> capped_buffer" where
  "copy_tee [] broken_off (w, cb) = (\<not> broken_off, w, cb)"
| "copy_tee (p # ps) broken_off (w, cb) =
     (if w_broken w then (False, Write p w, cb) else copy_tee ps broken_off (Write p w, cb_write p cb))"

fun copy_body :: "bytes list \<Rightarrow> bool \<Rightarrow> writer \<Rightarrow> bool \<times> writer" where
  "copy_body [] broken_off w = (\<not> broken_off, w)"
| "copy_body (p # ps) broken_off w =
     (if w_broken w then (False, Write p w) else copy_body ps broken_off (Write p w))"

fun add_values :: "bytes \<Rightarrow> bytes list \<Rightarrow> writer \<Rightarrow> writer" where
  "add_values k [] w = w"
| "add_values k (v # vs) w = add_values k vs (w\<lparr>w_header := Header_Add k v (w_header w)\<rparr>)"

fun add_headers :: "header \<Rightarrow> writer \<Rightarrow> writer" where
  "add_headers [] w = w"
| "add_headers ((k, vals) # h) w = add_headers h (add_values k vals w)"

definition storeSnapshot :: "platform \<Rightarrow> int \<Rightarrow> request \<Rightarrow> response \<Rightarrow> bytes \<Rightarrow> db \<Rightarrow> db" where
  "storeSnapshot p tid r resp body d =
     (let headers = Headers resp;
          contentType = Header_Get (resp_header resp) ''Content-Type'';
          queryHash = QueryHash p (req_query r) in
      snd (PutSnapshot tid (req_path r) queryHash contentType headers body d))"

section \<open>Upgrades\<close>

text \<open>
  What happens on the taken-over connection: whether taking it over fails, whether writing the response head
  fails, the client bytes already buffered, and the bytes that follow in each direction until the first
  direction ends.
\<close>

record upgrade_io =
  up_hijack_err :: "bytes option"
  up_write_err :: "bytes option"
  up_buffered :: bytes
  up_to_agent :: bytes
  up_to_client :: bytes

definition passthroughUpgrade :: "writer \<Rightarrow> response \<Rightarrow> upgrade_io \<Rightarrow> live" where
  "passthroughUpgrade w resp io =
     (if \<not> w_hijacker w then Ended (Some (ErrText ''response writer does not support hijacking'')) w
      else case up_hijack_err io of
        Some m \<Rightarrow> Ended (Some (Wrap ''hijack'' (ErrText m))) w
      | None \<Rightarrow>
          (case up_write_err io of
             Some m \<Rightarrow> TakenDown (Wrap ''write upgrade response'' (ErrText m))
           | None \<Rightarrow> Piped resp (up_buffered io @ up_to_agent io) (up_to_client io)))"

section \<open>Forwarding\<close>

definition forwardLive ::
  "platform \<Rightarrow> (bytes \<Rightarrow> bytes list) \<Rightarrow> upgrade_io \<Rightarrow> request \<Rightarrow> exchange \<Rightarrow> int \<Rightarrow> writer \<times> db \<Rightarrow> live \<times> db" where
  "forwardLive p reads io r x tid s =
     (case s of (w, d) \<Rightarrow>
      (case x of
         XOpen m \<Rightarrow> (Ended (Some (Wrap ''open stream'' (ErrText m))) w, d)
       | XWrite m \<Rightarrow> (Ended (Some (Wrap ''write request'' (ErrText m))) w, d)
       | XRead m \<Rightarrow> (Ended (Some (Wrap ''read response'' (ErrText m))) w, d)
       | XReply resp \<Rightarrow>
           if resp_status resp = 101 then (passthroughUpgrade w resp io, d)
           else if \<not> valid_status (resp_status resp) then (Panicked, d)
           else
             (let w1 = WriteHeader (resp_status resp) (add_headers (resp_header resp) w);
                  pieces = reads (body_data (resp_body resp));
                  broken_off = body_err (resp_body resp);
                  copy_err = Some (ErrText ''copy'') in
              if tid \<noteq> 0 \<and> req_method r = ''GET'' \<and> Cacheable p r resp then
                (case copy_tee pieces broken_off (w1, cb_new maxTeeBody) of
                   (ok, w2, cb) \<Rightarrow>
                     if \<not> ok then (Ended copy_err w2, d)
                     else if \<not> cb_over cb then (Ended None w2, storeSnapshot p tid r resp (cb_buf cb) d)
                     else (Ended None w2, d))
              else
                (case copy_body pieces broken_off w1 of
                   (ok, w2) \<Rightarrow> (Ended (if ok then None else copy_err) w2, d)))))"

section \<open>The capped buffer never holds a truncated body\<close>

lemma cb_write_limit [simp]: "cb_limit (cb_write p c) = cb_limit c"
  by (simp add: cb_write_def)

lemma cb_writes_over: "cb_over c \<Longrightarrow> fold cb_write ps c = c"
  by (induction ps) (simp_all add: cb_write_def)

lemma cb_writes:
  assumes "\<not> cb_over c" and "length (cb_buf c) \<le> cb_limit c"
  shows "cb_over (fold cb_write ps c) \<longleftrightarrow> cb_limit c < length (cb_buf c) + length (concat ps)"
    and "\<not> cb_over (fold cb_write ps c) \<Longrightarrow> cb_buf (fold cb_write ps c) = cb_buf c @ concat ps"
proof -
  have "(cb_over (fold cb_write ps c) \<longleftrightarrow> cb_limit c < length (cb_buf c) + length (concat ps))
    \<and> (\<not> cb_over (fold cb_write ps c) \<longrightarrow> cb_buf (fold cb_write ps c) = cb_buf c @ concat ps)"
    using assms
  proof (induction ps arbitrary: c)
    case Nil
    then show ?case by simp
  next
    case (Cons p ps)
    show ?case
    proof (cases "cb_limit c < length (cb_buf c) + length p")
      case True
      then have "cb_write p c = c\<lparr>cb_over := True\<rparr>" using Cons.prems by (simp add: cb_write_def)
      then show ?thesis using Cons.prems True by (simp add: cb_writes_over)
    next
      case False
      let ?c = "c\<lparr>cb_buf := cb_buf c @ p\<rparr>"
      have w: "cb_write p c = ?c" using Cons.prems False by (simp add: cb_write_def)
      show ?thesis using Cons.IH [of ?c] Cons.prems False by (simp add: w add.assoc)
    qed
  qed
  then show "cb_over (fold cb_write ps c) \<longleftrightarrow> cb_limit c < length (cb_buf c) + length (concat ps)"
    and "\<not> cb_over (fold cb_write ps c) \<Longrightarrow> cb_buf (fold cb_write ps c) = cb_buf c @ concat ps" by auto
qed

lemma copy_tee_ok:
  assumes "\<not> w_broken w" and "w_sent w \<noteq> None"
  shows "copy_tee ps broken_off (w, cb) = (\<not> broken_off, w\<lparr>w_out := w_out w @ concat ps\<rparr>, fold cb_write ps cb)"
  using assms
proof (induction ps arbitrary: w cb)
  case Nil
  then show ?case by simp
next
  case (Cons p ps)
  have "Write p w = w\<lparr>w_out := w_out w @ p\<rparr>" using Cons.prems by (simp add: Write_def WriteHeader_def Let_def)
  then show ?case using Cons by simp
qed

lemma copy_body_ok:
  assumes "\<not> w_broken w" and "w_sent w \<noteq> None"
  shows "copy_body ps broken_off w = (\<not> broken_off, w\<lparr>w_out := w_out w @ concat ps\<rparr>)"
  using assms
proof (induction ps arbitrary: w)
  case Nil
  then show ?case by simp
next
  case (Cons p ps)
  have "Write p w = w\<lparr>w_out := w_out w @ p\<rparr>" using Cons.prems by (simp add: Write_def WriteHeader_def Let_def)
  then show ?case using Cons by simp
qed

lemma copy_tee_success:
  assumes "copy_tee ps broken_off (w, cb) = (True, w', cb')"
  shows "\<not> broken_off \<and> cb' = fold cb_write ps cb"
  using assms by (induction ps arbitrary: w cb) (auto split: if_splits)

lemma add_values_simps [simp]:
  "w_sent (add_values k vs w) = w_sent w" "w_out (add_values k vs w) = w_out w" "w_broken (add_values k vs w) = w_broken w"
  "w_hijacker (add_values k vs w) = w_hijacker w"
  by (induction vs arbitrary: w) auto

lemma add_headers_simps [simp]:
  "w_sent (add_headers h w) = w_sent w" "w_out (add_headers h w) = w_out w" "w_broken (add_headers h w) = w_broken w"
  "w_hijacker (add_headers h w) = w_hijacker w"
  by (induction h w rule: add_headers.induct) auto

text \<open>Header maps as the server and the client library build them: canonical keys, once each, with values.\<close>

definition canonical :: "header \<Rightarrow> bool" where
  "canonical h = (distinct (map fst h) \<and> list_all (\<lambda>(k, vs). CanonicalKey k = k \<and> vs \<noteq> []) h)"

lemma update_last: "k \<notin> fst ` set h \<Longrightarrow> AList.update k v (h @ [(k, x)]) = h @ [(k, v)]"
  by (induction h) auto

lemma update_new: "k \<notin> fst ` set h \<Longrightarrow> AList.update k v h = h @ [(k, v)]"
  by (induction h) auto

lemma map_of_absent: "k \<notin> fst ` set h \<Longrightarrow> map_of h k = None"
  by (induction h) auto

lemma add_values_more:
  assumes "CanonicalKey k = k" and "k \<notin> fst ` set h" and "w_header w = h @ [(k, us)]"
  shows "w_header (add_values k vs w) = h @ [(k, us @ vs)]"
  using assms(3)
proof (induction vs arbitrary: w us)
  case Nil
  then show ?case by simp
next
  case (Cons v vs)
  have "Header_Add k v (w_header w) = h @ [(k, us @ [v])]"
    using assms(1,2) Cons.prems by (simp add: Header_Add_def map_add_def map_of_absent update_last)
  then show ?case using Cons.IH [of "w\<lparr>w_header := h @ [(k, us @ [v])]\<rparr>" "us @ [v]"] by simp
qed

lemma add_values_new:
  assumes "CanonicalKey k = k" and "k \<notin> fst ` set (w_header w)" and "vs \<noteq> []"
  shows "w_header (add_values k vs w) = w_header w @ [(k, vs)]"
proof -
  obtain v us where vs: "vs = v # us" using assms(3) by (cases vs) auto
  have "Header_Add k v (w_header w) = w_header w @ [(k, [v])]"
    using assms(1,2) by (simp add: Header_Add_def map_of_absent update_new)
  then show ?thesis
    using add_values_more [OF assms(1,2), of "w\<lparr>w_header := w_header w @ [(k, [v])]\<rparr>" "[v]" us] vs by simp
qed

lemma add_headers_canonical:
  "canonical (w_header w @ h) \<Longrightarrow> w_header (add_headers h w) = w_header w @ h"
proof (induction h arbitrary: w)
  case Nil
  then show ?case by simp
next
  case (Cons kv h)
  obtain k vs where kv: "kv = (k, vs)" by fastforce
  have "w_header (add_values k vs w) = w_header w @ [(k, vs)]"
    using Cons.prems kv by (intro add_values_new) (auto simp: canonical_def)
  then show ?case using Cons.IH [of "add_values k vs w"] Cons.prems kv by simp
qed

text \<open>
  C27. The proxy is transparent. However the body arrives in pieces, a complete response of the app with a status from 200 to 999 (neither
  an upgrade nor an interim response) and headers as \<open>http.ReadResponse\<close> delivers them (canonical names, once each; no body where the
  status or a \<open>HEAD\<close> request allows none) reaches a connected client with the same status, the same body, and every header line as it was, except
  \<open>Connection\<close> and \<open>Transfer-Encoding\<close>, which belong to each connection, and the lines about a body the status does not allow; the only
  lines added are \<open>net/http\<close>'s own: those two and, where the app sent none, a date, a sniffed content type and a
  length. This holds whether or not the response is also stored.
\<close>
theorem live_response_passes_unchanged:
  assumes "\<And>b. concat (reads b) = b" and "200 \<le> resp_status resp \<and> resp_status resp \<le> 999" and "\<not> body_err (resp_body resp)"
    and "canonical (resp_header resp)"
    and "\<not> body_allowed (resp_status resp) \<or> req_method r = ''HEAD'' \<Longrightarrow> body_data (resp_body resp) = []"
  shows "\<exists>w' d'. forwardLive p reads io r (XReply resp) tid (new_writer, d) = (Ended None w', d')
    \<and> client_status w' = resp_status resp \<and> w_out w' = body_data (resp_body resp)
    \<and> (\<forall>net. \<forall>(k, vs) \<in> set (resp_header resp). k \<notin> set (dropped_names (resp_status resp)) \<longrightarrow> (k, vs) \<in> set (client_header net w'))
    \<and> (\<forall>net. \<forall>(k, vs) \<in> set (client_header net w'). (k, vs) \<in> set (resp_header resp) \<or> k \<in> {''Connection'', ''Transfer-Encoding''}
        \<or> (k \<in> {''Content-Length'', ''Content-Type'', ''Date''} \<and> k \<notin> fst ` set (resp_header resp)))"
proof -
  let ?w1 = "WriteHeader (resp_status resp) (add_headers (resp_header resp) new_writer)"
  have c: "\<not> informational (resp_status resp)" "valid_status (resp_status resp)" "resp_status resp \<noteq> 101"
    using assms(2) by (auto simp: informational_def valid_status_def)
  have h: "w_header (add_headers (resp_header resp) new_writer) = resp_header resp"
    using add_headers_canonical [of new_writer "resp_header resp"] assms(4) by (simp add: new_writer_def)
  have w1: "w_sent ?w1 = Some (resp_status resp, resp_header resp)" "\<not> w_broken ?w1" "w_out ?w1 = []"
    using h c(1) by (simp_all add: new_writer_def)
  have t: "copy_tee (reads b) False (?w1, cb) = (True, ?w1\<lparr>w_out := b\<rparr>, fold cb_write (reads b) cb)"
    and b: "copy_body (reads b) False ?w1 = (True, ?w1\<lparr>w_out := b\<rparr>)" for b cb
    using copy_tee_ok [of ?w1 "reads b" False cb] copy_body_ok [of ?w1 "reads b" False] w1 assms(1) by simp_all
  let ?w2 = "?w1\<lparr>w_out := body_data (resp_body resp)\<rparr>"
  have w2: "client_status ?w2 = resp_status resp" "handler_header ?w2 = resp_header resp" "w_out ?w2 = body_data (resp_body resp)"
    using w1 by (simp_all add: client_status_def handler_header_def)
  have "\<forall>(k, vs) \<in> set (resp_header resp). k \<notin> set (dropped_names (resp_status resp)) \<longrightarrow> (k, vs) \<in> set (client_header net ?w2)"
    and "\<forall>(k, vs) \<in> set (client_header net ?w2). (k, vs) \<in> set (resp_header resp) \<or> k \<in> {''Connection'', ''Transfer-Encoding''}
        \<or> (k \<in> {''Content-Length'', ''Content-Type'', ''Date''} \<and> k \<notin> fst ` set (resp_header resp))" for net
    subgoal using client_header_kept [where w = ?w2 and net = net] unfolding w2 by blast
    subgoal using client_header_added [where w = ?w2 and net = net] unfolding w2 by blast
    done
  moreover have "\<exists>d'. forwardLive p reads io r (XReply resp) tid (new_writer, d) = (Ended None ?w2, d')"
    using assms(3) c t b by (simp add: forwardLive_def Let_def)
  ultimately show ?thesis using w2(1,3) by blast
qed

text \<open>
  C12. Only complete public pages are stored. Whatever the agent, the client and the database do, a request that went to
  the agent changes the tables only if it was a GET for a known tunnel with a cacheable response whose body arrived to its end and has at
  most 20 MiB; what is stored then is exactly that body under the request's path and query.
\<close>
theorem only_complete_public_pages_are_stored:
  assumes "\<And>b. concat (reads b) = b" and "forwardLive p reads io r x tid (w, d) = (l, d')" and "d' \<noteq> d"
  shows "\<exists>resp. x = XReply resp \<and> tid \<noteq> 0 \<and> Cacheable p r resp \<and> \<not> body_err (resp_body resp)
    \<and> length (body_data (resp_body resp)) \<le> maxTeeBody
    \<and> d' = snd (PutSnapshot tid (req_path r) (QueryHash p (req_query r))
        (Header_Get (resp_header resp) ''Content-Type'') (Headers resp) (body_data (resp_body resp)) d)"
proof -
  obtain resp where x: "x = XReply resp" "resp_status resp \<noteq> 101" "tid \<noteq> 0" "Cacheable p r resp"
    using assms(2,3) by (auto simp: forwardLive_def Let_def split: exchange.splits if_splits prod.splits)
  let ?w1 = "WriteHeader (resp_status resp) (add_headers (resp_header resp) w)"
  let ?b = "body_data (resp_body resp)"
  obtain ok w2 cb where t: "copy_tee (reads ?b) (body_err (resp_body resp)) (?w1, cb_new maxTeeBody) = (ok, w2, cb)"
    by (metis prod_cases3)
  have "req_method r = ''GET''" using x(4) by (auto simp: Cacheable_def split: if_splits)
  then have ok: "ok" "\<not> cb_over cb" "d' = storeSnapshot p tid r resp (cb_buf cb) d"
    using assms(2,3) x t by (auto simp: forwardLive_def Let_def split: if_splits)
  note s = copy_tee_success [of "reads ?b" "body_err (resp_body resp)" ?w1 "cb_new maxTeeBody" w2 cb]
  have cb: "cb = fold cb_write (reads ?b) (cb_new maxTeeBody)" "\<not> body_err (resp_body resp)"
    using s t ok(1) by auto
  have "\<not> maxTeeBody < length (concat (reads ?b))" "cb_buf cb = concat (reads ?b)"
    using cb_writes [of "cb_new maxTeeBody" "reads ?b"] cb ok(2) by (simp_all add: cb_new_def)
  then show ?thesis using x cb ok(3) assms(1) by (simp add: storeSnapshot_def Let_def)
qed

text \<open>
  An agent that fails before it answers looks like success. When the stream to the agent cannot be opened or written, or
  no response can be read from it, \<open>forwardLive\<close> returns an error that its caller only logs: nothing has been
  written, so the client receives status 200 with an empty body and no header but \<open>net/http\<close>'s own, and a webhook sent at that moment is neither delivered nor queued.
\<close>
theorem agent_failure_looks_like_success:
  assumes "\<forall>resp. x \<noteq> XReply resp"
  shows "\<exists>e w'. forwardLive p reads io r x tid (new_writer, d) = (Ended (Some e) w', d)
    \<and> client_status w' = 200 \<and> handler_header w' = [] \<and> w_out w' = []"
  using assms by (cases x) (auto simp: forwardLive_def new_writer_def client_status_def handler_header_def)

text \<open>
  An interim response hides the answer. When the app sends \<open>100 Continue\<close> or another interim response first (as it does for an upload
  with \<open>Expect: 100-continue\<close>), that is the response the edge reads and passes on: the app's own answer is never read, and the
  client gets status 200 with an empty body.
\<close>
theorem interim_response_hides_the_answer:
  assumes "informational (resp_status resp)" and "resp_body resp = \<lparr>body_data = [], body_err = False\<rparr>" and "reads [] = []"
  shows "\<exists>w'. forwardLive p reads io r (XReply resp) tid (new_writer, d) = (Ended None w', d)
    \<and> client_status w' = 200 \<and> w_out w' = []"
proof -
  have "valid_status (resp_status resp)" "resp_status resp \<noteq> 101" "resp_status resp \<noteq> 200"
    using assms(1) by (auto simp: informational_def valid_status_def)
  then show ?thesis using assms by (auto simp: forwardLive_def Let_def Cacheable_def new_writer_def client_status_def WriteHeader_def)
qed

lemma cacheable_is_stored:
  assumes "\<And>b. concat (reads b) = b" and "Cacheable p r resp" and "tid \<noteq> 0" and "\<not> w_broken w" and "w_sent w = None"
    and "\<not> body_err (resp_body resp)" and "length (body_data (resp_body resp)) \<le> maxTeeBody"
  shows "\<exists>w'. forwardLive p reads io r (XReply resp) tid (w, d)
    = (Ended None w', storeSnapshot p tid r resp (body_data (resp_body resp)) d)"
proof -
  let ?b = "body_data (resp_body resp)"
  let ?w1 = "WriteHeader (resp_status resp) (add_headers (resp_header resp) w)"
  have c: "req_method r = ''GET''" "resp_status resp = 200" using assms(2) by (auto simp: Cacheable_def split: if_splits)
  have t: "copy_tee (reads ?b) False (?w1, cb_new maxTeeBody)
      = (True, ?w1\<lparr>w_out := w_out ?w1 @ ?b\<rparr>, fold cb_write (reads ?b) (cb_new maxTeeBody))"
    using copy_tee_ok [of ?w1 "reads ?b" False "cb_new maxTeeBody"] assms(1,4,5) c(2) by simp
  have cb: "\<not> cb_over (fold cb_write (reads ?b) (cb_new maxTeeBody))"
    using cb_writes(1) [of "cb_new maxTeeBody" "reads ?b"] assms(1,7) by (simp add: cb_new_def)
  then have "cb_buf (fold cb_write (reads ?b) (cb_new maxTeeBody)) = ?b"
    using cb_writes(2) [of "cb_new maxTeeBody" "reads ?b"] assms(1) by (simp add: cb_new_def)
  then show ?thesis using assms(2,3,6) c t cb by (simp add: forwardLive_def Let_def)
qed

section \<open>Examples\<close>

definition demo_page_request :: request where
  "demo_page_request = \<lparr>req_method = ''GET'', req_host = ''myapp.lvh.me:8080'', req_path = ''/'', req_rawpath = [],
     req_query = [], req_header = [], req_body = \<lparr>body_data = [], body_err = False\<rparr>, req_remote = ''10.0.0.1:999''\<rparr>"

definition demo_page_response :: response where
  "demo_page_response = \<lparr>resp_status = 200, resp_header = [(''Content-Type'', [''text/html''])],
     resp_body = \<lparr>body_data = ''<p>hi</p>'', body_err = False\<rparr>\<rparr>"

definition demo_io :: upgrade_io where
  "demo_io = \<lparr>up_hijack_err = None, up_write_err = None, up_buffered = [], up_to_agent = [], up_to_client = []\<rparr>"

definition bytewise :: "bytes \<Rightarrow> bytes list" where "bytewise b = map (\<lambda>c. [c]) b"

lemma concat_bytewise: "concat (bytewise b) = b"
  by (induction b) (simp_all add: bytewise_def)

lemma demo_canonical: "canonical (resp_header demo_page_response)"
  by code_simp

theorem live_response_passes_unchanged_witness:
  "\<exists>w' d'. forwardLive demo_platform bytewise demo_io demo_page_request (XReply demo_page_response) 1 (new_writer, demo_db)
     = (Ended None w', d') \<and> w_out w' = ''<p>hi</p>''"
proof -
  have a: "200 \<le> resp_status demo_page_response \<and> resp_status demo_page_response \<le> 999" "\<not> body_err (resp_body demo_page_response)"
    "body_data (resp_body demo_page_response) = ''<p>hi</p>''"
    "body_allowed (resp_status demo_page_response)" "req_method demo_page_request \<noteq> ''HEAD''"
    by (simp_all add: demo_page_response_def demo_page_request_def body_allowed_def)
  have "\<exists>w' d'. forwardLive demo_platform bytewise demo_io demo_page_request (XReply demo_page_response) 1 (new_writer, demo_db)
     = (Ended None w', d') \<and> client_status w' = resp_status demo_page_response \<and> w_out w' = body_data (resp_body demo_page_response)"
    using live_response_passes_unchanged [OF concat_bytewise a(1,2) demo_canonical, where r = demo_page_request] a(4,5) by blast
  then show ?thesis using a(3) by auto
qed

theorem agent_failure_looks_like_success_witness:
  "\<exists>e w'. forwardLive demo_platform bytewise demo_io (demo_page_request\<lparr>req_method := ''POST''\<rparr>) (XOpen ''session shutdown'') 1
     (new_writer, demo_db) = (Ended (Some e) w', demo_db) \<and> client_status w' = 200"
  using agent_failure_looks_like_success [of "XOpen ''session shutdown''" demo_platform bytewise demo_io
      "demo_page_request\<lparr>req_method := ''POST''\<rparr>" 1 demo_db] by blast

theorem interim_response_hides_the_answer_witness:
  "\<exists>w'. forwardLive demo_platform bytewise demo_io (demo_page_request\<lparr>req_method := ''POST''\<rparr>)
      (XReply \<lparr>resp_status = 100, resp_header = [], resp_body = \<lparr>body_data = [], body_err = False\<rparr>\<rparr>) 1 (new_writer, demo_db) = (Ended None w', demo_db)
    \<and> client_status w' = 200 \<and> w_out w' = []"
  by (rule interim_response_hides_the_answer) (simp_all add: bytewise_def)

lemma demo_cacheable: "Cacheable demo_platform demo_page_request demo_page_response"
  unfolding demo_page_request_def demo_page_response_def by code_simp

lemma demo_live:
  "db_snaps (snd (forwardLive demo_platform bytewise demo_io demo_page_request (XReply demo_page_response) 1 (new_writer, demo_db)))
     = [new_snap 1 ''/'' [] ''text/html'' [(''Content-Type'', ''text/html'')] ''<p>hi</p>'' 0]"
proof -
  have a: "Headers demo_page_response = [(''Content-Type'', ''text/html'')]"
    and b: "Header_Get (resp_header demo_page_response) ''Content-Type'' = ''text/html''"
    unfolding demo_page_response_def by code_simp+
  have c: "db_snaps (storeSnapshot demo_platform 1 demo_page_request demo_page_response ''<p>hi</p>'' demo_db)
     = [new_snap 1 ''/'' [] ''text/html'' [(''Content-Type'', ''text/html'')] ''<p>hi</p>'' 0]"
    unfolding storeSnapshot_def Let_def a b demo_db_eq demo_user_db_eq demo_page_request_def by code_simp
  obtain w' where "forwardLive demo_platform bytewise demo_io demo_page_request (XReply demo_page_response) 1 (new_writer, demo_db)
      = (Ended None w', storeSnapshot demo_platform 1 demo_page_request demo_page_response ''<p>hi</p>'' demo_db)"
    using cacheable_is_stored [OF concat_bytewise demo_cacheable, of 1 new_writer demo_io demo_db]
    by (auto simp: new_writer_def demo_page_response_def maxTeeBody_def)
  then show ?thesis using c by simp
qed

theorem only_complete_public_pages_are_stored_witness:
  "Cacheable demo_platform demo_page_request demo_page_response \<and>
   snd (forwardLive demo_platform bytewise demo_io demo_page_request (XReply demo_page_response) 1 (new_writer, demo_db))
     = snd (PutSnapshot 1 ''/'' [] ''text/html'' (Headers demo_page_response) ''<p>hi</p>'' demo_db)"
proof -
  obtain l d' where r: "forwardLive demo_platform bytewise demo_io demo_page_request (XReply demo_page_response) 1 (new_writer, demo_db) = (l, d')"
    by fastforce
  have "d' \<noteq> demo_db" using demo_live demo_no_snaps by (auto simp: r)
  moreover have "Header_Get (resp_header demo_page_response) ''Content-Type'' = ''text/html''"
    unfolding demo_page_response_def by code_simp
  ultimately show ?thesis
    using only_complete_public_pages_are_stored [OF concat_bytewise r] r
    by (auto simp: demo_page_request_def demo_page_response_def QueryHash_def)
qed

end
