(* ===== verification/GoRegexp.thy ===== *)
theory GoRegexp
  imports GoStrings
begin

text \<open>
  The regular expressions the program compiles are anchored at both ends and built from rune
  classes, concatenation and bounded or unbounded repetition. They are given their language
  and decided by derivatives; \<open>MatchString\<close> runs over the runes of a string, as Go's does.
\<close>

datatype 'a re =
    Zero
  | One
  | Cls "'a \<Rightarrow> bool"
  | Alt "'a re" "'a re"
  | Cat "'a re" "'a re"
  | Star "'a re"

text \<open>The operators \<open>e+\<close> and \<open>e{m,n}\<close>.\<close>

definition Plus :: "'a re \<Rightarrow> 'a re" where "Plus r = Cat r (Star r)"

fun Upto :: "nat \<Rightarrow> 'a re \<Rightarrow> 'a re" where
  "Upto 0 r = One"
| "Upto (Suc n) r = Alt One (Cat r (Upto n r))"

fun Repeat :: "nat \<Rightarrow> nat \<Rightarrow> 'a re \<Rightarrow> 'a re" where
  "Repeat 0 n r = Upto n r"
| "Repeat (Suc m) n r = Cat r (Repeat m (n - 1) r)"

inductive lang :: "'a re \<Rightarrow> 'a list \<Rightarrow> bool" where
  One: "lang One []"
| Cls: "p a \<Longrightarrow> lang (Cls p) [a]"
| AltL: "lang r xs \<Longrightarrow> lang (Alt r s) xs"
| AltR: "lang s xs \<Longrightarrow> lang (Alt r s) xs"
| Cat: "lang r xs \<Longrightarrow> lang s ys \<Longrightarrow> lang (Cat r s) (xs @ ys)"
| StarNil: "lang (Star r) []"
| StarCons: "lang r xs \<Longrightarrow> lang (Star r) ys \<Longrightarrow> lang (Star r) (xs @ ys)"

inductive_cases lang_ZeroE: "lang Zero xs"
inductive_simps lang_One [simp]: "lang One xs"
inductive_simps lang_Cls [simp]: "lang (Cls p) xs"
inductive_simps lang_Alt [simp]: "lang (Alt r s) xs"
inductive_simps lang_Cat: "lang (Cat r s) xs"

lemma lang_Zero [simp]: "\<not> lang Zero xs"
  by (auto elim: lang_ZeroE)

fun nullable :: "'a re \<Rightarrow> bool" where
  "nullable Zero = False"
| "nullable One = True"
| "nullable (Cls p) = False"
| "nullable (Alt r s) = (nullable r \<or> nullable s)"
| "nullable (Cat r s) = (nullable r \<and> nullable s)"
| "nullable (Star r) = True"

fun deriv :: "'a \<Rightarrow> 'a re \<Rightarrow> 'a re" where
  "deriv a Zero = Zero"
| "deriv a One = Zero"
| "deriv a (Cls p) = (if p a then One else Zero)"
| "deriv a (Alt r s) = Alt (deriv a r) (deriv a s)"
| "deriv a (Cat r s) =
     (if nullable r then Alt (Cat (deriv a r) s) (deriv a s) else Cat (deriv a r) s)"
| "deriv a (Star r) = Cat (deriv a r) (Star r)"

definition re_match :: "'a re \<Rightarrow> 'a list \<Rightarrow> bool" where
  "re_match r xs = nullable (fold deriv xs r)"

text \<open>\<open>regexp.MatchString\<close> for an expression of the form \<open>^r$\<close>.\<close>

definition MatchString :: "rune re \<Rightarrow> bytes \<Rightarrow> bool" where
  "MatchString r s = re_match r (utf8_decode s)"

section \<open>The matcher decides the language\<close>

lemma nullable_lang: "nullable r \<longleftrightarrow> lang r []"
  by (induction r) (auto simp: lang_Cat intro: lang.intros)

lemma lang_Star_Cons:
  "lang (Star r) (a # xs) \<longleftrightarrow> (\<exists>ys zs. xs = ys @ zs \<and> lang r (a # ys) \<and> lang (Star r) zs)"
proof
  assume "lang (Star r) (a # xs)"
  then show "\<exists>ys zs. xs = ys @ zs \<and> lang r (a # ys) \<and> lang (Star r) zs"
  proof (induction "Star r" "a # xs" arbitrary: a xs rule: lang.induct)
    case (StarCons us vs)
    then show ?case by (cases us) auto
  qed
next
  assume "\<exists>ys zs. xs = ys @ zs \<and> lang r (a # ys) \<and> lang (Star r) zs"
  then obtain ys zs where "xs = ys @ zs" "lang r (a # ys)" "lang (Star r) zs" by blast
  then show "lang (Star r) (a # xs)" using lang.StarCons [of r "a # ys" zs] by simp
qed

lemma lang_Cat_Cons:
  "lang (Cat r s) (a # xs) \<longleftrightarrow>
     (\<exists>ys zs. xs = ys @ zs \<and> lang r (a # ys) \<and> lang s zs) \<or> (lang r [] \<and> lang s (a # xs))"
proof
  assume "lang (Cat r s) (a # xs)"
  then obtain us vs where "a # xs = us @ vs" "lang r us" "lang s vs" by (auto simp: lang_Cat)
  then show "(\<exists>ys zs. xs = ys @ zs \<and> lang r (a # ys) \<and> lang s zs) \<or> (lang r [] \<and> lang s (a # xs))"
    by (cases us) auto
next
  assume "(\<exists>ys zs. xs = ys @ zs \<and> lang r (a # ys) \<and> lang s zs) \<or> (lang r [] \<and> lang s (a # xs))"
  then show "lang (Cat r s) (a # xs)"
    by (metis append_Cons append_Nil lang.Cat)
qed

lemma lang_deriv: "lang (deriv a r) xs \<longleftrightarrow> lang r (a # xs)"
proof (induction r arbitrary: xs)
  case (Cat r s)
  have l: "lang (Cat (deriv a r) s) xs \<longleftrightarrow> (\<exists>ys zs. xs = ys @ zs \<and> lang r (a # ys) \<and> lang s zs)"
    by (simp add: lang_Cat Cat.IH)
  show ?case by (simp add: lang_Cat_Cons nullable_lang Cat.IH l)
next
  case (Star r)
  have l: "lang (Cat (deriv a r) (Star r)) xs \<longleftrightarrow> (\<exists>ys zs. xs = ys @ zs \<and> lang r (a # ys) \<and> lang (Star r) zs)"
    by (simp add: lang_Cat Star.IH)
  show ?case by (simp add: lang_Star_Cons l)
qed auto

lemma re_match_lang: "re_match r xs \<longleftrightarrow> lang r xs"
proof -
  have "nullable (fold deriv xs r) \<longleftrightarrow> lang r xs"
    by (induction xs arbitrary: r) (simp_all add: nullable_lang lang_deriv)
  then show ?thesis by (simp add: re_match_def)
qed

section \<open>Repeated classes\<close>

lemma lang_Cat_Cls: "lang (Cat (Cls p) r) xs \<longleftrightarrow> (\<exists>y ys. xs = y # ys \<and> p y \<and> lang r ys)"
proof -
  have "lang (Cat (Cls p) r) xs \<longleftrightarrow> (\<exists>us vs. xs = us @ vs \<and> lang (Cls p) us \<and> lang r vs)"
    by (rule lang_Cat)
  also have "\<dots> \<longleftrightarrow> (\<exists>y ys. xs = y # ys \<and> p y \<and> lang r ys)"
    by (simp only: lang_Cls) (metis append_Cons append_Nil)
  finally show ?thesis .
qed

lemma lang_Star_Cls: "lang (Star (Cls p)) xs \<longleftrightarrow> list_all p xs"
proof (induction xs)
  case Nil
  then show ?case by (simp add: lang.StarNil)
next
  case (Cons a xs)
  then show ?case by (auto simp: lang_Star_Cons)
qed

lemma lang_Plus_Cls: "lang (Plus (Cls p)) xs \<longleftrightarrow> xs \<noteq> [] \<and> list_all p xs"
  by (cases xs) (simp_all add: Plus_def lang_Cat_Cls lang_Star_Cls)

lemma lang_Upto_Cls: "lang (Upto n (Cls p)) xs \<longleftrightarrow> length xs \<le> n \<and> list_all p xs"
proof (induction n arbitrary: xs)
  case (Suc n)
  then show ?case by (cases xs) (simp_all add: lang_Cat_Cls, blast)
next
  case 0
  show ?case by (cases xs) simp_all
qed

lemma lang_Repeat_Cls:
  "m \<le> n \<Longrightarrow> lang (Repeat m n (Cls p)) xs \<longleftrightarrow> m \<le> length xs \<and> length xs \<le> n \<and> list_all p xs"
proof (induction m arbitrary: n xs)
  case 0
  then show ?case by (simp add: lang_Upto_Cls)
next
  case (Suc m)
  then obtain k where n: "n = Suc k" by (cases n) auto
  show ?case using Suc.IH [of k] Suc.prems n by (cases xs) (simp_all add: lang_Cat_Cls, blast)
qed

end
