(* ===== verification/Registry.thy ===== *)
theory Registry
  imports Prelude GoStrings
begin

text \<open>
  \<open>internal/edge/session.go\<close>: the agent sessions, one per subdomain. A session is identified by the number
  \<open>se_id\<close>, which stands for its pointer; \<open>rg_closed\<close> lists the sessions whose connection the
  registry has closed.
\<close>

record session =
  se_id :: nat
  se_sub :: bytes
  se_tunnel :: int

record registry =
  rg_sessions :: "bytes \<Rightarrow> session option"
  rg_closed :: "nat list"

definition NewRegistry :: registry where
  "NewRegistry = \<lparr>rg_sessions = Map.empty, rg_closed = []\<rparr>"

definition Put :: "session \<Rightarrow> registry \<Rightarrow> registry" where
  "Put sess r =
     (let r1 = (case rg_sessions r (se_sub sess) of
                  Some old \<Rightarrow> if se_id old \<noteq> se_id sess then r\<lparr>rg_closed := se_id old # rg_closed r\<rparr> else r
                | None \<Rightarrow> r) in
      r1\<lparr>rg_sessions := (rg_sessions r1)(se_sub sess \<mapsto> sess)\<rparr>)"

definition Get :: "bytes \<Rightarrow> registry \<Rightarrow> session option" where
  "Get sub r = rg_sessions r sub"

definition Remove :: "session \<Rightarrow> registry \<Rightarrow> registry" where
  "Remove sess r =
     (case rg_sessions r (se_sub sess) of
        Some cur \<Rightarrow> if se_id cur = se_id sess then r\<lparr>rg_sessions := (rg_sessions r)(se_sub sess := None)\<rparr> else r
      | None \<Rightarrow> r)"

section \<open>The registry as a table of owned slots\<close>

definition session_for :: "int \<Rightarrow> bytes \<Rightarrow> nat \<Rightarrow> session" where
  "session_for tid sub i = \<lparr>se_id = i, se_sub = sub, se_tunnel = tid\<rparr>"

definition holder :: "bytes \<Rightarrow> registry \<Rightarrow> nat option" where
  "holder sub r = map_option se_id (Get sub r)"

lemma Get_Put: "Get sub (Put sess r) = (if sub = se_sub sess then Some sess else Get sub r)"
  by (auto simp: Get_def Put_def Let_def split: option.split)

lemma Get_Remove:
  "Get sub (Remove sess r) =
     (if sub = se_sub sess \<and> map_option se_id (Get sub r) = Some (se_id sess) then None else Get sub r)"
  by (auto simp: Get_def Remove_def split: option.split)

interpretation sessions: owned_slots "\<lambda>sub i. Put (session_for tid sub i)" holder
    "\<lambda>sub i. Remove (session_for tid sub i)" for tid
  by unfold_locales (auto simp: holder_def Get_Put Get_Remove session_for_def)

lemma closed_Put:
  "rg_closed (Put sess r) =
     (case Get (se_sub sess) r of
        Some old \<Rightarrow> if se_id old \<noteq> se_id sess then se_id old # rg_closed r else rg_closed r
      | None \<Rightarrow> rg_closed r)"
  by (simp add: Put_def Get_def Let_def split: option.split)

lemma closed_Remove [simp]: "rg_closed (Remove sess r) = rg_closed r"
  by (simp add: Remove_def split: option.split)

text \<open>
  A replaced agent cannot evict its successor. After a second agent has taken a subdomain over, the
  late clean-up of the first leaves the second registered, and closing the first was the
  registry's own doing.
\<close>
theorem late_cleanup_keeps_successor:
  assumes "i \<noteq> j"
  shows "holder sub (Remove (session_for tid sub i) (Put (session_for tid sub j) (Put (session_for tid sub i) r))) = Some j
    \<and> i \<in> set (rg_closed (Put (session_for tid sub j) (Put (session_for tid sub i) r)))"
  using sessions.stale_cleanup_harmless [OF assms, where tid = tid and k = sub and s = r] assms
  by (simp add: closed_Put Get_Put session_for_def) 

theorem late_cleanup_keeps_successor_witness:
  "holder ''a'' (Remove (session_for 7 ''a'' 1) (Put (session_for 7 ''a'' 2) (Put (session_for 7 ''a'' 1) NewRegistry))) = Some 2"
  using late_cleanup_keeps_successor [of 1 2 "''a''" 7 NewRegistry] by simp

end
