(* ===== verification/Presence.thy ===== *)
theory Presence
  imports Db
begin

text \<open>
  \<open>internal/store/presence.go\<close>: which subdomains are online, kept in Redis as keys that expire
  \<open>PresenceTTL\<close> after the last heartbeat. \<open>rd_keys\<close> maps a key to its expiry time; times are in
  microseconds. As for the database, \<open>rd_outcomes\<close> decides which commands get through.
\<close>

definition PresenceTTL :: int where "PresenceTTL = 15 * 1000000"

record redis =
  rd_keys :: "bytes \<Rightarrow> int option"
  rd_now :: int
  rd_outcomes :: "(nat \<times> outcome) list"

definition presenceKey :: "bytes \<Rightarrow> bytes" where
  "presenceKey subdomain = ''presence:'' @ subdomain"

text \<open>What the commands \<open>SET key 1 EX ttl\<close>, \<open>EXISTS key\<close> and \<open>DEL key\<close> do to the keys.\<close>

definition redis_set :: "bytes \<Rightarrow> int \<Rightarrow> redis \<Rightarrow> redis" where
  "redis_set k ttl r = r\<lparr>rd_keys := (rd_keys r)(k \<mapsto> rd_now r + ttl)\<rparr>"

definition redis_exists :: "bytes \<Rightarrow> redis \<Rightarrow> bool" where
  "redis_exists k r = (case rd_keys r k of None \<Rightarrow> False | Some expiry \<Rightarrow> rd_now r < expiry)"

definition redis_del :: "bytes \<Rightarrow> redis \<Rightarrow> redis" where
  "redis_del k r = r\<lparr>rd_keys := (rd_keys r)(k := None)\<rparr>"

definition redis_cmd :: "(redis \<Rightarrow> 'a \<times> redis) \<Rightarrow> redis \<Rightarrow> (go_error + 'a) \<times> redis" where
  "redis_cmd f r =
     (let (x, r1) = (case rd_outcomes r of
            [] \<Rightarrow> (Done, r)
          | (t, x) # xs \<Rightarrow> (x, r\<lparr>rd_outcomes := xs, rd_now := rd_now r + int t\<rparr>)) in
      case x of
        Done \<Rightarrow> (case f r1 of (a, r2) \<Rightarrow> (Inr a, r2))
      | NotDone m \<Rightarrow> (Inl (ErrText m), r1)
      | DoneLost m \<Rightarrow> (Inl (ErrText m), snd (f r1)))"

definition Heartbeat :: "bytes \<Rightarrow> redis \<Rightarrow> (go_error + unit) \<times> redis" where
  "Heartbeat subdomain = redis_cmd (\<lambda>r. ((), redis_set (presenceKey subdomain) PresenceTTL r))"

text \<open>\<open>IsOnline\<close> returns the pair \<open>(n > 0, err)\<close>; on an error \<open>n\<close> is zero.\<close>

definition IsOnline :: "bytes \<Rightarrow> redis \<Rightarrow> (bool \<times> go_error option) \<times> redis" where
  "IsOnline subdomain r =
     (case redis_cmd (\<lambda>r. (redis_exists (presenceKey subdomain) r, r)) r of
        (Inl e, r') \<Rightarrow> ((False, Some e), r')
      | (Inr b, r') \<Rightarrow> ((b, None), r'))"

definition Clear :: "bytes \<Rightarrow> redis \<Rightarrow> (go_error + unit) \<times> redis" where
  "Clear subdomain = redis_cmd (\<lambda>r. ((), redis_del (presenceKey subdomain) r))"

section \<open>Presence as a table of slots\<close>

definition online :: "bytes \<Rightarrow> redis \<Rightarrow> unit option" where
  "online sub r = (if redis_exists (presenceKey sub) r then Some () else None)"

lemma presenceKey_inj [simp]: "presenceKey a = presenceKey b \<longleftrightarrow> a = b"
  by (simp add: presenceKey_def)

interpretation presence: keyed_slots "\<lambda>sub _. redis_set (presenceKey sub) PresenceTTL" online
    "\<lambda>sub _. redis_del (presenceKey sub)"
  by unfold_locales
    (auto simp: online_def redis_exists_def redis_set_def redis_del_def PresenceTTL_def split: option.splits)

text \<open>Time passing, with nothing sent.\<close>

definition wait :: "nat \<Rightarrow> redis \<Rightarrow> redis" where
  "wait t r = r\<lparr>rd_now := rd_now r + int t\<rparr>"

lemma cmd_quiet: "rd_outcomes r = [] \<Longrightarrow> redis_cmd f r = (case f r of (a, r') \<Rightarrow> (Inr a, r'))"
  by (simp add: redis_cmd_def split: prod.split)

text \<open>
  A heartbeat keeps a subdomain online for exactly the presence TTL: after a heartbeat that went through and
  \<open>t\<close> microseconds in which nothing was sent, \<open>IsOnline\<close> says yes precisely when \<open>t\<close> is less
  than fifteen seconds; other subdomains are not affected.
\<close>
theorem heartbeat_lasts_ttl:
  assumes "rd_outcomes r = []" and "Heartbeat sub r = (Inr u, r')"
  shows "fst (IsOnline sub (wait t r')) = (int t < 15000000, None)
    \<and> (sub' \<noteq> sub \<longrightarrow> fst (IsOnline sub' (wait t r')) = fst (IsOnline sub' (wait t r)))"
  using assms
  by (auto simp: Heartbeat_def cmd_quiet IsOnline_def redis_set_def wait_def redis_exists_def PresenceTTL_def
      split: option.split)

text \<open>
  An unreachable presence store never makes a tunnel look online: when the command fails, the answer is
  offline together with the error, whatever was stored, and no key changes.
\<close>
theorem presence_errors_mean_offline:
  assumes "rd_outcomes r = (t, x) # xs" and "x \<noteq> Done"
  shows "\<exists>e r'. IsOnline sub r = ((False, Some e), r') \<and> rd_keys r' = rd_keys r"
  using assms by (cases x) (auto simp: IsOnline_def redis_cmd_def)

text \<open>The answer of the next command, and the time at which it is carried out; and what \<open>IsOnline\<close> says in these terms.\<close>

definition redis_next :: "redis \<Rightarrow> outcome \<times> int" where
  "redis_next r = (case rd_outcomes r of [] \<Rightarrow> (Done, rd_now r) | (t, x) # xs \<Rightarrow> (x, rd_now r + int t))"

lemma IsOnline_says:
  "fst (fst (IsOnline sub r)) \<longleftrightarrow>
     fst (redis_next r) = Done \<and> (\<exists>expiry. rd_keys r (''presence:'' @ sub) = Some expiry \<and> snd (redis_next r) < expiry)"
  by (auto simp: IsOnline_def redis_cmd_def redis_next_def redis_exists_def presenceKey_def Let_def split: list.splits prod.splits outcome.splits option.splits)

definition demo_redis :: redis where
  "demo_redis = \<lparr>rd_keys = Map.empty, rd_now = 0, rd_outcomes = []\<rparr>"

theorem heartbeat_lasts_ttl_witness:
  "fst (IsOnline ''a'' (wait 14999999 (snd (Heartbeat ''a'' demo_redis)))) = (True, None)
   \<and> fst (IsOnline ''a'' (wait 15000000 (snd (Heartbeat ''a'' demo_redis)))) = (False, None)"
proof -
  have h: "Heartbeat ''a'' demo_redis = (Inr (), snd (Heartbeat ''a'' demo_redis))"
    by (simp add: Heartbeat_def cmd_quiet demo_redis_def)
  have q: "rd_outcomes demo_redis = []" by (simp add: demo_redis_def)
  show ?thesis
    using heartbeat_lasts_ttl [OF q h, of 14999999 "''b''"] heartbeat_lasts_ttl [OF q h, of 15000000 "''b''"] by simp
qed

theorem presence_errors_mean_offline_witness:
  "\<exists>e r'. IsOnline ''a'' (demo_redis\<lparr>rd_outcomes := [(0, NotDone ''refused'')]\<rparr>) = ((False, Some e), r')"
  using presence_errors_mean_offline [of "demo_redis\<lparr>rd_outcomes := [(0, NotDone ''refused'')]\<rparr>" 0 "NotDone ''refused''" "[]" "''a''"]
  by auto

end
