(* ===== verification/RateLimit.thy ===== *)
theory RateLimit
  imports Complex_Main Prelude GoStrings
begin

text \<open>
  \<open>internal/edge/ratelimit.go\<close>: a token bucket per key, created on first use and forgotten after it has been idle
  for \<open>idleTTL\<close>. The bucket itself is \<open>golang.org/x/time/rate\<close>, which is a parameter: \<open>bl_new\<close> is
  \<open>rate.NewLimiter\<close> and \<open>bl_allow\<close> is \<open>Limiter.Allow\<close> at a given time. One call of
  \<open>Allow\<close> reads the clock twice under its lock; the two readings are taken as one. Times are integers
  (microseconds); \<open>il_last = None\<close> is the zero time, which lies further back than any TTL.
\<close>

record 'l bucket_lib =
  bl_new :: "rat \<Rightarrow> int \<Rightarrow> 'l"
  bl_allow :: "int \<Rightarrow> 'l \<Rightarrow> bool \<times> 'l"

record 'l limiter_entry =
  en_limiter :: 'l
  en_seen :: int

record 'l ip_limiter =
  il_rps :: rat
  il_burst :: int
  il_idle :: int
  il_entries :: "bytes \<Rightarrow> 'l limiter_entry option"
  il_last :: "int option"

definition NewIPLimiter :: "rat \<Rightarrow> int \<Rightarrow> int \<Rightarrow> 'l ip_limiter" where
  "NewIPLimiter rps burst idle =
     \<lparr>il_rps = rps, il_burst = burst, il_idle = idle, il_entries = Map.empty, il_last = None\<rparr>"

definition sweepLocked :: "int \<Rightarrow> 'l ip_limiter \<Rightarrow> 'l ip_limiter" where
  "sweepLocked now l =
     (if (case il_last l of None \<Rightarrow> False | Some t \<Rightarrow> now - t < il_idle l) then l
      else l\<lparr>il_last := Some now,
             il_entries := (\<lambda>k. case il_entries l k of
                 None \<Rightarrow> None
               | Some e \<Rightarrow> if il_idle l < now - en_seen e then None else Some e)\<rparr>)"

definition Allow :: "'l bucket_lib \<Rightarrow> int \<Rightarrow> bytes \<Rightarrow> 'l ip_limiter \<Rightarrow> bool \<times> 'l ip_limiter" where
  "Allow lib now key l0 =
     (let l = sweepLocked now l0;
          b = (case il_entries l key of None \<Rightarrow> bl_new lib (il_rps l) (il_burst l) | Some e \<Rightarrow> en_limiter e) in
      case bl_allow lib now b of
        (ok, b') \<Rightarrow> (ok, l\<lparr>il_entries := (il_entries l)(key \<mapsto> \<lparr>en_limiter = b', en_seen = now\<rparr>)\<rparr>))"

text \<open>A nil \<open>*IPLimiter\<close> always allows.\<close>

definition Allow_nil :: "'l bucket_lib \<Rightarrow> int \<Rightarrow> bytes \<Rightarrow> 'l ip_limiter option \<Rightarrow> bool \<times> 'l ip_limiter option" where
  "Allow_nil lib now key l =
     (case l of None \<Rightarrow> (True, None) | Some l \<Rightarrow> (case Allow lib now key l of (ok, l') \<Rightarrow> (ok, Some l')))"

section \<open>The specification: buckets that are never forgotten\<close>

type_synonym 'l buckets = "bytes \<Rightarrow> 'l option"

definition ideal_allow :: "'l bucket_lib \<Rightarrow> rat \<Rightarrow> int \<Rightarrow> int \<Rightarrow> bytes \<Rightarrow> 'l buckets \<Rightarrow> bool \<times> 'l buckets" where
  "ideal_allow lib rps burst now key m =
     (case bl_allow lib now (case m key of None \<Rightarrow> bl_new lib rps burst | Some b \<Rightarrow> b) of
        (ok, b') \<Rightarrow> (ok, m(key \<mapsto> b')))"

fun run :: "(int \<Rightarrow> bytes \<Rightarrow> 's \<Rightarrow> bool \<times> 's) \<Rightarrow> (int \<times> bytes) list \<Rightarrow> 's \<Rightarrow> bool list" where
  "run f [] s = []"
| "run f ((now, key) # reqs) s = (case f now key s of (ok, s') \<Rightarrow> ok # run f reqs s')"

fun final :: "(int \<Rightarrow> bytes \<Rightarrow> 's \<Rightarrow> bool \<times> 's) \<Rightarrow> (int \<times> bytes) list \<Rightarrow> 's \<Rightarrow> 's" where
  "final f [] s = s"
| "final f ((now, key) # reqs) s = final f reqs (snd (f now key s))"

text \<open>
  The documented behaviour of a bucket that is relied on, for a predicate \<open>used t b\<close> that describes the buckets last
  asked at time \<open>t\<close>: one left alone for longer than the idle time is full again, so it answers, and goes
  on, as a new one.
\<close>

definition refills :: "'l bucket_lib \<Rightarrow> rat \<Rightarrow> int \<Rightarrow> int \<Rightarrow> (int \<Rightarrow> 'l \<Rightarrow> bool) \<Rightarrow> bool" where
  "refills lib rps burst idle used =
     ((\<forall>t. used t (snd (bl_allow lib t (bl_new lib rps burst))))
      \<and> (\<forall>t t' b. used t b \<and> t \<le> t' \<longrightarrow> used t' (snd (bl_allow lib t' b)))
      \<and> (\<forall>t t' b. used t b \<and> t + idle < t' \<longrightarrow> bl_allow lib t' b = bl_allow lib t' (bl_new lib rps burst)))"

lemma refills_mono: "refills lib rps burst i used \<Longrightarrow> i \<le> j \<Longrightarrow> refills lib rps burst j used"
  unfolding refills_def by (meson add_left_mono le_less_trans)

text \<open>The time a bucket takes to fill, in microseconds; and the token bucket as documented, at any rate.\<close>

definition fill_time :: "rat \<Rightarrow> int \<Rightarrow> int" where
  "fill_time rps burst = \<lceil>of_int burst / rps * 1000000\<rceil>"

record token_bucket =
  tb_rps :: rat
  tb_burst :: rat
  tb_tokens :: rat
  tb_time :: "int option"

definition token_lib :: "token_bucket bucket_lib" where
  "token_lib = \<lparr>bl_new = (\<lambda>rps burst. \<lparr>tb_rps = rps, tb_burst = of_int burst, tb_tokens = of_int burst, tb_time = None\<rparr>),
     bl_allow = (\<lambda>now b.
       let tokens = (case tb_time b of None \<Rightarrow> tb_burst b
             | Some t \<Rightarrow> min (tb_burst b) (tb_tokens b + of_int (now - t) * tb_rps b / 1000000)) in
       if 1 \<le> tokens then (True, b\<lparr>tb_tokens := tokens - 1, tb_time := Some now\<rparr>)
       else (False, b\<lparr>tb_tokens := tokens, tb_time := Some now\<rparr>))\<rparr>"

definition token_used :: "rat \<Rightarrow> int \<Rightarrow> int \<Rightarrow> token_bucket \<Rightarrow> bool" where
  "token_used rps burst t b = (tb_rps b = rps \<and> tb_burst b = of_int burst \<and> 0 \<le> tb_tokens b \<and> tb_time b = Some t)"

lemma token_full:
  assumes "0 < rps" and "t + fill_time rps burst < t'"
  shows "of_int burst \<le> of_int (t' - t) * rps / 1000000"
proof -
  have "of_int burst / rps * 1000000 \<le> of_int (fill_time rps burst)" by (simp add: fill_time_def)
  also have "\<dots> \<le> of_int (t' - t)" using assms(2) by simp
  finally show ?thesis using assms(1) by (simp add: field_simps)
qed

lemma token_refills:
  assumes "0 < rps" and "0 \<le> burst"
  shows "refills token_lib rps burst (fill_time rps burst) (token_used rps burst)"
proof -
  have "bl_allow token_lib t' b = bl_allow token_lib t' (bl_new token_lib rps burst)"
    if u: "token_used rps burst t b" and l: "t + fill_time rps burst < t'" for t t' b
  proof -
    have "min (of_int burst) (tb_tokens b + of_int (t' - t) * rps / 1000000) = of_int burst"
      using token_full [OF assms(1) l] u by (simp add: token_used_def)
    then show ?thesis using u by (auto simp: token_lib_def token_used_def Let_def)
  qed
  moreover have "token_used rps burst t (snd (bl_allow token_lib t (bl_new token_lib rps burst)))" for t
    using assms(2) by (auto simp: token_lib_def token_used_def Let_def)
  moreover have "token_used rps burst t' (snd (bl_allow token_lib t' b))" if "token_used rps burst t b" "t \<le> t'" for t t' b
  proof -
    have "0 \<le> of_int (t' - t) * rps / 1000000" using that(2) assms(1) by simp
    then show ?thesis using that(1) assms(2) by (auto simp: token_lib_def token_used_def Let_def)
  qed
  ultimately show ?thesis unfolding refills_def by blast
qed

definition slot_ok :: "(int \<Rightarrow> 'l \<Rightarrow> bool) \<Rightarrow> int \<Rightarrow> int \<Rightarrow> 'l limiter_entry option \<Rightarrow> 'l option \<Rightarrow> bool" where
  "slot_ok used idle now entry bucket =
     (case entry of
        Some e \<Rightarrow> bucket = Some (en_limiter e) \<and> used (en_seen e) (en_limiter e) \<and> en_seen e \<le> now
      | None \<Rightarrow> (case bucket of None \<Rightarrow> True | Some b \<Rightarrow> \<exists>t. used t b \<and> t + idle < now))"

definition forgets_safely ::
  "(int \<Rightarrow> 'l \<Rightarrow> bool) \<Rightarrow> rat \<Rightarrow> int \<Rightarrow> int \<Rightarrow> int \<Rightarrow> 'l ip_limiter \<Rightarrow> 'l buckets \<Rightarrow> bool" where
  "forgets_safely used rps burst idle now l m =
     (il_rps l = rps \<and> il_burst l = burst \<and> il_idle l = idle \<and>
      (\<forall>k. slot_ok used idle now (il_entries l k) (m k)))"

lemma forgets_sweep:
  assumes "forgets_safely used rps burst idle now l m" and "now \<le> now'"
  shows "forgets_safely used rps burst idle now' (sweepLocked now' l) m"
proof -
  have "slot_ok used idle now' (il_entries (sweepLocked now' l) k) (m k)" for k
  proof -
    have "slot_ok used idle now (il_entries l k) (m k)" and "il_idle l = idle"
      using assms(1) by (simp_all add: forgets_safely_def)
    then show ?thesis using assms(2)
      by (cases "il_entries l k"; cases "m k") (force simp: slot_ok_def sweepLocked_def)+
  qed
  then show ?thesis using assms(1) by (simp add: forgets_safely_def sweepLocked_def)
qed

lemma Allow_ideal:
  assumes r: "refills lib rps burst idle used" and f: "forgets_safely used rps burst idle now l m" and "now \<le> now'"
  shows "fst (Allow lib now' key l) = fst (ideal_allow lib rps burst now' key m)
    \<and> forgets_safely used rps burst idle now' (snd (Allow lib now' key l)) (snd (ideal_allow lib rps burst now' key m))"
proof -
  let ?l = "sweepLocked now' l"
  have s: "forgets_safely used rps burst idle now' ?l m" using forgets_sweep [OF f \<open>now \<le> now'\<close>] .
  then have p: "il_rps ?l = rps" "il_burst ?l = burst" by (simp_all add: forgets_safely_def)
  define b where "b = (case il_entries ?l key of None \<Rightarrow> bl_new lib rps burst | Some e \<Rightarrow> en_limiter e)"
  define i where "i = (case m key of None \<Rightarrow> bl_new lib rps burst | Some b \<Rightarrow> b)"
  obtain ok b' where b': "bl_allow lib now' b = (ok, b')" by fastforce
  have k: "slot_ok used idle now' (il_entries ?l key) (m key)"
    using s by (simp add: forgets_safely_def)
  have i': "bl_allow lib now' i = (ok, b')" and u: "used now' b'"
  proof -
    have "bl_allow lib now' i = bl_allow lib now' b" using k r
      by (auto simp: b_def i_def refills_def slot_ok_def split: option.splits)
    then show "bl_allow lib now' i = (ok, b')" using b' by simp
    have "used now' (snd (bl_allow lib now' b))"
      using k r by (auto simp: b_def refills_def slot_ok_def split: option.splits)
    then show "used now' b'" by (simp add: b')
  qed
  have a: "Allow lib now' key l = (ok, ?l\<lparr>il_entries := (il_entries ?l)(key \<mapsto> \<lparr>en_limiter = b', en_seen = now'\<rparr>)\<rparr>)"
    unfolding Allow_def Let_def p b_def [symmetric] b' by simp
  have d: "ideal_allow lib rps burst now' key m = (ok, m(key \<mapsto> b'))"
    using i' by (simp add: ideal_allow_def i_def)
  show ?thesis using s u by (simp add: a d forgets_safely_def) (simp add: slot_ok_def)
qed

lemma run_ideal:
  assumes "refills lib rps burst idle used" and "forgets_safely used rps burst idle now l m"
    and "sorted (now # map fst reqs)"
  shows "run (Allow lib) reqs l = run (ideal_allow lib rps burst) reqs m"
  using assms(2,3)
proof (induction reqs arbitrary: now l m)
  case Nil
  then show ?case by simp
next
  case (Cons q reqs)
  obtain t key where q: "q = (t, key)" by fastforce
  have t: "now \<le> t" "sorted (t # map fst reqs)" using Cons.prems(2) q by auto
  note a = Allow_ideal [OF assms(1) Cons.prems(1) t(1), of key]
  show ?case
    using a Cons.IH [OF a [THEN conjunct2] t(2)] by (simp add: q split_beta)
qed

lemma forgets_New: "forgets_safely used rps burst idle now (NewIPLimiter rps burst idle) Map.empty"
  by (simp add: forgets_safely_def NewIPLimiter_def slot_ok_def)

text \<open>
  C21. Forgetting idle keys is not observable. For buckets that are full again after the idle time, every sequence of
  calls at non-decreasing times gets from the limiter, with its lazy eviction, exactly the
  answers it would get from buckets kept for ever; a client cannot gain requests by letting its entry be
  evicted.
\<close>
theorem eviction_is_unobservable:
  assumes "refills lib rps burst idle used" and "sorted (map fst reqs)"
  shows "run (Allow lib) reqs (NewIPLimiter rps burst idle) = run (ideal_allow lib rps burst) reqs Map.empty"
proof (cases reqs)
  case (Cons q qs)
  then have "sorted (fst q # map fst reqs)" using assms(2) by simp
  then show ?thesis using run_ideal [OF assms(1) forgets_New] by blast
qed simp

section \<open>Isolation and memory\<close>

definition answers :: "bytes \<Rightarrow> (int \<times> bytes) list \<Rightarrow> bool list \<Rightarrow> bool list" where
  "answers key reqs oks = map snd (filter (\<lambda>(q, ok). snd q = key) (zip reqs oks))"

lemma ideal_answers:
  "m key = m' key \<Longrightarrow> answers key reqs (run (ideal_allow lib rps burst) reqs m)
     = run (ideal_allow lib rps burst) (filter (\<lambda>q. snd q = key) reqs) m'"
proof (induction reqs arbitrary: m m')
  case Nil
  then show ?case by (simp add: answers_def)
next
  case (Cons q reqs)
  obtain t k where q: "q = (t, k)" by fastforce
  obtain ok m1 where i: "ideal_allow lib rps burst t k m = (ok, m1)" by fastforce
  show ?case
  proof (cases "k = key")
    case True
    obtain ok' m1' where i': "ideal_allow lib rps burst t k m' = (ok', m1')" by fastforce
    have "ok' = ok \<and> m1 key = m1' key" using i i' Cons.prems True
      by (auto simp: ideal_allow_def split: prod.splits)
    then show ?thesis using Cons.IH [of m1 m1'] True i i' q by (simp add: answers_def)
  next
    case False
    then have "m1 key = m' key" using i Cons.prems by (auto simp: ideal_allow_def split: prod.splits)
    then show ?thesis using Cons.IH [of m1 m'] False i q by (simp add: answers_def)
  qed
qed

lemma sorted_map_filter_fst: "sorted (map fst reqs) \<Longrightarrow> sorted (map fst (filter P reqs))"
  by (rule sorted_map_filter)

text \<open>
  Keys do not influence each other. Whatever other clients send in between, the answers a key gets are
  those it would get if it were alone, so one tenant's traffic never throttles another's.
\<close>
theorem limits_are_per_key:
  assumes "refills lib rps burst idle used" and "sorted (map fst reqs)"
  shows "answers key reqs (run (Allow lib) reqs (NewIPLimiter rps burst idle))
    = run (Allow lib) (filter (\<lambda>q. snd q = key) reqs) (NewIPLimiter rps burst idle)"
proof -
  have ideal: "run (Allow lib) qs (NewIPLimiter rps burst idle) = run (ideal_allow lib rps burst) qs Map.empty"
    if "sorted (map fst qs)" for qs
  proof (cases qs)
    case (Cons q rest)
    then have "sorted (fst q # map fst qs)" using that by simp
    then show ?thesis using run_ideal [OF assms(1) forgets_New] by blast
  qed simp
  show ?thesis
    using ideal [OF assms(2)] ideal [OF sorted_map_filter_fst [OF assms(2)]] ideal_answers by metis
qed

definition fresh_entries :: "int \<Rightarrow> int \<Rightarrow> 'l ip_limiter \<Rightarrow> bool" where
  "fresh_entries idle now l =
     (il_idle l = idle \<and> (\<exists>t. il_last l = Some t \<and> t \<le> now \<and> now - t < idle
        \<and> (\<forall>k e. il_entries l k = Some e \<longrightarrow> t - idle \<le> en_seen e)))"

lemma fresh_Allow:
  assumes "il_idle l = idle" and "0 < idle" and "il_last l = None \<and> il_entries l = Map.empty \<or> (\<exists>t. fresh_entries idle t l \<and> t \<le> now)"
  shows "fresh_entries idle now (snd (Allow lib now key l))"
proof -
  have s: "fresh_entries idle now (sweepLocked now l)"
    using assms by (auto simp: fresh_entries_def sweepLocked_def split: option.splits if_splits)
  then obtain t where t: "il_last (sweepLocked now l) = Some t" "t \<le> now" "now - t < idle"
    "\<forall>k e. il_entries (sweepLocked now l) k = Some e \<longrightarrow> t - idle \<le> en_seen e" "il_idle (sweepLocked now l) = idle"
    by (auto simp: fresh_entries_def)
  then show ?thesis using assms(2)
    by (auto simp: fresh_entries_def Allow_def Let_def split: prod.split)
qed

text \<open>
  The limiter's memory is bounded by recent traffic: after any sequence of calls at non-decreasing times it
  holds only keys that were used less than two idle times before the last call.
\<close>
theorem idle_keys_are_dropped:
  assumes "0 < idle" and "sorted (map fst reqs)" and "reqs \<noteq> []"
    and "il_entries (final (Allow lib) reqs (NewIPLimiter rps burst idle)) k = Some e"
  shows "fst (last reqs) - en_seen e < 2 * idle"
proof -
  have step: "fresh_entries idle (fst (last qs)) (final (Allow lib) qs l)"
    if "qs \<noteq> []" "sorted (map fst qs)" "il_idle l = idle"
      "il_last l = None \<and> il_entries l = Map.empty \<or> (\<exists>t. fresh_entries idle t l \<and> t \<le> fst (hd qs))" for qs l
    using that
  proof (induction qs arbitrary: l)
    case Nil
    then show ?case by simp
  next
    case (Cons q qs)
    obtain t key where q: "q = (t, key)" by fastforce
    have f: "fresh_entries idle t (snd (Allow lib t key l))"
      using fresh_Allow [OF Cons.prems(3) assms(1)] Cons.prems(4) q by simp
    show ?case
    proof (cases "qs = []")
      case True
      then show ?thesis using f q by simp
    next
      case False
      have "t \<le> fst (hd qs)" using Cons.prems(2) q False by (cases qs) auto
      with f have ex: "\<exists>t'. fresh_entries idle t' (snd (Allow lib t key l)) \<and> t' \<le> fst (hd qs)" by blast
      have idle: "il_idle (snd (Allow lib t key l)) = idle" using f by (simp add: fresh_entries_def)
      then show ?thesis
        using Cons.IH [OF False _ idle] Cons.prems(2) ex q False by simp
    qed
  qed
  have "fresh_entries idle (fst (last reqs)) (final (Allow lib) reqs (NewIPLimiter rps burst idle))"
    using step [OF assms(3,2)] by (simp add: NewIPLimiter_def)
  then obtain t where t: "fst (last reqs) - t < idle" "t - idle \<le> en_seen e"
    using assms(4) unfolding fresh_entries_def by blast
  then show ?thesis by linarith
qed

section \<open>A concrete bucket\<close>

text \<open>One request per second: the state is the time of the last request let through.\<close>

definition demo_lib :: "int option bucket_lib" where
  "demo_lib = \<lparr>bl_new = (\<lambda>rps burst. None),
     bl_allow = (\<lambda>now b. case b of None \<Rightarrow> (True, Some now)
        | Some t \<Rightarrow> if t + 1000000 \<le> now then (True, Some now) else (False, Some t))\<rparr>"

definition demo_used :: "int \<Rightarrow> int option \<Rightarrow> bool" where
  "demo_used t b = (case b of None \<Rightarrow> True | Some x \<Rightarrow> x \<le> t)"

lemma demo_refills: "refills demo_lib 1 1 2000000 demo_used"
  by (auto simp: refills_def demo_lib_def demo_used_def split: option.splits)

definition demo_reqs :: "(int \<times> bytes) list" where
  "demo_reqs = [(0, ''a''), (1, ''b''), (2, ''a''), (1500000, ''a''), (9000000, ''a'')]"

lemma demo_sorted: "sorted (map fst demo_reqs)"
  by (simp add: demo_reqs_def)

theorem eviction_is_unobservable_witness:
  "run (Allow demo_lib) demo_reqs (NewIPLimiter 1 1 2000000) = [True, True, False, True, True]"
  using eviction_is_unobservable [OF demo_refills demo_sorted]
  by (simp add: demo_reqs_def ideal_allow_def demo_lib_def)

theorem limits_are_per_key_witness:
  "answers ''b'' demo_reqs (run (Allow demo_lib) demo_reqs (NewIPLimiter 1 1 2000000)) = [True]"
  using limits_are_per_key [OF demo_refills demo_sorted, of "''b''"]
  by (simp add: demo_reqs_def Allow_def sweepLocked_def NewIPLimiter_def demo_lib_def)

theorem idle_keys_are_dropped_witness:
  "\<forall>e. il_entries (final (Allow demo_lib) demo_reqs (NewIPLimiter 1 1 2000000)) ''a'' = Some e \<longrightarrow> 9000000 - en_seen e < 4000000"
  using idle_keys_are_dropped [OF _ demo_sorted, of 2000000 demo_lib 1 1 "''a''"]
  by (simp add: demo_reqs_def)

end
