(* ===== verification/TunnelServer.thy ===== *)
theory TunnelServer
  imports StoreTunnels GoRegexp Proto Registry Presence RateLimit
begin

text \<open>
  \<open>internal/edge/tunnelserver.go\<close>: the listener the agents dial. A connection is admitted by the handshake
  limiter, authenticated, registered, and marked online; then its heartbeat loop runs until the
  connection closes. What the network delivers is given by the record \<open>conn\<close>; the multiplexer is not
  modelled beyond it.
\<close>

section \<open>Names\<close>

definition alnum :: "rune \<Rightarrow> bool" where
  "alnum r = ((97 \<le> r \<and> r \<le> 122) \<or> (48 \<le> r \<and> r \<le> 57))"

definition alnum_dash :: "rune \<Rightarrow> bool" where
  "alnum_dash r = (alnum r \<or> r = 45)"

definition subdomainRE :: "rune re" where
  "subdomainRE = Cat (Cls alnum) (Cat (Repeat 1 61 (Cls alnum_dash)) (Cls alnum))"

definition randomSubdomain :: "bytes \<Rightarrow> bytes" where
  "randomSubdomain b = ''t-'' @ hex_encode b"

section \<open>The server\<close>

record tunnel_config =
  tc_public_host :: bytes
  tc_public_tls :: bool
  tc_rate_per_minute :: rat

record 'l tunnel_server =
  ts_public_host :: bytes
  ts_public_tls :: bool
  ts_handshake_limiter :: "'l ip_limiter"

definition rateLimiterIdleTTL :: int where "rateLimiterIdleTTL = 5 * 60 * 1000000"

definition NewTunnelServer :: "tunnel_config \<Rightarrow> 'l tunnel_server" where
  "NewTunnelServer cfg =
     (let perMinute = (if tc_rate_per_minute cfg \<le> 0 then 10 else tc_rate_per_minute cfg) in
      \<lparr>ts_public_host = tc_public_host cfg, ts_public_tls = tc_public_tls cfg,
       ts_handshake_limiter = NewIPLimiter (perMinute / 60) 3 rateLimiterIdleTTL\<rparr>)"

text \<open>The accept loop: a connection whose remote address has a host is admitted only if the limiter allows it.\<close>

definition admit :: "'l bucket_lib \<Rightarrow> int \<Rightarrow> bytes \<Rightarrow> 'l tunnel_server \<Rightarrow> bool \<times> 'l tunnel_server" where
  "admit lib now remote ts =
     (case GoHttp.SplitHostPort remote of
        None \<Rightarrow> (True, ts)
      | Some (host, _) \<Rightarrow>
          (case Allow lib now host (ts_handshake_limiter ts) of
             (ok, l) \<Rightarrow> (ok, ts\<lparr>ts_handshake_limiter := l\<rparr>)))"

definition authenticate ::
  "platform \<Rightarrow> bytes \<Rightarrow> bool \<Rightarrow> bytes \<Rightarrow> handshake \<Rightarrow> db \<Rightarrow> handshake_reply \<times> db" where
  "authenticate p public_host public_tls rnd hs d =
     (if hs_version hs \<noteq> Version then (reject ''unsupported protocol version'', d)
      else case UserByToken p (hs_token hs) d of
        (Inl e, d1) \<Rightarrow> (reject ''invalid auth token'', d1)
      | (Inr user, d1) \<Rightarrow>
          (let subdomain = (if hs_subdomain hs = [] then randomSubdomain rnd else hs_subdomain hs) in
           if \<not> MatchString subdomainRE subdomain then
             (reject ''invalid subdomain: use 2-63 lowercase letters, digits, hyphens'', d1)
           else case ClaimTunnel (u_id user) subdomain (hs_rules hs) d1 of
             (Inl e, d2) \<Rightarrow>
               if e = ErrSubdomainTaken then (reject ''subdomain already in use by another account'', d2)
               else (reject ''internal error claiming subdomain'', d2)
           | (Inr tunnel, d2) \<Rightarrow>
               (let scheme = (if public_tls then ''https'' else ''http'') in
                (\<lparr>hr_ok = True, hr_error = [], hr_subdomain = tn_sub tunnel,
                  hr_url = scheme @ ''://'' @ tn_sub tunnel @ ''.'' @ public_host\<rparr>, d2))))"

section \<open>Names that are accepted\<close>

lemma alnum_dash_ends: "alnum_dash r \<Longrightarrow> alnum r \<longleftrightarrow> r \<noteq> 45"
  by (auto simp: alnum_dash_def alnum_def)

lemma subdomain_runes:
  "lang subdomainRE rs \<longleftrightarrow> 3 \<le> length rs \<and> length rs \<le> 63 \<and> list_all alnum_dash rs \<and> hd rs \<noteq> 45 \<and> last rs \<noteq> 45"
proof
  assume "lang subdomainRE rs"
  then obtain y ys where rs: "rs = y # ys" and y: "alnum y" and "lang (Cat (Repeat 1 61 (Cls alnum_dash)) (Cls alnum)) ys"
    unfolding subdomainRE_def lang_Cat_Cls by blast
  then obtain us vs where ys: "ys = us @ vs" and us: "lang (Repeat 1 61 (Cls alnum_dash)) us" and vs: "lang (Cls alnum) vs"
    unfolding lang_Cat by blast
  from vs obtain z where z: "vs = [z]" "alnum z" by auto
  have "1 \<le> length us" "length us \<le> 61" "list_all alnum_dash us" using us lang_Repeat_Cls [of 1 61 alnum_dash us] by auto
  then show "3 \<le> length rs \<and> length rs \<le> 63 \<and> list_all alnum_dash rs \<and> hd rs \<noteq> 45 \<and> last rs \<noteq> 45"
    using rs y ys z by (auto simp: alnum_dash_def alnum_def)
next
  assume a: "3 \<le> length rs \<and> length rs \<le> 63 \<and> list_all alnum_dash rs \<and> hd rs \<noteq> 45 \<and> last rs \<noteq> 45"
  then obtain y us z where rs: "rs = y # us @ [z]"
    by (cases rs; cases "tl rs" rule: rev_cases) auto
  have "alnum y" "alnum z" "1 \<le> length us" "length us \<le> 61" "list_all alnum_dash us"
    using a rs alnum_dash_ends by auto
  moreover from this have "lang (Repeat 1 61 (Cls alnum_dash)) us" using lang_Repeat_Cls [of 1 61 alnum_dash us] by auto
  ultimately have "lang (Cat (Repeat 1 61 (Cls alnum_dash)) (Cls alnum)) (us @ [z])"
    unfolding lang_Cat by auto
  then show "lang subdomainRE rs" using \<open>alnum y\<close> rs unfolding subdomainRE_def lang_Cat_Cls by auto
qed

lemma alnum_dash_ascii: "list_all (\<lambda>c. alnum_dash (byte c)) s \<Longrightarrow> ascii s"
  by (auto simp: ascii_def list_all_iff alnum_dash_def alnum_def)

lemma byte_is_dash: "(byte c :: nat) = 45 \<longleftrightarrow> c = CHR ''-''"
proof -
  have "(byte c :: nat) = byte CHR ''-'' \<longleftrightarrow> c = CHR ''-''" by (rule of_char_eq_iff)
  then show ?thesis by simp
qed

lemma subdomain_match:
  "MatchString subdomainRE s \<longleftrightarrow>
     3 \<le> length s \<and> length s \<le> 63 \<and> list_all (\<lambda>c. alnum_dash (byte c)) s \<and> hd s \<noteq> CHR ''-'' \<and> last s \<noteq> CHR ''-''"
proof -
  have a: "MatchString subdomainRE s \<longleftrightarrow> lang subdomainRE (map byte s)" if "ascii s"
    using that by (simp add: MatchString_def re_match_lang utf8_decode_ascii)
  have b: "ascii s" if "MatchString subdomainRE s"
  proof -
    have "list_all alnum_dash (utf8_decode s)"
      using that by (simp add: MatchString_def re_match_lang subdomain_runes)
    then have "list_all (\<lambda>r. r < 128) (utf8_decode s)" by (auto simp: list_all_iff alnum_dash_def alnum_def)
    then show ?thesis by (simp add: utf8_decode_ascii_iff)
  qed
  have c: "lang subdomainRE (map byte s) \<longleftrightarrow>
     3 \<le> length s \<and> length s \<le> 63 \<and> list_all (\<lambda>c. alnum_dash (byte c)) s \<and> hd s \<noteq> CHR ''-'' \<and> last s \<noteq> CHR ''-''"
  proof (cases "s = []")
    case False
    then show ?thesis
      by (simp add: subdomain_runes hd_map last_map list_all_length byte_is_dash)
  qed (simp add: subdomain_runes)
  show ?thesis using a b c alnum_dash_ascii by blast
qed

text \<open>
  The names a tunnel may have: exactly the strings of 3 to 63 characters made of lower-case letters, digits
  and hyphens that neither begin nor end with a hyphen. (The rejection message promises 2
  to 63; a name of two characters is refused.)
\<close>
theorem valid_subdomains:
  "MatchString subdomainRE s \<longleftrightarrow>
     3 \<le> length s \<and> length s \<le> 63 \<and> list_all (\<lambda>c. alnum_dash (byte c)) s \<and> hd s \<noteq> CHR ''-'' \<and> last s \<noteq> CHR ''-''"
  by (rule subdomain_match)

lemma hex_digit_alnum: "n < 16 \<Longrightarrow> alnum (byte (hex_digit n))"
  by (simp add: hex_digit_def alnum_def)

lemma hex_encode_alnum: "list_all (\<lambda>c. alnum (byte c)) (hex_encode b)"
proof -
  have "(byte c :: nat) < 256" for c using of_char_mod_256 [of c, where 'a = nat] mod_less_divisor [of 256 "byte c"] by simp
  then have n: "byte c div 16 < (16::nat)" "byte c mod 16 < (16::nat)" for c by (simp_all add: div_less_iff_less_mult)
  show ?thesis by (induction b) (simp_all add: hex_encode_def hex_digit_alnum n)
qed

text \<open>
  A server-chosen name is always valid: the name made from four random bytes passes the check that
  chosen names have to pass, so an agent that asks for no name is never refused for it.
\<close>
theorem random_subdomain_is_valid:
  assumes "length b = 4"
  shows "MatchString subdomainRE (randomSubdomain b)"
proof -
  have "list_all (\<lambda>c. alnum_dash (byte c)) (hex_encode b)"
    using hex_encode_alnum [of b] by (auto simp: list_all_iff alnum_dash_def)
  moreover have "last (''t-'' @ hex_encode b) \<in> set (hex_encode b)"
    using assms by (cases "hex_encode b = []") (auto dest: arg_cong [of _ _ length])
  then have "alnum (byte (last (''t-'' @ hex_encode b)))"
    using hex_encode_alnum [of b] by (simp add: list_all_iff)
  then have "last (''t-'' @ hex_encode b) \<noteq> CHR ''-''" by (auto simp: alnum_def)
  ultimately show ?thesis
    using assms by (simp add: subdomain_match randomSubdomain_def alnum_dash_def alnum_def)
qed

section \<open>Who gets in\<close>

lemma UserByToken_same: "same_tables d (snd (UserByToken p token d))"
  by (simp add: UserByToken_def sql_read_same sql_user_by_token_def split: option.split)

lemma UserByToken_Inr:
  assumes "UserByToken p token d = (Inr u, d')"
  shows "(\<exists>tk \<in> set (db_tokens d). tk_hash tk = hashToken p token \<and> tk_user tk = u_id u) \<and> same_tables d d'"
proof -
  obtain d0 where q: "sql_user_by_token (hashToken p token) d0 = (Inr u, d')" and s: "same_tables d d0"
    using assms unfolding UserByToken_def map_err_Inr by (rule sql_Inr)
  then show ?thesis
    by (auto simp: sql_user_by_token_def to_user_def same_tables_def dest!: find_in_set split: option.splits)
qed

text \<open>
  C8. Only the owner's agent gets a name. When a handshake is accepted, its token belongs to an account, the name is a
  valid one (the requested one if one was requested), the tunnel of that name in the
  database belongs to that account and now has the agent's buffer rules, and the URL reported is the
  public address of that name.
\<close>
theorem accepted_handshake_is_authorised:
  assumes "authenticate p host tls rnd hs d = (reply, d')" and "hr_ok reply"
  shows "\<exists>uid. (\<exists>tk \<in> set (db_tokens d). tk_hash tk = hashToken p (hs_token hs) \<and> tk_user tk = uid)
    \<and> (\<exists>t \<in> set (db_tunnels d'). tn_sub t = hr_subdomain reply \<and> tn_user t = uid \<and> tn_rules t = json_strings (hs_rules hs))
    \<and> MatchString subdomainRE (hr_subdomain reply)
    \<and> (hs_subdomain hs \<noteq> [] \<longrightarrow> hr_subdomain reply = hs_subdomain hs)
    \<and> hr_url reply = (if tls then ''https://'' else ''http://'') @ hr_subdomain reply @ ''.'' @ host"
proof -
  let ?sub = "if hs_subdomain hs = [] then randomSubdomain rnd else hs_subdomain hs"
  from assms obtain user d1 t where u: "UserByToken p (hs_token hs) d = (Inr user, d1)"
    and m: "MatchString subdomainRE ?sub" and c: "ClaimTunnel (u_id user) ?sub (hs_rules hs) d1 = (Inr t, d')"
    and r: "reply = \<lparr>hr_ok = True, hr_error = [], hr_subdomain = tn_sub t,
      hr_url = (if tls then ''https'' else ''http'') @ ''://'' @ tn_sub t @ ''.'' @ host\<rparr>"
    by (auto simp: authenticate_def reject_def Let_def split: sum.splits prod.splits if_splits)
  obtain t' where t': "t' \<in> set (db_tunnels d')" "tn_ident t' = tn_ident t" "tn_rules t' = json_strings (hs_rules hs)"
    and t: "tn_sub t = ?sub" "tn_user t = u_id user"
    using ClaimTunnel_Inr [OF c] by blast
  have "tn_sub t' = tn_sub t" "tn_user t' = tn_user t" using t'(2) by (simp_all add: tn_ident_def)
  then show ?thesis
    using UserByToken_Inr [OF u] t' t m r by (intro exI [of _ "u_id user"]) auto
qed

text \<open>
  A refused handshake leaves no trace: with the wrong protocol version, a token of no account, or an invalid name, the
  agent is told so and no table changes.
\<close>
theorem refused_handshake_changes_nothing:
  assumes "authenticate p host tls rnd hs d = (reply, d')"
    and "hs_version hs \<noteq> Version \<or> hashToken p (hs_token hs) \<notin> tk_hash ` set (db_tokens d)
      \<or> (hs_subdomain hs \<noteq> [] \<and> \<not> MatchString subdomainRE (hs_subdomain hs))"
  shows "\<not> hr_ok reply \<and> hr_error reply \<noteq> [] \<and> same_tables d d'"
proof -
  obtain x d1 where u: "UserByToken p (hs_token hs) d = (x, d1)" by fastforce
  have same: "same_tables d d1" using UserByToken_same [of d p "hs_token hs"] u by simp
  have "\<not> (\<exists>user. x = Inr user)" if "hashToken p (hs_token hs) \<notin> tk_hash ` set (db_tokens d)"
    using UserByToken_Inr [of p "hs_token hs" d _ d1] u that by (force simp: image_iff)
  then show ?thesis
    using assms same by (auto simp: authenticate_def u reject_def Let_def split: sum.splits if_splits)
qed

section \<open>A connection from hello to heartbeat\<close>

text \<open>
  What the network does during the handshake: whether the multiplexer comes up and its first stream
  opens, the hello message if one can be read, and whether the reply can be written.
\<close>

record conn =
  cn_mux :: bool
  cn_stream :: bool
  cn_hello :: "handshake option"
  cn_reply :: bool

record edge =
  ed_db :: db
  ed_redis :: redis
  ed_registry :: registry

text \<open>
  \<open>handleConn\<close> up to its heartbeat loop, with \<open>sid\<close> for the new session's identity. The result is the
  session whose loop now runs (and on which \<open>OnConnect\<close> is started), or \<open>None\<close> where it returns early.
\<close>

definition handleConn ::
  "platform \<Rightarrow> 'l tunnel_server \<Rightarrow> bytes \<Rightarrow> conn \<Rightarrow> nat \<Rightarrow> edge \<Rightarrow> session option \<times> edge" where
  "handleConn p ts rnd cn sid st =
     (if \<not> cn_mux cn then (None, st)
      else if \<not> cn_stream cn then (None, st)
      else case cn_hello cn of
        None \<Rightarrow> (None, st)
      | Some hs \<Rightarrow>
          (case authenticate p (ts_public_host ts) (ts_public_tls ts) rnd hs (ed_db st) of
             (reply, d1) \<Rightarrow>
               if \<not> cn_reply cn then (None, st\<lparr>ed_db := d1\<rparr>)
               else if \<not> hr_ok reply then (None, st\<lparr>ed_db := d1\<rparr>)
               else (case TunnelBySubdomain (hr_subdomain reply) d1 of
                  (res, d2) \<Rightarrow>
                    (let sess = \<lparr>se_id = sid, se_sub = hr_subdomain reply,
                                 se_tunnel = (case res of Inr t \<Rightarrow> tn_id t | Inl e \<Rightarrow> 0)\<rparr>;
                         reg = Put sess (ed_registry st);
                         rd = snd (Heartbeat (se_sub sess) (ed_redis st)) in
                     (Some sess, \<lparr>ed_db = d2, ed_redis = rd, ed_registry = reg\<rparr>)))))"

text \<open>The two branches of the heartbeat loop.\<close>

definition loop_tick :: "session \<Rightarrow> edge \<Rightarrow> edge" where
  "loop_tick sess st = st\<lparr>ed_redis := snd (Heartbeat (se_sub sess) (ed_redis st))\<rparr>"

definition loop_close :: "session \<Rightarrow> edge \<Rightarrow> edge" where
  "loop_close sess st =
     (let st1 = st\<lparr>ed_registry := Remove sess (ed_registry st)\<rparr> in
      st1\<lparr>ed_redis := snd (Clear (se_sub sess) (ed_redis st1))\<rparr>)"

lemma handleConn_Some:
  assumes "handleConn p ts rnd cn sid st = (Some sess, st')"
  obtains hs reply d1 res d2 where "cn_hello cn = Some hs"
    and "authenticate p (ts_public_host ts) (ts_public_tls ts) rnd hs (ed_db st) = (reply, d1)" and "hr_ok reply"
    and "TunnelBySubdomain (hr_subdomain reply) d1 = (res, d2)"
    and "sess = \<lparr>se_id = sid, se_sub = hr_subdomain reply, se_tunnel = (case res of Inr t \<Rightarrow> tn_id t | Inl e \<Rightarrow> 0)\<rparr>"
    and "st' = \<lparr>ed_db = d2, ed_redis = snd (Heartbeat (se_sub sess) (ed_redis st)), ed_registry = Put sess (ed_registry st)\<rparr>"
  using assms by (auto simp: handleConn_def Let_def split: if_splits option.splits prod.splits)

text \<open>
  A connected agent is reachable. When \<open>handleConn\<close> gets as far as its heartbeat loop and Redis took the
  first heartbeat, requests for the agent's name now find its session in the registry and the name online; any earlier
  session of that name has been closed; other names keep their sessions; and the session carries
  the number of a tunnel of that name, or none when the lookup failed.
\<close>
theorem connected_agent_is_reachable:
  assumes "handleConn p ts rnd cn sid st = (Some sess, st')" and "rd_outcomes (ed_redis st) = []"
  shows "Get (se_sub sess) (ed_registry st') = Some sess \<and> se_id sess = sid
    \<and> fst (IsOnline (se_sub sess) (ed_redis st')) = (True, None)
    \<and> (\<forall>old. Get (se_sub sess) (ed_registry st) = Some old \<and> se_id old \<noteq> sid \<longrightarrow> se_id old \<in> set (rg_closed (ed_registry st')))
    \<and> (\<forall>k. k \<noteq> se_sub sess \<longrightarrow> Get k (ed_registry st') = Get k (ed_registry st))
    \<and> (se_tunnel sess = 0 \<or> (\<exists>t \<in> set (db_tunnels (ed_db st')). tn_id t = se_tunnel sess \<and> tn_sub t = se_sub sess))"
proof -
  from assms(1) obtain hs reply d1 res d2 where "cn_hello cn = Some hs"
    and "authenticate p (ts_public_host ts) (ts_public_tls ts) rnd hs (ed_db st) = (reply, d1)" and "hr_ok reply"
    and t: "TunnelBySubdomain (hr_subdomain reply) d1 = (res, d2)"
    and s: "sess = \<lparr>se_id = sid, se_sub = hr_subdomain reply, se_tunnel = (case res of Inr t \<Rightarrow> tn_id t | Inl e \<Rightarrow> 0)\<rparr>"
    and st': "st' = \<lparr>ed_db = d2, ed_redis = snd (Heartbeat (se_sub sess) (ed_redis st)), ed_registry = Put sess (ed_registry st)\<rparr>"
    by (rule handleConn_Some)
  have "se_tunnel sess = 0 \<or> (\<exists>t \<in> set (db_tunnels d2). tn_id t = se_tunnel sess \<and> tn_sub t = se_sub sess)"
  proof (cases res)
    case (Inr x)
    then show ?thesis using TunnelBySubdomain_Inr [of "hr_subdomain reply" d1 x d2] t s
      by (auto simp: same_tables_def)
  qed (simp add: s)
  moreover have "fst (IsOnline (se_sub sess) (ed_redis st')) = (True, None)"
    using assms(2) by (simp add: st' Heartbeat_def IsOnline_def cmd_quiet redis_set_def redis_exists_def PresenceTTL_def)
  ultimately show ?thesis by (simp add: st' s Get_Put closed_Put)
qed

section \<open>Examples\<close>

definition demo_hello :: handshake where
  "demo_hello = \<lparr>hs_version = 1, hs_token = ''lu_72'', hs_subdomain = ''myapp'', hs_rules = [''/hooks/*'']\<rparr>"

definition demo_conn :: conn where
  "demo_conn = \<lparr>cn_mux = True, cn_stream = True, cn_hello = Some demo_hello, cn_reply = True\<rparr>"

definition demo_edge :: edge where
  "demo_edge = \<lparr>ed_db = demo_user_db, ed_redis = demo_redis, ed_registry = NewRegistry\<rparr>"

definition demo_server :: "nat tunnel_server" where
  "demo_server = NewTunnelServer \<lparr>tc_public_host = ''lvh.me:8080'', tc_public_tls = False, tc_rate_per_minute = 0\<rparr>"

lemma demo_name_ok: "MatchString subdomainRE ''myapp''"
  by (simp add: subdomain_match alnum_dash_def alnum_def)

lemma demo_lookup: "UserByToken demo_platform ''lu_72'' demo_user_db = (Inr \<lparr>u_id = 1, u_email = ''a@b.c''\<rparr>, demo_user_db)"
  unfolding demo_user_db_eq by code_simp

lemma demo_auth: "authenticate demo_platform ''lvh.me:8080'' False rnd demo_hello demo_user_db
  = (\<lparr>hr_ok = True, hr_error = [], hr_subdomain = ''myapp'', hr_url = ''http://myapp.lvh.me:8080''\<rparr>, demo_db)"
  by (simp add: authenticate_def demo_hello_def Version_def demo_lookup demo_name_ok demo_claim Let_def)
    (simp add: demo_tunnel_def)

theorem random_subdomain_is_valid_witness: "MatchString subdomainRE (randomSubdomain ''abcd'')"
  by (rule random_subdomain_is_valid) simp

theorem accepted_handshake_is_authorised_witness:
  "\<exists>t \<in> set (db_tunnels demo_db). tn_sub t = ''myapp'' \<and> tn_rules t = json_strings [''/hooks/*'']"
  using accepted_handshake_is_authorised [OF demo_auth [of "[]"]] by (auto simp: demo_hello_def)

theorem refused_handshake_changes_nothing_witness:
  "\<not> hr_ok (fst (authenticate demo_platform [] False [] (demo_hello\<lparr>hs_version := 2\<rparr>) demo_user_db))"
  using refused_handshake_changes_nothing [of demo_platform "[]" False "[]" "demo_hello\<lparr>hs_version := 2\<rparr>" demo_user_db]
  by (cases "authenticate demo_platform [] False [] (demo_hello\<lparr>hs_version := 2\<rparr>) demo_user_db")
    (simp add: Version_def)

lemma demo_handle:
  "handleConn demo_platform demo_server [] demo_conn 5 demo_edge
    = (Some (session_for 1 ''myapp'' 5),
       \<lparr>ed_db = demo_db, ed_redis = snd (Heartbeat ''myapp'' demo_redis), ed_registry = Put (session_for 1 ''myapp'' 5) NewRegistry\<rparr>)"
proof -
  have "pg_text ''myapp''" by code_simp
  then have "TunnelBySubdomain ''myapp'' demo_db = (Inr demo_tunnel, demo_db)"
    using tunnel_by_sub_found [OF demo_db_wf, of demo_tunnel "''myapp''" demo_db]
    by (simp add: demo_db_eq demo_tunnel_def demo_user_db_eq empty_db_def)
  then show ?thesis
    by (simp add: handleConn_def demo_conn_def demo_server_def demo_edge_def NewTunnelServer_def Let_def demo_auth session_for_def)
      (simp add: demo_tunnel_def)
qed

theorem connected_agent_is_reachable_witness:
  "Get ''myapp'' (ed_registry (snd (handleConn demo_platform demo_server [] demo_conn 5 demo_edge))) = Some (session_for 1 ''myapp'' 5)
   \<and> fst (IsOnline ''myapp'' (ed_redis (snd (handleConn demo_platform demo_server [] demo_conn 5 demo_edge)))) = (True, None)"
  using connected_agent_is_reachable [OF demo_handle]
  unfolding demo_handle snd_conv by (simp add: demo_edge_def demo_redis_def session_for_def)

end
