(* ===== verification/Router.thy ===== *)
theory Router
  imports Offline Proxy TunnelServer
begin

text \<open>
  \<open>internal/edge/router.go\<close>: the public HTTP handler. The host decides between the apex pages and a tunnel; a tunnel's
  request goes to its agent if the name is online and registered, and to the offline handler otherwise.
  The dashboard handlers and the offline handler are arguments; the state of the process is
  the record \<open>gateway\<close>: the stores, the two limiters of the router and the limiter of the control API behind the
  dashboard, which works on the stores and its limiter (\<open>api_state\<close>).
\<close>

type_synonym 'l api_state = "edge \<times> 'l ip_limiter option"
type_synonym 'l handler = "request \<Rightarrow> writer \<times> 'l api_state \<Rightarrow> served \<times> 'l api_state"
type_synonym offline_server = "request \<Rightarrow> tunnel \<Rightarrow> writer \<times> db \<Rightarrow> served \<times> db"

record 'l gateway =
  gw_edge :: edge
  gw_tunnel_limiter :: "'l ip_limiter option"
  gw_dash_limiter :: "'l ip_limiter option"
  gw_auth_limiter :: "'l ip_limiter option"

record 'l router_config =
  rc_base_host :: bytes
  rc_offline :: "offline_server option"
  rc_dashboard :: "'l handler option"
  rc_dashboard_api :: "'l handler option"
  rc_tunnel_rps :: rat
  rc_tunnel_burst :: int
  rc_dash_rps :: rat
  rc_dash_burst :: int

definition NewRouter :: "'l router_config \<Rightarrow> 'l api_state \<Rightarrow> 'l gateway" where
  "NewRouter cfg api =
     (let tunnelRPS = (if rc_tunnel_rps cfg \<le> 0 then 20 else rc_tunnel_rps cfg);
          tunnelBurst = (if rc_tunnel_burst cfg \<le> 0 then 40 else rc_tunnel_burst cfg);
          dashboardRPS = (if rc_dash_rps cfg \<le> 0 then 10 else rc_dash_rps cfg);
          dashboardBurst = (if rc_dash_burst cfg \<le> 0 then 30 else rc_dash_burst cfg) in
      \<lparr>gw_edge = fst api,
       gw_tunnel_limiter = Some (NewIPLimiter tunnelRPS tunnelBurst rateLimiterIdleTTL),
       gw_dash_limiter = Some (NewIPLimiter dashboardRPS dashboardBurst rateLimiterIdleTTL),
       gw_auth_limiter = snd api\<rparr>)"

definition host_subdomain :: "platform \<Rightarrow> bytes \<Rightarrow> bytes \<Rightarrow> bytes" where
  "host_subdomain p baseHost host0 =
     (let host = ToLower (pl_lower p) host0; base = ToLower (pl_lower p) baseHost in
      if host = base then []
      else let suffix = ''.'' @ base in
        if HasSuffix host suffix then TrimSuffix host suffix else [])"

definition clientIP :: "request \<Rightarrow> bytes" where
  "clientIP r = (case SplitHostPort (req_remote r) of None \<Rightarrow> req_remote r | Some (host, _) \<Rightarrow> host)"

definition tooManyRequests :: "writer \<Rightarrow> writer" where
  "tooManyRequests w = http_Error (line ''429 Too Many Requests'') 429 (w_set ''Retry-After'' ''1'' w)"

definition serveLanding :: "'l handler" where
  "serveLanding r s = (case s of (w, a) \<Rightarrow>
     (Reply (Write (brandedPage ''liveurl'' ''The tunnel URL that survives your laptop going to sleep.'')
        (w_set ''Content-Type'' ''text/html; charset=utf-8'' w)), a))"

text \<open>\<open>http.StripPrefix\<close>.\<close>

definition StripPrefix :: "bytes \<Rightarrow> 'l handler \<Rightarrow> 'l handler" where
  "StripPrefix pre h r s =
     (let q = TrimPrefix (req_path r) pre; rq = TrimPrefix (req_rawpath r) pre in
      if length q < length (req_path r) \<and> (req_rawpath r = [] \<or> length rq < length (req_rawpath r))
      then h (r\<lparr>req_path := q, req_rawpath := rq\<rparr>) s
      else (case s of (w, a) \<Rightarrow> (Reply (http_Error ''404 page not found'' 404 w), a)))"

definition serveApex :: "'l router_config \<Rightarrow> 'l handler" where
  "serveApex cfg r s =
     (if HasPrefix (req_path r) ''/dashboard/api/'' then
        (case rc_dashboard_api cfg of None \<Rightarrow> serveLanding r s | Some h \<Rightarrow> StripPrefix ''/dashboard'' h r s)
      else if HasPrefix (req_path r) ''/dashboard'' then
        (case rc_dashboard cfg of None \<Rightarrow> serveLanding r s | Some h \<Rightarrow> StripPrefix ''/dashboard'' h r s)
      else serveLanding r s)"

definition serveOffline :: "'l router_config \<Rightarrow> offline_server" where
  "serveOffline cfg r t s =
     (case rc_offline cfg of
        Some h \<Rightarrow> h r t s
      | None \<Rightarrow> (case s of (w, d) \<Rightarrow>
          (Reply (http_Error (brandedPage ''503 Offline'' (''This tunnel'' @ [CHR 0x27] @ ''s agent is not connected right now.'')) 503 w), d)))"

text \<open>What the handler did: answered, panicked, or forwarded to the session of that number.\<close>

datatype answer = Answered served | Forwarded nat live

text \<open>The last part of \<open>ServeHTTP\<close>: the tunnel is known, is its agent there?\<close>

definition dispatch ::
  "platform \<Rightarrow> 'l router_config \<Rightarrow> (bytes \<Rightarrow> bytes list) \<Rightarrow> upgrade_io \<Rightarrow> (session \<Rightarrow> exchange) \<Rightarrow>
   bytes \<Rightarrow> request \<Rightarrow> tunnel \<Rightarrow> writer \<times> edge \<Rightarrow> answer \<times> edge" where
  "dispatch p cfg reads io agent sub r t s =
     (case s of (w, st) \<Rightarrow>
      (case IsOnline sub (ed_redis st) of
         ((up, err), rd) \<Rightarrow>
           (let st1 = st\<lparr>ed_redis := rd\<rparr> in
            case (if up then Get sub (ed_registry st1) else None) of
              Some sess \<Rightarrow>
                (case forwardLive p reads io r (agent sess) (tn_id t) (w, ed_db st1) of
                   (l, d) \<Rightarrow> (Forwarded (se_id sess) l, st1\<lparr>ed_db := d\<rparr>))
            | None \<Rightarrow>
                (case serveOffline cfg r t (w, ed_db st1) of (sv, d) \<Rightarrow> (Answered sv, st1\<lparr>ed_db := d\<rparr>)))))"

definition serve_tunnel ::
  "platform \<Rightarrow> 'l router_config \<Rightarrow> (bytes \<Rightarrow> bytes list) \<Rightarrow> upgrade_io \<Rightarrow> (session \<Rightarrow> exchange) \<Rightarrow>
   bytes \<Rightarrow> request \<Rightarrow> writer \<times> edge \<Rightarrow> answer \<times> edge" where
  "serve_tunnel p cfg reads io agent sub r s =
     (case s of (w, st) \<Rightarrow>
      (case TunnelBySubdomain sub (ed_db st) of
         (Inl e, d) \<Rightarrow>
           (let st1 = st\<lparr>ed_db := d\<rparr> in
            if errors_Is e ErrNotFound then
              (Answered (Reply (http_Error (brandedPage ''404 Not Found''
                 (''No tunnel is registered for '' @ [CHR 0x22] @ sub @ [CHR 0x22] @ ''.'')) 404 w)), st1)
            else
              (Answered (Reply (http_Error (brandedPage ''500 Internal Error''
                 ''Something went wrong looking up this tunnel.'') 500 w)), st1))
       | (Inr t, d) \<Rightarrow> dispatch p cfg reads io agent sub r t (w, st\<lparr>ed_db := d\<rparr>)))"

definition ServeHTTP ::
  "platform \<Rightarrow> 'l bucket_lib \<Rightarrow> 'l router_config \<Rightarrow> (bytes \<Rightarrow> bytes list) \<Rightarrow> upgrade_io \<Rightarrow> (session \<Rightarrow> exchange) \<Rightarrow> int \<Rightarrow>
   request \<Rightarrow> writer \<times> 'l gateway \<Rightarrow> answer \<times> 'l gateway" where
  "ServeHTTP p lib cfg reads io agent now r s =
     (case s of (w, gw) \<Rightarrow>
      (let sub = host_subdomain p (rc_base_host cfg) (req_host r); ip = clientIP r; st = gw_edge gw in
       if sub = [] then
         (case Allow_nil lib now ip (gw_dash_limiter gw) of
            (ok, l) \<Rightarrow>
              (let gw1 = gw\<lparr>gw_dash_limiter := l\<rparr> in
               if \<not> ok then (Answered (Reply (tooManyRequests w)), gw1)
               else (case serveApex cfg r (w, st, gw_auth_limiter gw) of
                 (sv, st', al) \<Rightarrow> (Answered sv, gw1\<lparr>gw_edge := st', gw_auth_limiter := al\<rparr>))))
       else
         (case Allow_nil lib now (ip @ ''|'' @ sub) (gw_tunnel_limiter gw) of
            (ok, l) \<Rightarrow>
              (let gw1 = gw\<lparr>gw_tunnel_limiter := l\<rparr> in
               if \<not> ok then (Answered (Reply (tooManyRequests w)), gw1)
               else (case serve_tunnel p cfg reads io agent sub r (w, st) of
                 (a, st') \<Rightarrow> (a, gw1\<lparr>gw_edge := st'\<rparr>))))))"

section \<open>Hosts\<close>

lemma host_subdomain_iff:
  assumes "sub \<noteq> []"
  shows "host_subdomain p base host = sub \<longleftrightarrow>
    ToLower (pl_lower p) host = sub @ ''.'' @ ToLower (pl_lower p) base"
proof -
  let ?h = "ToLower (pl_lower p) host" and ?b = "''.'' @ ToLower (pl_lower p) base"
  have ne: "sub @ ?b \<noteq> ToLower (pl_lower p) base" by (auto dest: arg_cong [of _ _ length])
  have s: "suffix ?b (x @ ?b)" for x by (simp add: suffix_def)
  have t: "take (length (x @ ?b) - length ?b) (x @ ?b) = x" for x by simp
  show ?thesis
  proof (cases "suffix ?b ?h")
    case True
    then obtain x where x: "?h = x @ ?b" by (auto simp: suffix_def)
    have "x @ ?b \<noteq> ToLower (pl_lower p) base" by (auto dest: arg_cong [of _ _ length])
    then show ?thesis using s [of x] t [of x] unfolding host_subdomain_def Let_def HasSuffix_def TrimSuffix_def x
      by (simp only: if_True if_False append_same_eq)
  next
    case False
    then have "?h \<noteq> sub @ ?b" using s [of sub] by metis
    then show ?thesis using False assms unfolding host_subdomain_def Let_def HasSuffix_def by auto
  qed
qed

text \<open>
  The host names a tunnel: a request is for the tunnel \<open>sub\<close> exactly if its host, in lower case, is \<open>sub\<close>, a dot and
  the base host in lower case; every other host, the base itself included, is the apex.
\<close>
theorem host_routing:
  assumes "sub \<noteq> []"
  shows "host_subdomain p base host = sub \<longleftrightarrow>
    ToLower (pl_lower p) host = sub @ ''.'' @ ToLower (pl_lower p) base"
  using assms by (rule host_subdomain_iff)

theorem host_routing_witness: "host_subdomain demo_platform ''lvh.me:8080'' ''MyApp.lvh.me:8080'' = ''myapp''"
proof -
  have "ToLower (pl_lower demo_platform) ''MyApp.lvh.me:8080'' = ''myapp'' @ ''.'' @ ToLower (pl_lower demo_platform) ''lvh.me:8080''"
    by (simp add: lower_eval)
  then show ?thesis using host_routing [of "''myapp''" demo_platform "''lvh.me:8080''" "''MyApp.lvh.me:8080''"] by simp
qed

end
