(* ===== verification/Control.thy ===== *)
theory Control
  imports Router Replay GoServe GoStruct GoRegexp "HOL-Library.List_Lexorder" "HOL-Library.Char_ord"
begin

text \<open>
  \<open>internal/control/server.go\<close>: the REST API behind the CLI and the dashboard. A call of the server is one function from
  request and state to response and state; what a call draws from outside (the salt and the random
  bytes of a token, the time for the limiter, how a time is written, what the streams to the agents do next) is the record \<open>api_env\<close>.
\<close>

record 'l api_env =
  ae_platform :: platform
  ae_lib :: "'l bucket_lib"
  ae_now :: int
  ae_salt :: bytes
  ae_random :: "bytes option"
  ae_json_time :: "int \<Rightarrow> bytes"
  ae_links :: "session \<Rightarrow> link"

type_synonym respond = "writer \<times> edge \<Rightarrow> writer \<times> edge"

definition authRateIdleTTL :: int where "authRateIdleTTL = 5 * 60 * 1000000"

definition NewServer :: "edge \<Rightarrow> 'l api_state" where
  "NewServer st = (st, Some (NewIPLimiter (5 / 60) 5 authRateIdleTTL))"

section \<open>Answers\<close>

definition writeJSON :: "int \<Rightarrow> json \<Rightarrow> writer \<Rightarrow> writer" where
  "writeJSON status v w =
     Write (Encode v) (WriteHeader status (w_set ''Content-Type'' ''application/json'' w))"

definition writeErr :: "int \<Rightarrow> bytes \<Rightarrow> writer \<Rightarrow> writer" where
  "writeErr status msg w = writeJSON status (JObj [(''error'', JStr msg)]) w"

definition statusFor :: "go_error \<Rightarrow> int" where
  "statusFor e =
     (if errors_Is e ErrMissingTunnelParam then 400
      else if errors_Is e ErrNotOwner then 403
      else if errors_Is e ErrNotFound then 404
      else 500)"

section \<open>Authentication\<close>

definition bearer :: "request \<Rightarrow> bytes" where
  "bearer r = TrimPrefix (Header_Get (req_header r) ''Authorization'') ''Bearer ''"

definition withAuth :: "platform \<Rightarrow> (request \<Rightarrow> user \<Rightarrow> respond) \<Rightarrow> request \<Rightarrow> respond" where
  "withAuth p next r s =
     (case s of (w, st) \<Rightarrow>
      (let token = bearer r in
       if token = [] then (writeErr 401 ''missing bearer token'' w, st)
       else (case UserByToken p token (ed_db st) of
          (Inl e, d) \<Rightarrow> (writeErr 401 ''invalid token'' w, st\<lparr>ed_db := d\<rparr>)
        | (Inr u, d) \<Rightarrow> next r u (w, st\<lparr>ed_db := d\<rparr>))))"

definition rateLimitAuth :: "'l api_env \<Rightarrow> (request \<Rightarrow> respond) \<Rightarrow> request \<Rightarrow> writer \<times> 'l api_state \<Rightarrow> writer \<times> 'l api_state" where
  "rateLimitAuth env next r s =
     (case s of (w, st, al) \<Rightarrow>
      (case Allow_nil (ae_lib env) (ae_now env) (clientIP r) al of
         (ok, al') \<Rightarrow>
           if \<not> ok then
             (writeErr 429 ''too many attempts; try again in a minute'' (w_set ''Retry-After'' ''60'' w), st, al')
           else (case next r (w, st) of (w', st') \<Rightarrow> (w', st', al'))))"

section \<open>Accounts\<close>

definition email_rune :: "rune \<Rightarrow> bool" where
  "email_rune r = (r \<notin> {9, 10, 12, 13, 32, 64})"

definition emailRE :: "rune re" where
  "emailRE = Cat (Plus (Cls email_rune)) (Cat (Cls (\<lambda>r. r = 64))
     (Cat (Plus (Cls email_rune)) (Cat (Cls (\<lambda>r. r = 46)) (Plus (Cls email_rune)))))"

definition minPasswordLen :: nat where "minPasswordLen = 8"

definition read_credentials :: "body \<Rightarrow> (bytes \<times> bytes) option" where
  "read_credentials b =
     (case Decode b of
        None \<Rightarrow> None
      | Some v \<Rightarrow>
          (case object_of v of
             None \<Rightarrow> None
           | Some kvs \<Rightarrow>
               (case (string_field ''email'' kvs [], string_field ''password'' kvs []) of
                  (Some e, Some pw) \<Rightarrow> Some (e, pw)
                | _ \<Rightarrow> None)))"

definition decodeCredentials :: "platform \<Rightarrow> request \<Rightarrow> go_error + (bytes \<times> bytes)" where
  "decodeCredentials p r =
     (case read_credentials (req_body r) of
        None \<Rightarrow> Inl (ErrText ''invalid JSON body'')
      | Some (e, pw) \<Rightarrow>
          (let email = ToLower (pl_lower p) (TrimSpace e) in
           if \<not> MatchString emailRE email then Inl (ErrText ''invalid email address'')
           else if length pw < minPasswordLen then
             Inl (ErrText (''password must be at least '' @ Itoa (int minPasswordLen) @ '' characters''))
           else Inr (email, pw)))"

definition signUp :: "'l api_env \<Rightarrow> request \<Rightarrow> respond" where
  "signUp env r s =
     (let p = ae_platform env in
      case s of (w, st) \<Rightarrow>
      (case decodeCredentials p r of
         Inl e \<Rightarrow> (writeErr 400 (error_text (pl_pgmsg p) e) w, st)
       | Inr (email, password) \<Rightarrow>
          (case SignUp p (ae_salt env) (ae_random env) email password (ed_db st) of
             (Inl e, d) \<Rightarrow>
               if errors_Is e ErrEmailTaken then
                 (writeErr 409 ''an account with that email already exists'' w, st\<lparr>ed_db := d\<rparr>)
               else (writeErr 500 ''could not create account'' w, st\<lparr>ed_db := d\<rparr>)
           | (Inr (user, token), d) \<Rightarrow>
               (writeJSON 201 (JObj [(''email'', JStr (u_email user)), (''token'', JStr token)]) w, st\<lparr>ed_db := d\<rparr>))))"

definition logIn :: "'l api_env \<Rightarrow> request \<Rightarrow> respond" where
  "logIn env r s =
     (let p = ae_platform env in
      case s of (w, st) \<Rightarrow>
      (case decodeCredentials p r of
         Inl e \<Rightarrow> (writeErr 400 (error_text (pl_pgmsg p) e) w, st)
       | Inr (email, password) \<Rightarrow>
          (case VerifyPassword p email password (ed_db st) of
             (Inl e, d) \<Rightarrow>
               if errors_Is e ErrInvalidCredentials then (writeErr 401 ''invalid email or password'' w, st\<lparr>ed_db := d\<rparr>)
               else (writeErr 500 ''could not log in'' w, st\<lparr>ed_db := d\<rparr>)
           | (Inr user, d) \<Rightarrow>
              (case NewToken p (ae_random env) (u_id user) d of
                 (Inl e, d') \<Rightarrow> (writeErr 500 ''could not create token'' w, st\<lparr>ed_db := d'\<rparr>)
               | (Inr token, d') \<Rightarrow>
                   (writeJSON 200 (JObj [(''email'', JStr (u_email user)), (''token'', JStr token)]) w, st\<lparr>ed_db := d'\<rparr>)))))"

section \<open>Tunnels and events\<close>

definition resolveOwnedTunnel :: "request \<Rightarrow> user \<Rightarrow> tunnel stmt" where
  "resolveOwnedTunnel r u =
     (let sub = query_get (req_query r) ''tunnel'' in
      if sub = [] then fail ErrMissingTunnelParam
      else and_then (TunnelBySubdomain sub)
        (\<lambda>t. if tn_user t \<noteq> u_id u then fail ErrNotOwner else ret t))"

fun online_items :: "tunnel list \<Rightarrow> redis \<Rightarrow> json list \<times> redis" where
  "online_items [] rd = ([], rd)"
| "online_items (t # ts) rd =
     (case IsOnline (tn_sub t) rd of
        ((up, err), rd1) \<Rightarrow>
          (case online_items ts rd1 of
             (items, rd2) \<Rightarrow> (JObj [(''subdomain'', JStr (tn_sub t)), (''online'', JBool up)] # items, rd2)))"

definition listTunnels :: "platform \<Rightarrow> request \<Rightarrow> user \<Rightarrow> respond" where
  "listTunnels p r u s =
     (case s of (w, st) \<Rightarrow>
      (case ListTunnels (u_id u) (ed_db st) of
         (Inl e, d) \<Rightarrow> (writeErr 500 (error_text (pl_pgmsg p) e) w, st\<lparr>ed_db := d\<rparr>)
       | (Inr ts, d) \<Rightarrow>
          (case online_items ts (ed_redis st) of
             (out, rd) \<Rightarrow> (writeJSON 200 (JArr out) w, st\<lparr>ed_db := d, ed_redis := rd\<rparr>))))"

text \<open>Standard base64, in which a \<open>[]byte\<close> is written.\<close>

definition b64_char :: "nat \<Rightarrow> char" where
  "b64_char n =
     (if n < 26 then chr (65 + n) else if n < 52 then chr (71 + n) else if n < 62 then chr (n - 4)
      else if n = 62 then CHR ''+'' else CHR ''/'')"

fun base64 :: "bytes \<Rightarrow> bytes" where
  "base64 (a # b # c # s) =
     (let n = (byte a * 256 + byte b) * 256 + byte c in
      b64_char (n div 262144) # b64_char (n div 4096 mod 64) # b64_char (n div 64 mod 64) # b64_char (n mod 64) # base64 s)"
| "base64 [a, b] =
     (let n = (byte a * 256 + byte b) * 4 in
      [b64_char (n div 4096), b64_char (n div 64 mod 64), b64_char (n mod 64), CHR ''='' ])"
| "base64 [a] = (let n = byte a * 16 in [b64_char (n div 64), b64_char (n mod 64), CHR ''='', CHR ''='' ])"
| "base64 [] = []"

definition event_json :: "(int \<Rightarrow> bytes) \<Rightarrow> event \<Rightarrow> json" where
  "event_json tm e =
     JObj [(''ID'', JInt (ev_id e)), (''TunnelID'', JInt (ev_tunnel e)), (''Method'', JStr (ev_method e)),
       (''Path'', JStr (ev_path e)), (''Query'', JStr (ev_query e)),
       (''Headers'', JObj (map (\<lambda>(k, vs). (k, JArr (map JStr vs))) (sort_key fst (ev_headers e)))),
       (''Body'', JStr (base64 (ev_body e))), (''ReceivedAt'', JStr (tm (ev_received e))),
       (''State'', JStr (state_text (ev_state e))), (''Attempts'', JInt (ev_attempts e)),
       (''LastStatus'', JInt (ev_last_status e)),
       (''DeliveredAt'', case ev_delivered e of None \<Rightarrow> JNull | Some t \<Rightarrow> JStr (tm t))]"

text \<open>A slice of events; the nil slice of an empty answer is written as \<open>null\<close>.\<close>

definition events_json :: "(int \<Rightarrow> bytes) \<Rightarrow> event list \<Rightarrow> json" where
  "events_json tm es = (if es = [] then JNull else JArr (map (event_json tm) es))"

definition listEvents :: "platform \<Rightarrow> (int \<Rightarrow> bytes) \<Rightarrow> request \<Rightarrow> user \<Rightarrow> respond" where
  "listEvents p tm r u s =
     (case s of (w, st) \<Rightarrow>
      (case resolveOwnedTunnel r u (ed_db st) of
         (Inl e, d) \<Rightarrow> (writeErr (statusFor e) (error_text (pl_pgmsg p) e) w, st\<lparr>ed_db := d\<rparr>)
       | (Inr t, d) \<Rightarrow>
          (case ListEvents (tn_id t) (query_get (req_query r) ''state'') d of
             (Inl e, d') \<Rightarrow> (writeErr 500 (error_text (pl_pgmsg p) e) w, st\<lparr>ed_db := d'\<rparr>)
           | (Inr es, d') \<Rightarrow> (writeJSON 200 (events_json tm es) w, st\<lparr>ed_db := d'\<rparr>))))"

definition clearEvents :: "platform \<Rightarrow> request \<Rightarrow> user \<Rightarrow> respond" where
  "clearEvents p r u s =
     (case s of (w, st) \<Rightarrow>
      (case resolveOwnedTunnel r u (ed_db st) of
         (Inl e, d) \<Rightarrow> (writeErr (statusFor e) (error_text (pl_pgmsg p) e) w, st\<lparr>ed_db := d\<rparr>)
       | (Inr t, d) \<Rightarrow>
          (case ClearEvents (tn_id t) d of
             (Inl e, d') \<Rightarrow> (writeErr 500 (error_text (pl_pgmsg p) e) w, st\<lparr>ed_db := d'\<rparr>)
           | (Inr _, d') \<Rightarrow> (WriteHeader 204 w, st\<lparr>ed_db := d'\<rparr>))))"

text \<open>The keys of a map are written in sorted order.\<close>

definition status_json :: "bytes \<Rightarrow> bool \<Rightarrow> nat \<Rightarrow> int \<Rightarrow> int \<Rightarrow> json" where
  "status_json sub up queued pages total_bytes =
     JObj [(''online'', JBool up), (''queued_events'', JInt (int queued)), (''snapshot_bytes'', JInt total_bytes),
       (''snapshot_pages'', JInt pages), (''subdomain'', JStr sub)]"

definition status :: "platform \<Rightarrow> request \<Rightarrow> user \<Rightarrow> respond" where
  "status p r u s =
     (case s of (w, st) \<Rightarrow>
      (case resolveOwnedTunnel r u (ed_db st) of
         (Inl e, d) \<Rightarrow> (writeErr (statusFor e) (error_text (pl_pgmsg p) e) w, st\<lparr>ed_db := d\<rparr>)
       | (Inr t, d) \<Rightarrow>
          (case IsOnline (tn_sub t) (ed_redis st) of
             ((up, err), rd) \<Rightarrow>
               (case ListEvents (tn_id t) (state_text EventQueued) d of
                  (Inl e, d1) \<Rightarrow> (writeErr 500 (error_text (pl_pgmsg p) e) w, st\<lparr>ed_db := d1, ed_redis := rd\<rparr>)
                | (Inr queued, d1) \<Rightarrow>
                   (case SnapshotStats (tn_id t) d1 of
                      (Inl e, d2) \<Rightarrow> (writeErr 500 (error_text (pl_pgmsg p) e) w, st\<lparr>ed_db := d2, ed_redis := rd\<rparr>)
                    | (Inr (pages, nbytes), d2) \<Rightarrow>
                        (writeJSON 200 (status_json (tn_sub t) up (length queued) pages nbytes) w,
                         st\<lparr>ed_db := d2, ed_redis := rd\<rparr>))))))"

definition detail_json :: "bytes \<Rightarrow> bytes \<Rightarrow> json" where
  "detail_json st detail = JObj [(''detail'', JStr detail), (''status'', JStr st)]"

text \<open>With the state the call leaves goes the link of the session it has used, after the replay, when there was one.\<close>

definition replayEvent ::
  "platform \<Rightarrow> (session \<Rightarrow> link) \<Rightarrow> bytes \<Rightarrow> request \<Rightarrow> user \<Rightarrow> writer \<times> edge \<Rightarrow> (writer \<times> edge) \<times> link option" where
  "replayEvent p links raw_id r u s =
     (case s of (w, st) \<Rightarrow>
      (case ParseInt64 raw_id of
         None \<Rightarrow> ((writeErr 400 ''invalid event id'' w, st), None)
       | Some i \<Rightarrow>
          (case EventByID i (ed_db st) of
             (Inl e, d) \<Rightarrow> ((writeErr (statusFor e) ''event not found'' w, st\<lparr>ed_db := d\<rparr>), None)
           | (Inr event, d) \<Rightarrow>
              (case TunnelByID (ev_tunnel event) d of
                 (Inl e, d1) \<Rightarrow> ((writeErr 500 (error_text (pl_pgmsg p) e) w, st\<lparr>ed_db := d1\<rparr>), None)
               | (Inr t, d1) \<Rightarrow>
                  if tn_user t \<noteq> u_id u then
                    ((writeErr 403 (error_text (pl_pgmsg p) ErrNotOwner) w, st\<lparr>ed_db := d1\<rparr>), None)
                  else
                   (case RequeueEvent i d1 of
                      (Inl e, d2) \<Rightarrow> ((writeErr 500 (error_text (pl_pgmsg p) e) w, st\<lparr>ed_db := d2\<rparr>), None)
                    | (Inr _, d2) \<Rightarrow>
                       (case Get (tn_sub t) (ed_registry st) of
                          None \<Rightarrow>
                            ((writeJSON 202 (detail_json ''queued'' ''agent offline; will retry automatically on next connect'') w,
                              st\<lparr>ed_db := d2\<rparr>), None)
                        | Some sess \<Rightarrow>
                           (case ReplayEvent event (links sess, d2) of
                              ((code, err), lk, d3) \<Rightarrow>
                                ((case err of
                                    Some e \<Rightarrow> writeErr 502 (''replay failed: '' @ error_text (pl_pgmsg p) e) w
                                  | None \<Rightarrow>
                                     if 500 \<le> code then
                                       writeJSON 200 (detail_json ''failed''
                                         (''local app returned '' @ Itoa code @ ''; event re-queued for retry'')) w
                                     else
                                       writeJSON 200 (detail_json ''replayed'' (''local app returned '' @ Itoa code)) w,
                                  st\<lparr>ed_db := d3\<rparr>), Some lk))))))))"

section \<open>The server\<close>

datatype endpoint = EpSignup | EpLogin | EpTunnels | EpEvents | EpClear | EpReplay | EpStatus

definition routes :: "endpoint pattern list" where
  "routes =
     [(''POST'', [Lit ''api'', Lit ''signup''], EpSignup),
      (''POST'', [Lit ''api'', Lit ''login''], EpLogin),
      (''GET'', [Lit ''api'', Lit ''tunnels''], EpTunnels),
      (''DELETE'', [Lit ''api'', Lit ''events''], EpClear),
      (''GET'', [Lit ''api'', Lit ''events''], EpEvents),
      (''POST'', [Lit ''api'', Lit ''events'', Wild, Lit ''replay''], EpReplay),
      (''GET'', [Lit ''api'', Lit ''status''], EpStatus)]"

definition endpoint_handler :: "'l api_env \<Rightarrow> endpoint \<Rightarrow> bytes list \<Rightarrow> request \<Rightarrow> user \<Rightarrow> respond" where
  "endpoint_handler env ep vs =
     (let p = ae_platform env in
      case ep of
        EpTunnels \<Rightarrow> listTunnels p
      | EpEvents \<Rightarrow> listEvents p (ae_json_time env)
      | EpClear \<Rightarrow> clearEvents p
      | EpReplay \<Rightarrow> (\<lambda>r u s. fst (replayEvent p (ae_links env) (case vs of [] \<Rightarrow> [] | v # _ \<Rightarrow> v) r u s))
      | _ \<Rightarrow> status p)"

definition ControlHTTP :: "'l api_env \<Rightarrow> request \<Rightarrow> writer \<times> 'l api_state \<Rightarrow> writer \<times> 'l api_state" where
  "ControlHTTP env r s =
     (case s of (w, st, al) \<Rightarrow>
      (case mux routes r of
         MovedTo url \<Rightarrow> (answer_moved url r w, st, al)
       | BadMethod ms \<Rightarrow> (answer_bad_method ms w, st, al)
       | NoRoute \<Rightarrow> (answer_no_route w, st, al)
       | Handled ep vs \<Rightarrow>
           if ep = EpSignup then rateLimitAuth env (signUp env) r s
           else if ep = EpLogin then rateLimitAuth env (logIn env) r s
           else (case withAuth (ae_platform env) (endpoint_handler env ep vs) r (w, st) of
             (w', st') \<Rightarrow> (w', st', al))))"

text \<open>The server as the router's handler for \<open>/dashboard/api/\<close>.\<close>

definition dashboard_api :: "'l api_env \<Rightarrow> 'l handler" where
  "dashboard_api env r s = (case ControlHTTP env r s of (w, a) \<Rightarrow> (Reply w, a))"

end
