(* ===== verification/Cli.thy ===== *)
theory Cli
  imports AppConfig Agent Control
begin

text \<open>
  The command-line client, \<open>cmd/liveurl\<close>: \<open>apiClient.do\<close> and the commands built on it. A command returns an error or the lines it prints.
  The network is a function from calls to answers; what \<open>http.NewRequest\<close> says of an address it cannot parse is the
  argument \<open>bad_url\<close>.
\<close>

record http_call =
  hc_method :: bytes
  hc_url :: bytes
  hc_auth :: bytes

text \<open>A call fails, or is answered with a status and a body that may break off.\<close>

type_synonym network = "http_call \<Rightarrow> bytes + int \<times> body"

record api_client =
  ap_base :: bytes
  ap_token :: bytes

section \<open>Calls\<close>

definition not_logged_in :: bytes where
  "not_logged_in = ''not logged in '' @ map (\<lambda>n. chr n) [226, 128, 148] @ '' run `liveurl login <token>` first (see `liveurld seed`)''"

definition newAPIClient :: "user_fs \<Rightarrow> go_error + api_client" where
  "newAPIClient fs =
     (case Load fs of
        Inl e \<Rightarrow> Inl e
      | Inr creds \<Rightarrow>
          if cc_token creds = [] then Inl (ErrText not_logged_in)
          else Inr \<lparr>ap_base = cc_control creds, ap_token = cc_token creds\<rparr>)"

text \<open>
  A string field when the error of decoding is ignored: a value of another type is skipped.
\<close>

fun lax_string_field :: "bytes \<Rightarrow> (bytes \<times> json) list \<Rightarrow> bytes \<Rightarrow> bytes" where
  "lax_string_field field [] x = x"
| "lax_string_field field ((k, v) # kvs) x =
     lax_string_field field kvs (if selects field k then (case v of JStr y \<Rightarrow> y | _ \<Rightarrow> x) else x)"

definition api_error_text :: "bytes \<Rightarrow> bytes" where
  "api_error_text bs =
     (case Option.bind (Unmarshal bs) object_of of
        None \<Rightarrow> []
      | Some kvs \<Rightarrow> lax_string_field ''error'' kvs [])"

definition call_url :: "api_client \<Rightarrow> bytes \<Rightarrow> (bytes \<times> bytes) list \<Rightarrow> bytes" where
  "call_url c path query = ap_base c @ path @ (if query = [] then [] else CHR ''?'' # query_encode query)"

text \<open>The answer's body, once the call has succeeded; \<open>None\<close> is an empty body, which is not decoded.\<close>

definition api_do :: "(bytes \<Rightarrow> bytes option) \<Rightarrow> network \<Rightarrow> api_client \<Rightarrow> bytes \<Rightarrow> bytes \<Rightarrow> (bytes \<times> bytes) list \<Rightarrow> go_error + bytes option" where
  "api_do bad_url net c meth path query =
     (let u = call_url c path query in
      case bad_url u of
        Some m \<Rightarrow> Inl (ErrText m)
      | None \<Rightarrow>
          (case net \<lparr>hc_method = meth, hc_url = u, hc_auth = ''Bearer '' @ ap_token c\<rparr> of
             Inl m \<Rightarrow> Inl (Wrap (''request to '' @ u @ '' failed'') (ErrText m))
           | Inr (code, b) \<Rightarrow>
               if body_err b then Inl (ErrText ''unexpected EOF'')
               else if 400 \<le> code then
                 (let apiErr = api_error_text (body_data b) in
                  if apiErr \<noteq> [] then Inl (ErrText (apiErr @ '' (status '' @ Itoa code @ '')''))
                  else Inl (ErrText (''request failed with status '' @ Itoa code @ '': '' @ body_data b)))
               else if body_data b = [] then Inr None
               else Inr (Some (body_data b))))"

text \<open>\<open>do\<close> with a place for the result: decoded with \<open>rd\<close>, or left at its zero value \<open>zero\<close>.\<close>

definition api_get :: "(json \<Rightarrow> 'a option) \<Rightarrow> 'a \<Rightarrow> go_error + bytes option \<Rightarrow> go_error + 'a" where
  "api_get rd zero r =
     (case r of
        Inl e \<Rightarrow> Inl e
      | Inr None \<Rightarrow> Inr zero
      | Inr (Some bs) \<Rightarrow> (case Option.bind (Unmarshal bs) rd of None \<Rightarrow> Inl (ErrText ''json'') | Some x \<Rightarrow> Inr x))"

section \<open>Events\<close>

record event_row =
  er_id :: int
  er_tunnel :: int
  er_method :: bytes
  er_path :: bytes
  er_query :: bytes
  er_received :: bytes
  er_state :: bytes
  er_attempts :: int
  er_last_status :: int

definition read_event :: "json \<Rightarrow> event_row option" where
  "read_event v =
     (case object_of v of
        None \<Rightarrow> None
      | Some kvs \<Rightarrow>
          (case (int_field ''ID'' kvs 0, int_field ''TunnelID'' kvs 0, string_field ''Method'' kvs [], string_field ''Path'' kvs [],
                 string_field ''Query'' kvs [], string_field ''ReceivedAt'' kvs [], string_field ''State'' kvs [],
                 int_field ''Attempts'' kvs 0, int_field ''LastStatus'' kvs 0) of
             (Some i, Some t, Some m, Some p, Some q, Some r, Some s, Some a, Some l) \<Rightarrow>
               Some \<lparr>er_id = i, er_tunnel = t, er_method = m, er_path = p, er_query = q, er_received = r, er_state = s,
                     er_attempts = a, er_last_status = l\<rparr>
           | _ \<Rightarrow> None))"

fun all_some :: "'a option list \<Rightarrow> 'a list option" where
  "all_some [] = Some []"
| "all_some (x # xs) = (case (x, all_some xs) of (Some y, Some ys) \<Rightarrow> Some (y # ys) | _ \<Rightarrow> None)"

definition read_events :: "json \<Rightarrow> event_row list option" where
  "read_events v = (case v of JArr vs \<Rightarrow> all_some (map read_event vs) | JNull \<Rightarrow> Some [] | _ \<Rightarrow> None)"

text \<open>The verb \<open>%-ns\<close>: padded to \<open>n\<close> runes.\<close>

definition pad :: "nat \<Rightarrow> bytes \<Rightarrow> bytes" where
  "pad n s = s @ replicate (n - length (utf8_decode s)) (CHR '' '')"

definition table_line :: "bytes \<Rightarrow> bytes \<Rightarrow> bytes \<Rightarrow> bytes \<Rightarrow> bytes \<Rightarrow> bytes \<Rightarrow> bytes" where
  "table_line i m p s a r = pad 6 i @ '' '' @ pad 6 m @ '' '' @ pad 30 p @ '' '' @ pad 10 s @ '' '' @ pad 8 a @ '' '' @ r"

definition event_line :: "event_row \<Rightarrow> bytes" where
  "event_line e =
     table_line (Itoa (er_id e)) (er_method e) (if er_query e \<noteq> [] then er_path e @ CHR ''?'' # er_query e else er_path e)
       (er_state e) (Itoa (er_attempts e)) (er_received e)"

definition list_query :: "bytes \<Rightarrow> bytes \<Rightarrow> (bytes \<times> bytes) list" where
  "list_query tunnel state = (if state \<noteq> [] then [(''state'', state)] else []) @ [(''tunnel'', tunnel)]"

definition eventsListCmd :: "(bytes \<Rightarrow> bytes option) \<Rightarrow> network \<Rightarrow> user_fs \<Rightarrow> bytes \<Rightarrow> bytes \<Rightarrow> go_error + bytes list" where
  "eventsListCmd bad_url net fs tunnel state =
     (case newAPIClient fs of
        Inl e \<Rightarrow> Inl e
      | Inr client \<Rightarrow>
          (case api_get read_events [] (api_do bad_url net client ''GET'' ''/api/events'' (list_query tunnel state)) of
             Inl e \<Rightarrow> Inl e
           | Inr events \<Rightarrow>
               if events = [] then Inr [''no events'']
               else Inr (table_line ''ID'' ''METHOD'' ''PATH'' ''STATE'' ''ATTEMPTS'' ''RECEIVED'' # map event_line events)))"

text \<open>A map from strings to strings: a later key overwrites, \<open>null\<close> stores the empty string.\<close>

fun string_map :: "(bytes \<times> json) list \<Rightarrow> (bytes \<Rightarrow> bytes) \<Rightarrow> (bytes \<Rightarrow> bytes) option" where
  "string_map [] m = Some m"
| "string_map ((k, v) # kvs) m =
     (case v of JStr s \<Rightarrow> string_map kvs (m(k := s)) | JNull \<Rightarrow> string_map kvs (m(k := [])) | _ \<Rightarrow> None)"

definition read_string_map :: "json \<Rightarrow> (bytes \<Rightarrow> bytes) option" where
  "read_string_map v = Option.bind (object_of v) (\<lambda>kvs. string_map kvs (\<lambda>_. []))"

definition eventsReplayCmd :: "(bytes \<Rightarrow> bytes option) \<Rightarrow> network \<Rightarrow> user_fs \<Rightarrow> bytes \<Rightarrow> go_error + bytes list" where
  "eventsReplayCmd bad_url net fs arg =
     (case newAPIClient fs of
        Inl e \<Rightarrow> Inl e
      | Inr client \<Rightarrow>
          (case api_get read_string_map (\<lambda>_. []) (api_do bad_url net client ''POST'' (''/api/events/'' @ arg @ ''/replay'') []) of
             Inl e \<Rightarrow> Inl e
           | Inr result \<Rightarrow> Inr [result ''status'' @ '' '' @ TrimSpace (result ''detail'')]))"

definition eventsClearCmd :: "(bytes \<Rightarrow> bytes option) \<Rightarrow> network \<Rightarrow> user_fs \<Rightarrow> bytes \<Rightarrow> go_error + bytes list" where
  "eventsClearCmd bad_url net fs tunnel =
     (case newAPIClient fs of
        Inl e \<Rightarrow> Inl e
      | Inr client \<Rightarrow>
          (case api_do bad_url net client ''DELETE'' ''/api/events'' [(''tunnel'', tunnel)] of
             Inl e \<Rightarrow> Inl e
           | Inr _ \<Rightarrow> Inr [''cleared'']))"

section \<open>Status\<close>

record status_row =
  st_subdomain :: bytes
  st_online :: bool
  st_queued :: int
  st_pages :: int
  st_bytes :: int

definition read_status :: "json \<Rightarrow> status_row option" where
  "read_status v =
     (case object_of v of
        None \<Rightarrow> None
      | Some kvs \<Rightarrow>
          (case (string_field ''subdomain'' kvs [], bool_field ''online'' kvs False, int_field ''queued_events'' kvs 0,
                 int_field ''snapshot_pages'' kvs 0, int_field ''snapshot_bytes'' kvs 0) of
             (Some s, Some b, Some q, Some p, Some n) \<Rightarrow>
               Some \<lparr>st_subdomain = s, st_online = b, st_queued = q, st_pages = p, st_bytes = n\<rparr>
           | _ \<Rightarrow> None))"

definition status_lines :: "status_row \<Rightarrow> bytes list" where
  "status_lines r =
     [''tunnel:          '' @ st_subdomain r, ''state:           '' @ (if st_online r then ''ONLINE'' else ''OFFLINE''),
      ''queued events:   '' @ Itoa (st_queued r), ''snapshot pages:  '' @ Itoa (st_pages r), ''snapshot bytes:  '' @ Itoa (st_bytes r)]"

definition statusCmd :: "(bytes \<Rightarrow> bytes option) \<Rightarrow> network \<Rightarrow> user_fs \<Rightarrow> bytes \<Rightarrow> go_error + bytes list" where
  "statusCmd bad_url net fs tunnel =
     (case newAPIClient fs of
        Inl e \<Rightarrow> Inl e
      | Inr client \<Rightarrow>
          (case api_get read_status \<lparr>st_subdomain = [], st_online = False, st_queued = 0, st_pages = 0, st_bytes = 0\<rparr>
                  (api_do bad_url net client ''GET'' ''/api/status'' [(''tunnel'', tunnel)]) of
             Inl e \<Rightarrow> Inl e
           | Inr r \<Rightarrow> Inr (status_lines r)))"

section \<open>Logging in and running a tunnel\<close>

definition loginCmd :: "environ \<Rightarrow> bytes \<Rightarrow> bytes \<Rightarrow> bool \<Rightarrow> bytes \<Rightarrow> user_fs \<Rightarrow> (go_error + bytes list) \<times> user_fs" where
  "loginCmd env serverAddr controlURL useTLS token fs =
     (let defaults = LoadAgentDefaults env;
          c = \<lparr>cc_server = (if serverAddr = [] then ad_server defaults else serverAddr),
               cc_control = (if controlURL = [] then ad_control defaults else controlURL),
               cc_token = token, cc_tls = useTLS\<rparr> in
      case Save c fs of
        (Some e, fs') \<Rightarrow> (Inl e, fs')
      | (None, fs') \<Rightarrow> (Inr [''saved credentials to ~/.liveurl/config.json''], fs'))"

text \<open>
  The configuration with which \<open>http\<close> runs the agent; the local address is never an IPv6 one, so \<open>JoinHostPort\<close> only adds the colon.
  \<open>atoi_err\<close> is the message of \<open>strconv.Atoi\<close>.
\<close>

definition httpCmd :: "agent_lib \<Rightarrow> (bytes \<Rightarrow> bytes) \<Rightarrow> user_fs \<Rightarrow> bytes \<Rightarrow> bytes list \<Rightarrow> bytes \<Rightarrow> go_error + agent_config" where
  "httpCmd lib atoi_err fs subdomain bufferRules arg =
     (case ParseInt64 arg of
        None \<Rightarrow> Inl (Wrap (''invalid port '' @ al_quote lib arg) (ErrText (atoi_err arg)))
      | Some port \<Rightarrow>
          (case Load fs of
             Inl e \<Rightarrow> Inl e
           | Inr creds \<Rightarrow>
               if cc_token creds = [] then Inl (ErrText not_logged_in)
               else Inr \<lparr>ac_server = cc_server creds, ac_tls = cc_tls creds, ac_token = cc_token creds, ac_subdomain = subdomain,
                     ac_rules = bufferRules, ac_local = ''127.0.0.1:'' @ Itoa port\<rparr>))"

end
