(* ===== verification/Tenants.thy ===== *)
theory Tenants
  imports Router
begin

text \<open>
  What a request for one tunnel can and cannot do to the rest of the system. The router's client
  contract is the locale \<open>offline_handler\<close>; \<open>ServeOffline\<close> is shown to meet it, and the isolation
  of tenants follows for the router built on it.
\<close>

section \<open>Tenants\<close>

text \<open>
  What the router relies on in an \<open>OfflineHandler\<close>: it keeps the database well-formed, and serving one tunnel
  touches neither the queue nor the pages of another.
\<close>

locale offline_handler =
  fixes serve :: "request \<Rightarrow> tunnel \<Rightarrow> writer \<times> db \<Rightarrow> served \<times> db"
  assumes serve_good: "db_wf d \<Longrightarrow> db_wf (snd (serve r t (w, d))) \<and> evolves d (snd (serve r t (w, d)))"
    and serve_local: "db_wf d \<Longrightarrow> k \<noteq> tn_id t \<Longrightarrow>
      queue k (snd (serve r t (w, d))) = queue k d \<and> snaps_of k (snd (serve r t (w, d))) = snaps_of k d"

lemma transaction_events:
  assumes "\<And>d. db_events (snd (m d)) = db_events d"
  shows "db_events (snd (transaction m d)) = db_events d"
proof -
  obtain r d' where r: "transaction m d = (r, d')" by fastforce
  from transaction_cases [OF r] show ?thesis
  proof
    assume "isl r \<and> same_tables d d'"
    then show ?thesis by (simp add: r same_tables_def)
  next
    assume "\<exists>a d0 d1. same_tables d d0 \<and> next_outcome d = (Done, d0) \<and> m d0 = (Inr a, d1) \<and> same_tables d1 d'"
    then obtain a d0 d1 where "same_tables d d0" "m d0 = (Inr a, d1)" "same_tables d1 d'" by blast
    then show ?thesis using assms [of d0] by (simp add: r same_tables_def)
  qed
qed

lemma sql_events:
  assumes "\<And>d. db_events (snd (q d)) = db_events d"
  shows "db_events (snd (sql ok q d)) = db_events d"
proof -
  obtain x d0 where n: "next_outcome d = (x, d0)" by fastforce
  then show ?thesis using assms [of d0] next_outcome_tables [OF n] by (simp add: sql_def split: outcome.split)
qed

lemma and_then_events:
  assumes "\<And>d. db_events (snd (m d)) = db_events d" and "\<And>a d. db_events (snd (f a d)) = db_events d"
  shows "db_events (snd (and_then m f d)) = db_events d"
proof -
  obtain r d1 where r: "m d = (r, d1)" by fastforce
  then show ?thesis using assms(1) [of d] assms(2) by (simp add: and_then_def split: sum.split)
qed

lemma evict_events: "db_events (snd (evict tid tot d)) = db_events d"
proof (induction tid tot d rule: evict.induct)
  case (1 tid tot d)
  obtain r d1 where r: "sql True (sql_evict_oldest tid) d = (r, d1)" by fastforce
  have e: "db_events d1 = db_events d"
    using sql_events [of "sql_evict_oldest tid" True d] r by (simp add: sql_evict_oldest_def split: list.split)
  show ?case
  proof (cases "tot \<le> MaxSnapshotBytes")
    case True
    then show ?thesis by (simp add: evict.simps)
  next
    case False
    show ?thesis
    proof (cases r)
      case (Inl er)
      then show ?thesis using False r e by (simp add: evict.simps)
    next
      case (Inr n)
      then show ?thesis using False r e 1 [OF False r [unfolded Inr, symmetric] refl] by (simp add: evict.simps [of tid tot d])
    qed
  qed
qed

lemma PutSnapshot_events: "db_events (snd (PutSnapshot tid path qh ctype headers body d)) = db_events d"
  unfolding PutSnapshot_def Let_def
proof (rule transaction_events)
  fix d show "db_events (snd (put_body tid path qh ctype (json_map headers) body d)) = db_events d"
    unfolding put_body_def Let_def
    by (intro and_then_events sql_events evict_events) (auto simp: sql_upsert_snap_def sql_snap_total_def)
qed

lemma PutSnapshot_other:
  assumes "db_wf d" and "k \<noteq> tid"
  shows "snaps_of k (snd (PutSnapshot tid path qh ctype headers body d)) = snaps_of k d"
proof -
  obtain r d' where r: "PutSnapshot tid path qh ctype headers body d = (r, d')" by fastforce
  from r consider "same_tables d d'"
    | d0 d1 where "same_tables d d0" "next_outcome d = (Done, d0)"
        "put_body tid path qh ctype (json_map headers) body d0 = (Inr (), d1)" "same_tables d1 d'"
    unfolding PutSnapshot_def Let_def using transaction_cases [of "put_body tid path qh ctype (json_map headers) body" d r d'] by auto
  then show ?thesis
  proof cases
    case 1
    then show ?thesis using same_tables_snaps [OF 1] by (simp add: r)
  next
    case 2
    have wf0: "db_wf d0" using next_outcome_good [OF assms(1) 2(2)] by simp
    let ?s = "new_snap tid path qh ctype headers body (db_now d0)"
    obtain dx where dx: "db_snaps dx = filter (\<lambda>x. snap_key x \<noteq> snap_key ?s) (db_snaps d0) @ [?s]"
      "evict tid (snap_total tid dx) dx = (Inr (), d1)" "distinct (map snap_key (db_snaps dx))"
      using put_body_Inr [OF wf0 2(3) refl] by blast
    have "snaps_of k dx = snaps_of k d0"
      using assms(2) by (auto simp: snaps_of_def dx(1) new_snap_def snap_key_def intro!: filter_cong)
    then show ?thesis
      using evict_result [OF dx(2,3) refl] assms(2) same_tables_snaps [OF 2(1)] same_tables_snaps [OF 2(4)]
      by (simp add: r)
  qed
qed

lemma queue_sort: "queue k d = sort_key ev_pos (filter (queued_for k) (db_events d))"
  by (simp add: queue_def timeline_def filter_sort)

lemma EnqueueEvent_other:
  assumes "k \<noteq> tid"
  shows "queue k (snd (EnqueueEvent tid method path query headers body d)) = queue k d"
    and "snaps_of k (snd (EnqueueEvent tid method path query headers body d)) = snaps_of k d"
proof -
  obtain x d0 where n: "next_outcome d = (x, d0)" by fastforce
  show "queue k (snd (EnqueueEvent tid method path query headers body d)) = queue k d"
    using assms next_outcome_tables [OF n]
    by (auto simp: EnqueueEvent_def Let_def sql_def n sql_insert_event_def queue_sort queued_for_def split: outcome.split)
  show "snaps_of k (snd (EnqueueEvent tid method path query headers body d)) = snaps_of k d"
    using next_outcome_tables [OF n]
    by (auto simp: EnqueueEvent_def Let_def sql_def n sql_insert_event_def snaps_of_def split: outcome.split)
qed

lemma ServeOffline_db:
  obtains (none) "snd (ServeOffline p r t (w, d)) = d"
  | (page) "snd (ServeOffline p r t (w, d)) = snd (GetSnapshot (tn_id t) (req_path r) (QueryHash p (req_query r)) d)"
  | (hook) body where "snd (ServeOffline p r t (w, d))
      = snd (EnqueueEvent (tn_id t) (req_method r) (req_path r) (req_query r) (req_header r) body d)"
proof (cases "IsWebhook p (tn_rules t) r")
  case True
  obtain res d' where b: "bufferWebhook r t (w, d) = (res, d')" by fastforce
  then have s: "snd (ServeOffline p r t (w, d)) = d'" using True by (simp add: ServeOffline_def)
  from b show thesis
  proof (cases rule: bufferWebhook_cases)
    case (refused msg c)
    then show thesis using s by (intro none) simp
  next
    case (failed body e)
    then show thesis using s by (intro hook [of body]) simp
  next
    case (accepted i)
    then show thesis using s by (intro hook [of "body_data (req_body r)"]) simp
  qed
next
  case False
  show thesis
  proof (cases "req_method r = ''GET'' \<or> req_method r = ''HEAD''")
    case True
    then have "snd (ServeOffline p r t (w, d)) = snd (GetSnapshot (tn_id t) (req_path r) (QueryHash p (req_query r)) d)"
      using False by (auto simp: ServeOffline_def serveSnapshot_def Let_def split: prod.split sum.split option.split)
    then show thesis by (rule page)
  next
    case no: False
    show thesis using False no by (intro none) (simp add: ServeOffline_def)
  qed
qed

lemma ServeOffline_good: "db_wf d \<Longrightarrow> db_wf (snd (ServeOffline p r t (w, d))) \<and> evolves d (snd (ServeOffline p r t (w, d)))"
proof (cases rule: ServeOffline_db [of p r t w d])
  case page
  assume "db_wf d"
  then show ?thesis using good_GetSnapshot page by (simp add: good_def)
next
  case (hook body)
  assume "db_wf d"
  then show ?thesis using good_EnqueueEvent hook by (simp add: good_def)
qed simp

lemma ServeOffline_local:
  assumes "k \<noteq> tn_id t"
  shows "queue k (snd (ServeOffline p r t (w, d))) = queue k d \<and> snaps_of k (snd (ServeOffline p r t (w, d))) = snaps_of k d"
proof (cases rule: ServeOffline_db [of p r t w d])
  case page
  then show ?thesis using same_tables_queue same_tables_snaps GetSnapshot_same by metis
next
  case (hook body)
  then show ?thesis using EnqueueEvent_other [OF assms] by simp
qed simp

lemma forwardLive_snd:
  "snd (forwardLive p reads io r x tid (w, d)) = d
   \<or> (\<exists>path qh ctype h body. snd (forwardLive p reads io r x tid (w, d)) = snd (PutSnapshot tid path qh ctype h body d))"
  by (auto simp: forwardLive_def storeSnapshot_def Let_def split: exchange.split prod.split) blast

lemma forwardLive_db:
  obtains (none) "snd (forwardLive p reads io r x tid (w, d)) = d"
  | (stored) path qh ctype h body where "snd (forwardLive p reads io r x tid (w, d)) = snd (PutSnapshot tid path qh ctype h body d)"
  using forwardLive_snd by metis

lemma forwardLive_good:
  "db_wf d \<Longrightarrow> db_wf (snd (forwardLive p reads io r x tid (w, d))) \<and> evolves d (snd (forwardLive p reads io r x tid (w, d)))"
  by (cases rule: forwardLive_db [of p reads io r x tid w d]) (use good_PutSnapshot in \<open>auto simp: good_def\<close>)

lemma forwardLive_other:
  assumes "db_wf d" and "k \<noteq> tid"
  shows "queue k (snd (forwardLive p reads io r x tid (w, d))) = queue k d
    \<and> snaps_of k (snd (forwardLive p reads io r x tid (w, d))) = snaps_of k d"
  by (cases rule: forwardLive_db [of p reads io r x tid w d])
    (use assms in \<open>auto simp: PutSnapshot_other PutSnapshot_events queue_sort\<close>)

lemma dispatch_cases:
  assumes "dispatch p cfg reads io agent sub r t (w, st) = (a, st')"
  obtains (live) sess err rd l d where "IsOnline sub (ed_redis st) = ((True, err), rd)" "Get sub (ed_registry st) = Some sess"
      "forwardLive p reads io r (agent sess) (tn_id t) (w, ed_db st) = (l, d)"
      "a = Forwarded (se_id sess) l" "st' = st\<lparr>ed_redis := rd, ed_db := d\<rparr>"
  | (away) sv rd d where "serveOffline cfg r t (w, ed_db st) = (sv, d)"
      "\<not> fst (fst (IsOnline sub (ed_redis st))) \<or> Get sub (ed_registry st) = None"
      "a = Answered sv" "st' = st\<lparr>ed_redis := rd, ed_db := d\<rparr>"
proof -
  obtain up err rd where o: "IsOnline sub (ed_redis st) = ((up, err), rd)" by (metis prod.collapse)
  show thesis
  proof (cases "if up then Get sub (ed_registry st) else None")
    case None
    obtain sv d where sv: "serveOffline cfg r t (w, ed_db st) = (sv, d)" by fastforce
    have "\<not> up \<or> Get sub (ed_registry st) = None" using None by (auto split: if_splits)
    then show thesis using sv assms o by (intro away [OF sv, of rd]) (cases up; simp add: dispatch_def Let_def)+
  next
    case (Some sess)
    obtain l d where f: "forwardLive p reads io r (agent sess) (tn_id t) (w, ed_db st) = (l, d)" by fastforce
    have u: "up" "Get sub (ed_registry st) = Some sess" using Some by (auto split: if_splits)
    show thesis using u f assms o by (intro live [OF _ u(2) f]) (auto simp: dispatch_def Let_def)
  qed
qed

context offline_handler
begin

lemma dispatch_good:
  assumes "rc_offline cfg = Some serve" and "db_wf (ed_db st)" and "dispatch p cfg reads io agent sub r t (w, st) = (a, st')"
  shows "db_wf (ed_db st') \<and> evolves (ed_db st) (ed_db st') \<and> ed_registry st' = ed_registry st"
  using assms(3)
proof (cases rule: dispatch_cases)
  case (live sess err rd l d)
  then show ?thesis using forwardLive_good [OF assms(2), of p reads io r "agent sess" "tn_id t" w] by simp
next
  case (away sv rd d)
  then show ?thesis using serve_good [OF assms(2), of r t w] assms(1) by (simp add: serveOffline_def)
qed

lemma dispatch_other:
  assumes "rc_offline cfg = Some serve" and "db_wf (ed_db st)" and "k \<noteq> tn_id t"
    and "dispatch p cfg reads io agent sub r t (w, st) = (a, st')"
  shows "queue k (ed_db st') = queue k (ed_db st) \<and> snaps_of k (ed_db st') = snaps_of k (ed_db st)"
  using assms(4)
proof (cases rule: dispatch_cases)
  case (live sess err rd l d)
  then show ?thesis using forwardLive_other [OF assms(2,3), of p reads io r "agent sess" w] by simp
next
  case (away sv rd d)
  then show ?thesis using serve_local [OF assms(2,3), of r w] assms(1) by (simp add: serveOffline_def)
qed

lemma serve_tunnel_good:
  assumes "rc_offline cfg = Some serve" and "db_wf (ed_db st)" and "serve_tunnel p cfg reads io agent sub r (w, st) = (a, st')"
  shows "db_wf (ed_db st') \<and> evolves (ed_db st) (ed_db st') \<and> ed_registry st' = ed_registry st"
proof -
  obtain res d1 where l: "TunnelBySubdomain sub (ed_db st) = (res, d1)" by fastforce
  have g: "db_wf d1" "evolves (ed_db st) d1"
    using good_same [OF good_TunnelBySubdomain assms(2) l] by blast+
  show ?thesis
  proof (cases res)
    case (Inl e)
    then show ?thesis using assms(3) l g by (auto simp: serve_tunnel_def Let_def split: if_splits)
  next
    case (Inr t)
    then have "dispatch p cfg reads io agent sub r t (w, st\<lparr>ed_db := d1\<rparr>) = (a, st')"
      using assms(3) l by (simp add: serve_tunnel_def)
    from dispatch_good [OF assms(1) _ this] g show ?thesis using evolves_trans by auto
  qed
qed

lemma serve_tunnel_other:
  assumes "rc_offline cfg = Some serve" and "db_wf (ed_db st)" and "serve_tunnel p cfg reads io agent sub r (w, st) = (a, st')"
    and "\<And>t. t \<in> set (db_tunnels (ed_db st)) \<Longrightarrow> tn_sub t = sub \<Longrightarrow> tn_id t \<noteq> k"
  shows "queue k (ed_db st') = queue k (ed_db st) \<and> snaps_of k (ed_db st') = snaps_of k (ed_db st)"
proof -
  obtain res d1 where l: "TunnelBySubdomain sub (ed_db st) = (res, d1)" by fastforce
  have wf: "db_wf d1"
    using good_same [OF good_TunnelBySubdomain assms(2) l] by blast+
  have same: "same_tables (ed_db st) d1" using TunnelBySubdomain_same [of "ed_db st" sub] l by simp
  note q = same_tables_queue [OF same, of k] same_tables_snaps [OF same, of k]
  show ?thesis
  proof (cases res)
    case (Inl e)
    then show ?thesis using assms(3) l q by (auto simp: serve_tunnel_def Let_def split: if_splits)
  next
    case (Inr t)
    then have d: "dispatch p cfg reads io agent sub r t (w, st\<lparr>ed_db := d1\<rparr>) = (a, st')"
      using assms(3) l by (simp add: serve_tunnel_def)
    have "t \<in> set (db_tunnels (ed_db st)) \<and> tn_sub t = sub"
      using TunnelBySubdomain_Inr [of sub "ed_db st" t d1] l Inr by blast
    then have "k \<noteq> tn_id t" using assms(4) by blast
    from dispatch_other [OF assms(1) _ this d] wf q show ?thesis by simp
  qed
qed

lemma ServeHTTP_tunnel:
  assumes "rc_offline cfg = Some serve" and "db_wf (ed_db (gw_edge gw))" and "host_subdomain p (rc_base_host cfg) (req_host r) = sub"
    and "sub \<noteq> []" and "ServeHTTP p lib cfg reads io agent now r (w, gw) = (a, gw')"
  shows "db_wf (ed_db (gw_edge gw')) \<and> evolves (ed_db (gw_edge gw)) (ed_db (gw_edge gw'))
    \<and> ed_registry (gw_edge gw') = ed_registry (gw_edge gw)
    \<and> (\<forall>k. (\<forall>t \<in> set (db_tunnels (ed_db (gw_edge gw))). tn_sub t = sub \<longrightarrow> tn_id t \<noteq> k) \<longrightarrow>
        queue k (ed_db (gw_edge gw')) = queue k (ed_db (gw_edge gw))
        \<and> snaps_of k (ed_db (gw_edge gw')) = snaps_of k (ed_db (gw_edge gw)))"
proof -
  obtain ok l where al: "Allow_nil lib now (clientIP r @ ''|'' @ sub) (gw_tunnel_limiter gw) = (ok, l)" by fastforce
  show ?thesis
  proof (cases ok)
    case False
    then show ?thesis using assms(3-5) al assms(2) by (auto simp: ServeHTTP_def Let_def)
  next
    case True
    obtain a1 st' where st: "serve_tunnel p cfg reads io agent sub r (w, gw_edge gw) = (a1, st')" by fastforce
    have "gw_edge gw' = st'" using assms(3-5) al True st by (auto simp: ServeHTTP_def Let_def)
    then show ?thesis using serve_tunnel_good [OF assms(1,2) st] serve_tunnel_other [OF assms(1,2) st] by blast
  qed
qed

end

interpretation cached: offline_handler "ServeOffline p" for p
  by unfold_locales (use ServeOffline_good ServeOffline_local in blast)+

section \<open>Answering a request\<close>

lemma ServeHTTP_admitted:
  assumes "host_subdomain p (rc_base_host cfg) (req_host r) = sub" and "sub \<noteq> []"
    and "Allow_nil lib now (clientIP r @ ''|'' @ sub) (gw_tunnel_limiter gw) = (True, l)"
    and "serve_tunnel p cfg reads io agent sub r (w, gw_edge gw) = (a, st')"
  shows "ServeHTTP p lib cfg reads io agent now r (w, gw) = (a, gw\<lparr>gw_tunnel_limiter := l, gw_edge := st'\<rparr>)"
  using assms by (auto simp: ServeHTTP_def Let_def)

lemma dispatch_live:
  assumes "IsOnline sub (ed_redis st) = ((True, err), rd)" and "Get sub (ed_registry st) = Some sess"
    and "forwardLive p reads io r (agent sess) (tn_id t) (w, ed_db st) = (l, d)"
  shows "dispatch p cfg reads io agent sub r t (w, st) = (Forwarded (se_id sess) l, st\<lparr>ed_redis := rd, ed_db := d\<rparr>)"
  using assms by (simp add: dispatch_def Let_def)

lemma dispatch_away:
  assumes "IsOnline sub (ed_redis st) = ((up, err), rd)" and "\<not> up \<or> Get sub (ed_registry st) = None"
    and "serveOffline cfg r t (w, ed_db st) = (sv, d)"
  shows "dispatch p cfg reads io agent sub r t (w, st) = (Answered sv, st\<lparr>ed_redis := rd, ed_db := d\<rparr>)"
  using assms by (cases up) (simp_all add: dispatch_def Let_def)

lemma serve_tunnel_found:
  assumes "TunnelBySubdomain sub (ed_db st) = (Inr t, d)"
  shows "serve_tunnel p cfg reads io agent sub r (w, st) = dispatch p cfg reads io agent sub r t (w, st\<lparr>ed_db := d\<rparr>)"
  using assms by (simp add: serve_tunnel_def)

text \<open>
  C1. Tenants are isolated. A request for one tunnel, whatever is in it and whatever its agent, the client, the database and Redis do,
  keeps the database well-formed, changes no session, and leaves the queue and the cached pages of
  every other tunnel as they are.
\<close>
theorem tenants_are_isolated:
  assumes "rc_offline cfg = Some (ServeOffline p)" and "db_wf (ed_db (gw_edge gw))"
    and "host_subdomain p (rc_base_host cfg) (req_host r) = sub" and "sub \<noteq> []"
    and "ServeHTTP p lib cfg reads io agent now r (w, gw) = (a, gw')"
  shows "db_wf (ed_db (gw_edge gw')) \<and> evolves (ed_db (gw_edge gw)) (ed_db (gw_edge gw'))
    \<and> ed_registry (gw_edge gw') = ed_registry (gw_edge gw)
    \<and> (\<forall>k. (\<forall>t \<in> set (db_tunnels (ed_db (gw_edge gw))). tn_sub t = sub \<longrightarrow> tn_id t \<noteq> k) \<longrightarrow>
        queue k (ed_db (gw_edge gw')) = queue k (ed_db (gw_edge gw))
        \<and> snaps_of k (ed_db (gw_edge gw')) = snaps_of k (ed_db (gw_edge gw)))"
  using assms by (rule cached.ServeHTTP_tunnel)

text \<open>
  C15. A request reaches only the agent it names. If the router forwards a request to the session of number \<open>i\<close>, then the host
  named a tunnel, the limiter admitted the client for that name, the tunnel is in the database, Redis says it is online, and \<open>i\<close> is
  the session registered for exactly that name.
\<close>
theorem forwarded_to_the_named_agent:
  assumes "ServeHTTP p lib cfg reads io agent now r (w, gw) = (Forwarded i l, gw')"
  shows "\<exists>sub sess. ToLower (pl_lower p) (req_host r) = sub @ ''.'' @ ToLower (pl_lower p) (rc_base_host cfg)
    \<and> fst (Allow_nil lib now (clientIP r @ ''|'' @ sub) (gw_tunnel_limiter gw))
    \<and> (\<exists>t \<in> set (db_tunnels (ed_db (gw_edge gw))). tn_sub t = sub)
    \<and> fst (fst (IsOnline sub (ed_redis (gw_edge gw))))
    \<and> Get sub (ed_registry (gw_edge gw)) = Some sess \<and> se_id sess = i"
proof -
  let ?sub = "host_subdomain p (rc_base_host cfg) (req_host r)" and ?st = "gw_edge gw"
  have sub: "?sub \<noteq> []" and al: "fst (Allow_nil lib now (clientIP r @ ''|'' @ ?sub) (gw_tunnel_limiter gw))"
    and "\<exists>st'. serve_tunnel p cfg reads io agent ?sub r (w, ?st) = (Forwarded i l, st')"
    using assms by (auto simp: ServeHTTP_def Let_def split: if_splits prod.splits)
  then obtain st' where s: "serve_tunnel p cfg reads io agent ?sub r (w, ?st) = (Forwarded i l, st')" by blast
  then obtain t d where t: "TunnelBySubdomain ?sub (ed_db ?st) = (Inr t, d)"
    by (auto simp: serve_tunnel_def Let_def split: prod.splits sum.splits if_splits)
  with s have "dispatch p cfg reads io agent ?sub r t (w, ?st\<lparr>ed_db := d\<rparr>) = (Forwarded i l, st')"
    by (simp add: serve_tunnel_found)
  then obtain sess where "fst (fst (IsOnline ?sub (ed_redis ?st)))" "Get ?sub (ed_registry ?st) = Some sess" "se_id sess = i"
    by (cases rule: dispatch_cases) auto
  moreover have "ToLower (pl_lower p) (req_host r) = ?sub @ ''.'' @ ToLower (pl_lower p) (rc_base_host cfg)"
    using host_subdomain_iff [OF sub, of p "rc_base_host cfg" "req_host r"] by simp
  moreover have "\<exists>t \<in> set (db_tunnels (ed_db ?st)). tn_sub t = ?sub"
    using TunnelBySubdomain_Inr [OF t] by (auto simp: same_tables_def)
  ultimately show ?thesis using al by blast
qed

text \<open>
  A throttled request costs nothing. When the limiter for the client and the name refuses, the answer is 429 with
  \<open>Retry-After: 1\<close>, and nothing but that limiter has changed: no statement was sent to the database and no agent was asked.
\<close>
theorem throttled_request_changes_nothing:
  assumes "host_subdomain p (rc_base_host cfg) (req_host r) = sub" and "sub \<noteq> []"
    and "Allow_nil lib now (clientIP r @ ''|'' @ sub) (gw_tunnel_limiter gw) = (False, l)"
    and "w_sent w = None"
  shows "\<exists>w'. ServeHTTP p lib cfg reads io agent now r (w, gw) = (Answered (Reply w'), gw\<lparr>gw_tunnel_limiter := l\<rparr>)
    \<and> client_status w' = 429 \<and> (\<forall>net. Header_Get (client_header net w') ''Retry-After'' = ''1'')"
proof -
  have "CanonicalKey ''Content-Type'' \<noteq> CanonicalKey ''Retry-After''" "CanonicalKey ''X-Content-Type-Options'' \<noteq> CanonicalKey ''Retry-After''"
    "CanonicalKey ''Content-Length'' \<noteq> CanonicalKey ''Retry-After''"
    by code_simp+
  then have "Header_Get (handler_header (tooManyRequests w)) ''Retry-After'' = ''1''"
    using assms(4) by (simp add: tooManyRequests_def handler_header_def Header_Get_Set Header_Get_Del)
  then have "Header_Get (client_header net (tooManyRequests w)) ''Retry-After'' = ''1''" for net by (rule client_retry_after) simp
  then show ?thesis using assms by (simp add: ServeHTTP_def Let_def tooManyRequests_def)
qed

text \<open>
  An unknown name is refused. A request for a name no tunnel has is answered with 404 (or 500 when the database could not tell),
  is forwarded to nobody and changes no table.
\<close>
theorem unknown_name_is_refused:
  assumes "serve_tunnel p cfg reads io agent sub r (w, st) = (a, st')" and "sub \<notin> tn_sub ` set (db_tunnels (ed_db st))"
    and "w_sent w = None"
  shows "\<exists>w'. a = Answered (Reply w') \<and> client_status w' \<in> {404, 500} \<and> same_tables (ed_db st) (ed_db st')
    \<and> (db_outcomes (ed_db st) = [] \<and> pg_text sub \<longrightarrow> client_status w' = 404)"
proof -
  obtain res d where l: "TunnelBySubdomain sub (ed_db st) = (res, d)" by fastforce
  have same: "same_tables (ed_db st) d" using TunnelBySubdomain_same [of "ed_db st" sub] l by simp
  obtain e where res: "res = Inl e"
    using TunnelBySubdomain_Inr [of sub "ed_db st" _ d] l assms(2) by (cases res) (auto simp: image_iff)
  have nf: "errors_Is e ErrNotFound" if "db_outcomes (ed_db st) = []" "pg_text sub"
  proof -
    have "find (\<lambda>t. tn_sub t = sub) (db_tunnels (ed_db st)) = None" using assms(2) by (auto simp: find_None_iff image_iff)
    then show ?thesis using l that res by (auto simp: TunnelBySubdomain_def not_found_def sql_tunnel_by_def map_err_def)
  qed
  show ?thesis
    using assms(1,3) l res same nf by (auto simp: serve_tunnel_def Let_def split: if_splits)
qed

section \<open>Examples\<close>

definition demo_config :: "int option router_config" where
  "demo_config = \<lparr>rc_base_host = ''lvh.me:8080'', rc_offline = Some (ServeOffline demo_platform), rc_dashboard = None,
     rc_dashboard_api = None, rc_tunnel_rps = 1, rc_tunnel_burst = 1, rc_dash_rps = 0, rc_dash_burst = 0\<rparr>"

text \<open>The agent of \<open>myapp\<close> is connected as session 5.\<close>

definition demo_live_edge :: edge where
  "demo_live_edge = \<lparr>ed_db = demo_db, ed_redis = snd (Heartbeat ''myapp'' demo_redis),
     ed_registry = Put (session_for 1 ''myapp'' 5) NewRegistry\<rparr>"

definition demo_gateway :: "edge \<Rightarrow> int option gateway" where
  "demo_gateway st = NewRouter demo_config (st, None)"

definition demo_agent :: "session \<Rightarrow> exchange" where
  "demo_agent s = XReply demo_page_response"

lemma demo_host: "host_subdomain demo_platform (rc_base_host demo_config) ''myapp.lvh.me:8080'' = ''myapp''"
proof -
  have "ToLower (pl_lower demo_platform) ''myapp.lvh.me:8080'' = ''myapp'' @ ''.'' @ ToLower (pl_lower demo_platform) ''lvh.me:8080''"
    by (simp add: lower_eval)
  then show ?thesis using host_subdomain_iff [of "''myapp''" demo_platform "''lvh.me:8080''"] by (simp add: demo_config_def)
qed

lemma demo_admit: "\<exists>l. Allow_nil demo_lib now key (gw_tunnel_limiter (demo_gateway st)) = (True, Some l)"
  by (simp add: demo_gateway_def NewRouter_def Let_def Allow_nil_def Allow_def sweepLocked_def NewIPLimiter_def demo_lib_def)

lemma demo_found: "TunnelBySubdomain ''myapp'' demo_db = (Inr demo_tunnel, demo_db)"
proof -
  have "pg_text ''myapp''" by code_simp
  then show ?thesis using tunnel_by_sub_found [OF demo_db_wf, of demo_tunnel "''myapp''" demo_db]
    by (simp add: demo_db_eq demo_tunnel_def demo_user_db_eq empty_db_def)
qed

lemma demo_live_online: "IsOnline ''myapp'' (snd (Heartbeat ''myapp'' demo_redis)) = ((True, None), snd (Heartbeat ''myapp'' demo_redis))"
  by (simp add: Heartbeat_def IsOnline_def cmd_quiet redis_set_def redis_exists_def PresenceTTL_def demo_redis_def)

lemma demo_forward:
  obtains l gw' where "ServeHTTP demo_platform demo_lib demo_config bytewise demo_io demo_agent 0 demo_page_request
    (new_writer, demo_gateway demo_live_edge) = (Forwarded 5 l, gw')"
proof -
  obtain lim where al: "Allow_nil demo_lib 0 (clientIP demo_page_request @ ''|'' @ ''myapp'') (gw_tunnel_limiter (demo_gateway demo_live_edge)) = (True, Some lim)"
    using demo_admit by blast
  obtain l d where f: "forwardLive demo_platform bytewise demo_io demo_page_request (demo_agent (session_for 1 ''myapp'' 5)) (tn_id demo_tunnel)
      (new_writer, demo_db) = (l, d)" by fastforce
  have "dispatch demo_platform demo_config bytewise demo_io demo_agent ''myapp'' demo_page_request demo_tunnel
      (new_writer, demo_live_edge) = (Forwarded (se_id (session_for 1 ''myapp'' 5)) l,
        demo_live_edge\<lparr>ed_redis := snd (Heartbeat ''myapp'' demo_redis), ed_db := d\<rparr>)"
    using demo_live_online f by (intro dispatch_live) (simp_all add: demo_live_edge_def Get_Put session_for_def)
  then have "serve_tunnel demo_platform demo_config bytewise demo_io demo_agent ''myapp'' demo_page_request
      (new_writer, demo_live_edge) = (Forwarded 5 l, demo_live_edge\<lparr>ed_redis := snd (Heartbeat ''myapp'' demo_redis), ed_db := d\<rparr>)"
    by (subst serve_tunnel_found [of _ _ demo_tunnel demo_db]) (simp_all add: demo_live_edge_def session_for_def demo_found)
  then show thesis
    using ServeHTTP_admitted [OF _ _ al] demo_host that
    by (simp add: demo_page_request_def demo_gateway_def NewRouter_def Let_def)
qed

theorem forwarded_to_the_named_agent_witness:
  "\<exists>l gw' sub sess. ServeHTTP demo_platform demo_lib demo_config bytewise demo_io demo_agent 0 demo_page_request
    (new_writer, demo_gateway demo_live_edge) = (Forwarded 5 l, gw') \<and> Get sub (ed_registry demo_live_edge) = Some sess \<and> se_id sess = 5"
proof -
  obtain l gw' where r: "ServeHTTP demo_platform demo_lib demo_config bytewise demo_io demo_agent 0 demo_page_request
    (new_writer, demo_gateway demo_live_edge) = (Forwarded 5 l, gw')" by (rule demo_forward)
  have "gw_edge (demo_gateway demo_live_edge) = demo_live_edge" by (simp add: demo_gateway_def NewRouter_def Let_def)
  then show ?thesis using forwarded_to_the_named_agent [OF r] r by auto
qed

theorem tenants_are_isolated_witness:
  "\<exists>l gw'. ServeHTTP demo_platform demo_lib demo_config bytewise demo_io demo_agent 0 demo_page_request
    (new_writer, demo_gateway demo_live_edge) = (Forwarded 5 l, gw') \<and> db_wf (ed_db (gw_edge gw')) \<and> snaps_of 2 (ed_db (gw_edge gw')) = []"
proof -
  obtain l gw' where r: "ServeHTTP demo_platform demo_lib demo_config bytewise demo_io demo_agent 0 demo_page_request
    (new_writer, demo_gateway demo_live_edge) = (Forwarded 5 l, gw')" by (rule demo_forward)
  have g: "ed_db (gw_edge (demo_gateway demo_live_edge)) = demo_db"
    by (simp add: demo_gateway_def NewRouter_def Let_def demo_live_edge_def)
  have "host_subdomain demo_platform (rc_base_host demo_config) (req_host demo_page_request) = ''myapp''"
    using demo_host by (simp add: demo_page_request_def)
  moreover have "rc_offline demo_config = Some (ServeOffline demo_platform)" by (simp add: demo_config_def)
  ultimately show ?thesis
    using tenants_are_isolated [OF _ _ _ _ r, of "''myapp''"] r demo_db_wf demo_no_snaps
    by (auto simp: g snaps_of_def demo_db_eq demo_tunnel_def)
qed

theorem unknown_name_is_refused_witness:
  "\<exists>w'. fst (serve_tunnel demo_platform demo_config bytewise demo_io demo_agent ''other'' demo_page_request (new_writer, demo_live_edge))
     = Answered (Reply w') \<and> client_status w' = 404"
proof -
  obtain a st' where r: "serve_tunnel demo_platform demo_config bytewise demo_io demo_agent ''other'' demo_page_request
    (new_writer, demo_live_edge) = (a, st')" by fastforce
  have "''other'' \<notin> tn_sub ` set (db_tunnels (ed_db demo_live_edge))" by (simp add: demo_live_edge_def demo_db_eq demo_tunnel_def)
  moreover have "pg_text ''other''" by code_simp
  ultimately show ?thesis
    using unknown_name_is_refused [OF r] r by (auto simp: new_writer_def demo_live_edge_def)
qed

theorem throttled_request_changes_nothing_witness:
  "\<exists>w' gw'. ServeHTTP demo_platform demo_lib demo_config bytewise demo_io demo_agent 1 demo_page_request
     (new_writer, (demo_gateway demo_live_edge)\<lparr>gw_tunnel_limiter :=
        Some \<lparr>il_rps = 1, il_burst = 1, il_idle = 9, il_entries = [''10.0.0.1|myapp'' \<mapsto> \<lparr>en_limiter = Some 0, en_seen = 0\<rparr>], il_last = Some 0\<rparr>\<rparr>)
     = (Answered (Reply w'), gw') \<and> client_status w' = 429"
proof -
  let ?lim = "\<lparr>il_rps = 1, il_burst = 1, il_idle = 9, il_entries = [''10.0.0.1|myapp'' \<mapsto> \<lparr>en_limiter = Some 0, en_seen = 0\<rparr>], il_last = Some 0\<rparr>
    :: int option ip_limiter"
  have ip: "clientIP demo_page_request = ''10.0.0.1''" unfolding demo_page_request_def by code_simp
  have "\<exists>l. Allow_nil demo_lib 1 (clientIP demo_page_request @ ''|'' @ ''myapp'') (Some ?lim) = (False, l)"
    unfolding ip by (simp add: Allow_nil_def Allow_def sweepLocked_def demo_lib_def)
  then obtain l where l: "Allow_nil demo_lib 1 (clientIP demo_page_request @ ''|'' @ ''myapp'') (Some ?lim) = (False, l)" by blast
  have h: "host_subdomain demo_platform (rc_base_host demo_config) (req_host demo_page_request) = ''myapp''"
    using demo_host by (simp add: demo_page_request_def)
  show ?thesis
    using throttled_request_changes_nothing [OF h, of demo_lib 1 "(demo_gateway demo_live_edge)\<lparr>gw_tunnel_limiter := Some ?lim\<rparr>" l new_writer
        bytewise demo_io demo_agent] l
    by (auto simp: new_writer_def)
qed

end
