(* ===== verification/ApiAccess.thy ===== *)
theory ApiAccess
  imports Control Tenants
begin

text \<open>
  Who may do what through the control API. The contract of an endpoint that runs on behalf of a user is the
  locale \<open>owner_handler\<close>: the database stays well-formed and no tunnel of another account is touched. Every
  endpoint of the server meets it, and what follows for whole calls is proved once.
\<close>

section \<open>Untouched tunnels\<close>

definition events_of :: "int \<Rightarrow> db \<Rightarrow> event list" where
  "events_of k d = filter (\<lambda>e. ev_tunnel e = k) (db_events d)"

definition spares :: "int \<Rightarrow> db \<Rightarrow> db \<Rightarrow> bool" where
  "spares k d d' = (events_of k d' = events_of k d \<and> snaps_of k d' = snaps_of k d)"

lemma spares_refl [simp]: "spares k d d"
  by (simp add: spares_def)

lemma spares_trans: "spares k a b \<Longrightarrow> spares k b c \<Longrightarrow> spares k a c"
  by (simp add: spares_def)

lemma same_tables_spares: "same_tables d d' \<Longrightarrow> spares k d d'"
  by (simp add: spares_def events_of_def snaps_of_def same_tables_def)

lemma same_tables_spares_trans: "same_tables a b \<Longrightarrow> spares k b c \<Longrightarrow> spares k a c"
  using same_tables_spares spares_trans by blast

lemma sql_snaps:
  assumes "\<And>d. db_snaps (snd (q d)) = db_snaps d"
  shows "db_snaps (snd (sql ok q d)) = db_snaps d"
proof -
  obtain x d0 where n: "next_outcome d = (x, d0)" by fastforce
  then show ?thesis using assms [of d0] next_outcome_tables [OF n] by (simp add: sql_def split: outcome.split)
qed

lemma and_then_snaps:
  assumes "\<And>d. db_snaps (snd (m d)) = db_snaps d" and "\<And>a d. db_snaps (snd (f a d)) = db_snaps d"
  shows "db_snaps (snd (and_then m f d)) = db_snaps d"
proof -
  obtain r d1 where r: "m d = (r, d1)" by fastforce
  then show ?thesis using assms(1) [of d] assms(2) by (simp add: and_then_def split: sum.split)
qed

lemma marks_snaps:
  "db_snaps (snd (MarkReplaying i d)) = db_snaps d" "db_snaps (snd (RequeueEvent i d)) = db_snaps d"
  "db_snaps (snd (MarkFailed i st d)) = db_snaps d" "db_snaps (snd (MarkDelivered i st d)) = db_snaps d"
  unfolding MarkReplaying_def RequeueEvent_def MarkFailed_def MarkDelivered_def
  by (auto intro!: sql_snaps and_then_snaps simp: update_event_def sql_attempted_def sql_set_state_def split: option.split)

lemma ReplayEvent_snaps: "db_snaps (snd (snd (ReplayEvent e (lk, d)))) = db_snaps d"
  by (rule ReplayEvent_db [where R = "\<lambda>a b. db_snaps b = db_snaps a"]) (simp_all add: marks_snaps)

text \<open>Changing the bookkeeping of events of one tunnel spares every other.\<close>

lemma touches_events_of:
  assumes "touches I D d d'" and "\<And>e. e \<in> set (db_events d) \<Longrightarrow> ev_id e \<in> I \<Longrightarrow> ev_tunnel e \<noteq> k"
  shows "events_of k d' = events_of k d"
proof -
  have "filter (\<lambda>e. ev_tunnel e = k) es' = filter (\<lambda>e. ev_tunnel e = k) es"
    if "list_all2 (row_touch I D) es es'" "\<And>e. e \<in> set es \<Longrightarrow> ev_id e \<in> I \<Longrightarrow> ev_tunnel e \<noteq> k" for es es'
    using that by (induction rule: list_all2_induct) (auto simp: row_touch_def ev_content_def)
  then show ?thesis using assms by (simp add: touches_def events_of_def)
qed

lemma touches_tunnels:
  assumes "touches I D d d'"
  shows "\<forall>e' \<in> set (db_events d'). \<exists>e \<in> set (db_events d). ev_id e' = ev_id e \<and> ev_tunnel e' = ev_tunnel e"
proof
  fix e' assume "e' \<in> set (db_events d')"
  then obtain e where "e \<in> set (db_events d)" "row_touch I D e e'"
    using assms unfolding touches_def by (metis in_set_conv_nth list_all2_conv_all_nth)
  then show "\<exists>e \<in> set (db_events d). ev_id e' = ev_id e \<and> ev_tunnel e' = ev_tunnel e"
    by (auto simp: row_touch_def ev_content_def)
qed

section \<open>The store operations the API uses\<close>

lemma ListTunnels_same: "same_tables d (snd (ListTunnels uid d))"
  by (simp add: ListTunnels_def sql_read_same)

lemma ListEvents_same: "same_tables d (snd (ListEvents tid state d))"
  by (simp add: ListEvents_def sql_read_same)

lemma SnapshotStats_same: "same_tables d (snd (SnapshotStats tid d))"
  by (simp add: SnapshotStats_def sql_read_same)

lemma EventByID_same: "same_tables d (snd (EventByID i d))"
proof -
  obtain x d0 where n: "next_outcome d = (x, d0)" by fastforce
  have "same_tables d (snd (sql True (sql_event_by_id i) d))" by (rule sql_read_same) simp
  then show ?thesis using next_outcome_same [OF n] by (simp add: EventByID_def n split: outcome.split)
qed

lemma EventByID_Inr:
  assumes "EventByID i d = (Inr e, d')"
  shows "e \<in> set (db_events d) \<and> ev_id e = i \<and> same_tables d d'"
proof -
  have s: "sql True (sql_event_by_id i) d = (Inr e, d')"
    using assms by (auto simp: EventByID_def split: prod.splits outcome.splits)
  then obtain d0 where "sql_event_by_id i d0 = (Inr e, d')" "same_tables d d0" by (rule sql_Inr)
  then show ?thesis by (auto simp: sql_event_by_id_def same_tables_def dest!: find_in_set split: option.splits)
qed

lemma ListEvents_Inr:
  assumes "ListEvents tid state d = (Inr es, d')"
  shows "es = sort_key ev_pos (filter (\<lambda>e. ev_tunnel e = tid \<and> (state = [] \<or> state_text (ev_state e) = state)) (db_events d))
    \<and> same_tables d d'"
  using assms by (auto simp: ListEvents_def sql_select_events_def same_tables_def split: if_splits elim!: sql_Inr)

lemma resolveOwnedTunnel_same: "same_tables d (snd (resolveOwnedTunnel r u d))"
proof -
  obtain x d1 where t: "TunnelBySubdomain (query_get (req_query r) ''tunnel'') d = (x, d1)" by fastforce
  then show ?thesis using TunnelBySubdomain_same [of d "query_get (req_query r) ''tunnel''"]
    by (auto simp: resolveOwnedTunnel_def Let_def and_then_def ret_def fail_def split: sum.split)
qed

lemma resolveOwnedTunnel_Inr:
  assumes "resolveOwnedTunnel r u d = (Inr t, d')"
  shows "t \<in> set (db_tunnels d) \<and> tn_user t = u_id u \<and> tn_sub t = query_get (req_query r) ''tunnel'' \<and> same_tables d d'"
proof -
  have "and_then (TunnelBySubdomain (query_get (req_query r) ''tunnel''))
      (\<lambda>t. if tn_user t \<noteq> u_id u then fail ErrNotOwner else ret t) d = (Inr t, d')"
    using assms by (auto simp: resolveOwnedTunnel_def Let_def fail_def split: if_splits)
  then obtain t0 d0 where t0: "TunnelBySubdomain (query_get (req_query r) ''tunnel'') d = (Inr t0, d0)"
    and "(if tn_user t0 \<noteq> u_id u then fail ErrNotOwner else ret t0) d0 = (Inr t, d')" by (rule and_then_Inr)
  then show ?thesis using TunnelBySubdomain_Inr [OF t0] by (auto simp: fail_def ret_def split: if_splits)
qed

lemma good_resolve: "db_wf d \<Longrightarrow> db_wf (snd (resolveOwnedTunnel r u d)) \<and> evolves d (snd (resolveOwnedTunnel r u d))"
proof -
  have "good (resolveOwnedTunnel r u)" unfolding resolveOwnedTunnel_def Let_def
    by (auto intro!: wf_intros)
  then show "db_wf d \<Longrightarrow> ?thesis" by (simp add: good_def)
qed

lemma ClearEvents_spares: "k \<noteq> tid \<Longrightarrow> spares k d (snd (ClearEvents tid d))"
proof -
  assume k: "k \<noteq> tid"
  obtain x d0 where n: "next_outcome d = (x, d0)" by fastforce
  have "filter (\<lambda>e. ev_tunnel e = k \<and> ev_tunnel e \<noteq> tid) es = filter (\<lambda>e. ev_tunnel e = k) es" for es
    using k by (intro filter_cong) auto
  then show ?thesis using next_outcome_tables [OF n]
    by (auto simp: ClearEvents_def sql_def n spares_def events_of_def snaps_of_def conj_commute split: outcome.split)
qed

section \<open>Endpoints\<close>

definition keeps_others :: "user \<Rightarrow> db \<Rightarrow> db \<Rightarrow> bool" where
  "keeps_others u d d' =
     (db_wf d' \<and> evolves d d' \<and> (\<forall>t \<in> set (db_tunnels d). tn_user t \<noteq> u_id u \<longrightarrow> spares (tn_id t) d d'))"

locale owner_handler =
  fixes handle :: "request \<Rightarrow> user \<Rightarrow> respond"
  assumes handle_keeps: "db_wf (ed_db st) \<Longrightarrow> keeps_others u (ed_db st) (ed_db (snd (handle r u (w, st))))"
    and handle_registry: "ed_registry (snd (handle r u (w, st))) = ed_registry st"
begin

text \<open>A call with a token does nothing to a tunnel whose owner has no such token.\<close>

lemma withAuth_keeps:
  assumes "db_wf (ed_db st)" and "withAuth p handle r (w, st) = (w', st')"
  shows "db_wf (ed_db st') \<and> evolves (ed_db st) (ed_db st') \<and> ed_registry st' = ed_registry st
    \<and> (\<forall>t \<in> set (db_tunnels (ed_db st)). \<lparr>tk_hash = hashToken p (bearer r), tk_user = tn_user t\<rparr> \<notin> set (db_tokens (ed_db st))
         \<longrightarrow> spares (tn_id t) (ed_db st) (ed_db st'))"
proof -
  obtain res d where a: "UserByToken p (bearer r) (ed_db st) = (res, d)" by fastforce
  have same: "same_tables (ed_db st) d" using UserByToken_same [of "ed_db st" p "bearer r"] a by simp
  have d: "db_wf d" "evolves (ed_db st) d"
    using good_same [OF good_UserByToken assms(1) a] by blast+
  show ?thesis
  proof (cases "bearer r = [] \<or> (\<exists>e. res = Inl e)")
    case True
    then have "st' = st \<or> st' = st\<lparr>ed_db := d\<rparr>" using assms(2) a by (auto simp: withAuth_def Let_def split: if_splits)
    then show ?thesis using assms(1) d same_tables_spares [OF same] by auto
  next
    case False
    then obtain u where u: "bearer r \<noteq> []" "res = Inr u" by (cases res) auto
    then have h: "handle r u (w, st\<lparr>ed_db := d\<rparr>) = (w', st')" using assms(2) a by (simp add: withAuth_def Let_def)
    have k: "keeps_others u d (ed_db st')" using handle_keeps [of "st\<lparr>ed_db := d\<rparr>" u r w] h d by simp
    have reg: "ed_registry st' = ed_registry st" using handle_registry [of r u w "st\<lparr>ed_db := d\<rparr>"] h by simp
    obtain tk where tk: "tk \<in> set (db_tokens (ed_db st))" "tk_hash tk = hashToken p (bearer r)" "tk_user tk = u_id u"
      using UserByToken_Inr a u by blast
    have tun: "db_tunnels d = db_tunnels (ed_db st)" using same by (simp add: same_tables_def)
    have sp: "spares (tn_id t) (ed_db st) (ed_db st')"
      if t: "t \<in> set (db_tunnels (ed_db st))" "\<lparr>tk_hash = hashToken p (bearer r), tk_user = tn_user t\<rparr> \<notin> set (db_tokens (ed_db st))" for t
    proof -
      have "tn_user t \<noteq> u_id u"
      proof
        assume "tn_user t = u_id u"
        then have "tk = \<lparr>tk_hash = hashToken p (bearer r), tk_user = tn_user t\<rparr>" using tk by simp
        then show False using tk(1) t(2) by simp
      qed
      then have "spares (tn_id t) d (ed_db st')" using k t(1) tun by (simp add: keeps_others_def)
      then show ?thesis by (rule same_tables_spares_trans [OF same])
    qed
    have "evolves (ed_db st) (ed_db st')" "db_wf (ed_db st')"
      using k d(2) evolves_trans unfolding keeps_others_def by blast+
    then show ?thesis using reg sp by blast
  qed
qed

end

text \<open>A handler that only reads, and the two that write.\<close>

lemma reading_keeps: "db_wf d' \<Longrightarrow> evolves d d' \<Longrightarrow> same_tables d d' \<Longrightarrow> keeps_others u d d'"
  by (simp add: keeps_others_def same_tables_spares)

lemma listTunnels_keeps:
  assumes "db_wf (ed_db st)"
  shows "keeps_others u (ed_db st) (ed_db (snd (listTunnels p r u (w, st))))"
proof -
  obtain x d where l: "ListTunnels (u_id u) (ed_db st) = (x, d)" by fastforce
  have "ed_db (snd (listTunnels p r u (w, st))) = d"
    by (auto simp: listTunnels_def l split: sum.split prod.split)
  then show ?thesis
    using good_same [OF good_ListTunnels assms l] ListTunnels_same [of "ed_db st" "u_id u"] l by (simp add: reading_keeps)
qed

lemma listEvents_keeps:
  assumes "db_wf (ed_db st)"
  shows "keeps_others u (ed_db st) (ed_db (snd (listEvents p tm r u (w, st))))"
proof -
  obtain x d where l: "resolveOwnedTunnel r u (ed_db st) = (x, d)" by fastforce
  have d: "db_wf d" "evolves (ed_db st) d" "same_tables (ed_db st) d"
    using good_resolve [OF assms, of r u] resolveOwnedTunnel_same [of "ed_db st" r u] l by simp_all
  show ?thesis
  proof (cases x)
    case (Inl e)
    then show ?thesis using d by (simp add: listEvents_def l reading_keeps)
  next
    case (Inr t)
    obtain y d' where y: "ListEvents (tn_id t) (query_get (req_query r) ''state'') d = (y, d')" by fastforce
    have "ed_db (snd (listEvents p tm r u (w, st))) = d'"
      by (auto simp: listEvents_def l Inr y split: sum.split)
    moreover have "db_wf d' \<and> evolves d d' \<and> same_tables d d'"
      using good_same [OF good_ListEvents d(1) y] ListEvents_same [of d "tn_id t" "query_get (req_query r) ''state''"] y by simp
    ultimately show ?thesis using d evolves_trans same_tables_trans by (metis reading_keeps)
  qed
qed

lemma clearEvents_keeps:
  assumes "db_wf (ed_db st)"
  shows "keeps_others u (ed_db st) (ed_db (snd (clearEvents p r u (w, st))))"
proof -
  obtain x d where l: "resolveOwnedTunnel r u (ed_db st) = (x, d)" by fastforce
  have d: "db_wf d" "evolves (ed_db st) d" "same_tables (ed_db st) d"
    using good_resolve [OF assms, of r u] resolveOwnedTunnel_same [of "ed_db st" r u] l by simp_all
  show ?thesis
  proof (cases x)
    case (Inl e)
    then show ?thesis using d by (simp add: clearEvents_def l reading_keeps)
  next
    case (Inr t)
    obtain y d' where y: "ClearEvents (tn_id t) d = (y, d')" by fastforce
    have e: "ed_db (snd (clearEvents p r u (w, st))) = d'"
      by (auto simp: clearEvents_def l Inr y split: sum.split)
    have t: "t \<in> set (db_tunnels (ed_db st))" "tn_user t = u_id u" using resolveOwnedTunnel_Inr l Inr by blast+
    have "spares (tn_id t') (ed_db st) d'" if "t' \<in> set (db_tunnels (ed_db st))" "tn_user t' \<noteq> u_id u" for t'
    proof -
      have "t' \<noteq> t" using that t by auto
      then have "tn_id t' \<noteq> tn_id t" using inj_on_key [of tn_id _ t' t] assms that t by (auto simp: wf_defs)
      then have "spares (tn_id t') d d'" using ClearEvents_spares [of "tn_id t'" "tn_id t" d] y by simp
      then show ?thesis using same_tables_spares_trans d(3) by blast
    qed
    then show ?thesis using good_same [OF good_ClearEvents d(1) y] d evolves_trans
      unfolding e keeps_others_def by blast
  qed
qed

lemma status_keeps:
  assumes "db_wf (ed_db st)"
  shows "keeps_others u (ed_db st) (ed_db (snd (status p r u (w, st))))"
proof -
  obtain x d where l: "resolveOwnedTunnel r u (ed_db st) = (x, d)" by fastforce
  have d: "db_wf d" "evolves (ed_db st) d" "same_tables (ed_db st) d"
    using good_resolve [OF assms, of r u] resolveOwnedTunnel_same [of "ed_db st" r u] l by simp_all
  show ?thesis
  proof (cases x)
    case (Inl e)
    then show ?thesis using d by (simp add: status_def l reading_keeps)
  next
    case (Inr t)
    obtain y d1 where y: "ListEvents (tn_id t) (state_text EventQueued) d = (y, d1)" by fastforce
    obtain z d2 where z: "SnapshotStats (tn_id t) d1 = (z, d2)" by fastforce
    have e: "ed_db (snd (status p r u (w, st))) = d1 \<or> ed_db (snd (status p r u (w, st))) = d2"
      by (auto simp: status_def l Inr y z split: sum.split prod.split)
    have 1: "db_wf d1 \<and> evolves d d1 \<and> same_tables d d1"
      using good_same [OF good_ListEvents d(1) y] ListEvents_same [of d "tn_id t" "state_text EventQueued"] y by simp
    then have 2: "db_wf d2 \<and> evolves d1 d2 \<and> same_tables d1 d2"
      using good_same [OF good_SnapshotStats _ z] SnapshotStats_same [of d1 "tn_id t"] z by simp
    from e show ?thesis using 1 2 d evolves_trans same_tables_trans by (metis reading_keeps)
  qed
qed

lemma replayEvent_cases:
  assumes "replayEvent p links raw r u (w, st) = ((w', st'), lk)"
  obtains (bad) "ParseInt64 raw = None" "st' = st"
  | (no_event) i e d where "ParseInt64 raw = Some i" "EventByID i (ed_db st) = (Inl e, d)" "st' = st\<lparr>ed_db := d\<rparr>"
      "w' = writeErr (statusFor e) ''event not found'' w"
  | (no_tunnel) i e d er d1 where "ParseInt64 raw = Some i" "EventByID i (ed_db st) = (Inr e, d)"
      "TunnelByID (ev_tunnel e) d = (Inl er, d1)" "st' = st\<lparr>ed_db := d1\<rparr>"
  | (foreign) i e d t d1 where "ParseInt64 raw = Some i" "EventByID i (ed_db st) = (Inr e, d)"
      "TunnelByID (ev_tunnel e) d = (Inr t, d1)" "tn_user t \<noteq> u_id u" "st' = st\<lparr>ed_db := d1\<rparr>"
      "w' = writeErr 403 (error_text (pl_pgmsg p) ErrNotOwner) w"
  | (own) i e d t d1 z d2 where "ParseInt64 raw = Some i" "EventByID i (ed_db st) = (Inr e, d)"
      "TunnelByID (ev_tunnel e) d = (Inr t, d1)" "tn_user t = u_id u" "RequeueEvent i d1 = (z, d2)"
      "st' = st\<lparr>ed_db := d2\<rparr> \<or> (\<exists>sess. Get (tn_sub t) (ed_registry st) = Some sess \<and> z = Inr ()
         \<and> st' = st\<lparr>ed_db := snd (snd (ReplayEvent e (links sess, d2)))\<rparr>)"
proof (cases "ParseInt64 raw")
  case None
  then show thesis using assms by (intro bad) (auto simp: replayEvent_def)
next
  case i: (Some i)
  obtain x d where x: "EventByID i (ed_db st) = (x, d)" by fastforce
  show thesis
  proof (cases x)
    case (Inl e)
    then show thesis using assms i x by (intro no_event) (auto simp: replayEvent_def)
  next
    case e: (Inr e)
    obtain y d1 where y: "TunnelByID (ev_tunnel e) d = (y, d1)" by fastforce
    show thesis
    proof (cases y)
      case (Inl er)
      then show thesis using assms i x e y by (intro no_tunnel) (auto simp: replayEvent_def)
    next
      case t: (Inr t)
      show thesis
      proof (cases "tn_user t = u_id u")
        case False
        then show thesis using assms i x e y t by (intro foreign) (auto simp: replayEvent_def)
      next
        case True
        obtain z d2 where z: "RequeueEvent i d1 = (z, d2)" by fastforce
        have "st' = st\<lparr>ed_db := d2\<rparr> \<or> (\<exists>sess. Get (tn_sub t) (ed_registry st) = Some sess \<and> z = Inr ()
          \<and> st' = st\<lparr>ed_db := snd (snd (ReplayEvent e (links sess, d2)))\<rparr>)"
          using assms i x e y t True z
          by (auto simp: replayEvent_def split: sum.splits option.splits prod.splits if_splits)
        then show thesis using i x e y t True z by (intro own) auto
      qed
    qed
  qed
qed

lemma replay_touches:
  "ev_id e = i \<Longrightarrow> touches {i} {i} d (snd (RequeueEvent i d))
    \<and> touches {i} {i} d' (snd (snd (ReplayEvent e (lk, d'))))"
proof -
  assume i: "ev_id e = i"
  obtain code err lk2 d2 where r: "ReplayEvent e (lk, d') = ((code, err), lk2, d2)" by (metis prod.collapse)
  have "touches {i} {i} d' d2" using ReplayEvent_touches [OF r] i by (auto elim: touches_mono)
  then show ?thesis using touches_marks(2) [of i "{i}" d] by (simp add: r)
qed

lemma two_reads:
  assumes "db_wf d0" and "EventByID i d0 = (x, d)" and "TunnelByID t d = (y, d1)"
  shows "db_wf d1 \<and> evolves d0 d1 \<and> same_tables d0 d1"
proof -
  have 1: "db_wf d \<and> evolves d0 d \<and> same_tables d0 d"
    using good_same [OF good_EventByID assms(1,2)] EventByID_same [of d0 i] assms(2) by simp
  then have "db_wf d1 \<and> evolves d d1 \<and> same_tables d d1"
    using good_same [OF good_TunnelByID _ assms(3)] TunnelByID_same [of d t] assms(3) by simp
  then show ?thesis using 1 evolves_trans same_tables_trans by blast
qed

text \<open>Requeuing and replaying an event of the user's own tunnel spares every other account.\<close>

lemma own_event_spares:
  assumes "db_wf d0" and "e \<in> set (db_events d0)" and "ev_id e = i" and "t \<in> set (db_tunnels d0)" and "tn_id t = ev_tunnel e"
    and "t' \<in> set (db_tunnels d0)" and "tn_user t' \<noteq> tn_user t" and "same_tables d0 d1" and "touches {i} {i} d1 d2"
    and "\<And>k. snaps_of k d2 = snaps_of k d1"
  shows "spares (tn_id t') d0 d2"
proof -
  have "t' \<noteq> t" using assms(7) by auto
  then have k: "tn_id t' \<noteq> ev_tunnel e" using inj_on_key [of tn_id _ t' t] assms(1,4-6) by (auto simp: wf_defs)
  have "ev_tunnel x \<noteq> tn_id t'" if "x \<in> set (db_events d1)" "ev_id x \<in> {i}" for x
  proof -
    have "x \<in> set (db_events d0)" using that(1) assms(8) by (simp add: same_tables_def)
    then have "x = e" using inj_on_key [of ev_id _ x e] assms(1-3) that(2) by (auto simp: wf_defs)
    then show ?thesis using k by simp
  qed
  then have "events_of (tn_id t') d2 = events_of (tn_id t') d1" using touches_events_of [OF assms(9)] by blast
  then have "spares (tn_id t') d1 d2" using assms(10) by (simp add: spares_def)
  then show ?thesis using same_tables_spares_trans [OF assms(8)] by blast
qed

lemma own_replay_keeps:
  assumes "db_wf d0" and "EventByID i d0 = (Inr e, d)" and "TunnelByID (ev_tunnel e) d = (Inr t, d1)"
    and "tn_user t = u_id u" and "RequeueEvent i d1 = (z, d2)"
  shows "keeps_others u d0 d2 \<and> keeps_others u d0 (snd (snd (ReplayEvent e (lk, d2))))"
proof -
  let ?d3 = "snd (snd (ReplayEvent e (lk, d2)))"
  have e: "e \<in> set (db_events d0)" "ev_id e = i" "same_tables d0 d" using EventByID_Inr [OF assms(2)] by auto
  then have t: "t \<in> set (db_tunnels d0)" "tn_id t = ev_tunnel e" using TunnelByID_Inr [OF assms(3)] by (auto simp: same_tables_def)
  have 1: "db_wf d1" "evolves d0 d1" "same_tables d0 d1" using two_reads [OF assms(1-3)] by simp_all
  have 2: "db_wf d2" "evolves d1 d2" using good_same [OF good_RequeueEvent 1(1) assms(5)] by simp_all
  have 3: "db_wf ?d3" "evolves d2 ?d3" using ReplayEvent_good [OF 2(1), of e lk] by simp_all
  have t12: "touches {i} {i} d1 d2" using replay_touches [OF e(2), of d1] assms(5) by simp
  have t13: "touches {i} {i} d1 ?d3" using touches_trans [OF t12] replay_touches [OF e(2)] by blast
  have snaps: "snaps_of k d2 = snaps_of k d1" "snaps_of k ?d3 = snaps_of k d1" for k
    using marks_snaps(2) [of i d1] ReplayEvent_snaps [of e lk d2] assms(5) by (simp_all add: snaps_of_def)
  have "spares (tn_id t') d0 d2 \<and> spares (tn_id t') d0 ?d3"
    if "t' \<in> set (db_tunnels d0)" "tn_user t' \<noteq> u_id u" for t'
    using own_event_spares [OF assms(1) e(1,2) t that(1) _ 1(3)] that(2) assms(4) t12 t13 snaps by simp
  then show ?thesis using 1(2) 2 3 evolves_trans unfolding keeps_others_def by blast
qed

lemma replayEvent_keeps:
  assumes "db_wf (ed_db st)"
  shows "keeps_others u (ed_db st) (ed_db (snd (fst (replayEvent p links raw r u (w, st)))))"
proof -
  obtain w' st' lk where h: "replayEvent p links raw r u (w, st) = ((w', st'), lk)" by (metis prod.collapse)
  have "keeps_others u (ed_db st) (ed_db st')"
    using h
  proof (cases rule: replayEvent_cases)
    case bad
    then show ?thesis using assms by (simp add: reading_keeps)
  next
    case (no_event i e d)
    then show ?thesis using good_same [OF good_EventByID assms no_event(2)] EventByID_same [of "ed_db st" i]
      by (simp add: reading_keeps)
  next
    case (no_tunnel i e d er d1)
    then show ?thesis using two_reads [OF assms no_tunnel(2,3)] by (simp add: reading_keeps)
  next
    case (foreign i e d t d1)
    then show ?thesis using two_reads [OF assms foreign(2,3)] by (simp add: reading_keeps)
  next
    case (own i e d t d1 z d2)
    then show ?thesis using own_replay_keeps [OF assms own(2-5)] by auto
  qed
  then show ?thesis by (simp add: h)
qed

lemma registry_kept:
  "ed_registry (snd (listTunnels p r u (w, st))) = ed_registry st"
  "ed_registry (snd (listEvents p tm r u (w, st))) = ed_registry st"
  "ed_registry (snd (clearEvents p r u (w, st))) = ed_registry st"
  "ed_registry (snd (status p r u (w, st))) = ed_registry st"
  "ed_registry (snd (fst (replayEvent p links raw r u (w, st)))) = ed_registry st"
  by (simp_all add: listTunnels_def listEvents_def clearEvents_def status_def replayEvent_def
      split: prod.split sum.split option.split)

interpretation endpoints: owner_handler "endpoint_handler env ep vs" for env ep vs
proof unfold_locales
  fix st :: edge and u r w
  assume "db_wf (ed_db st)"
  then show "keeps_others u (ed_db st) (ed_db (snd (endpoint_handler env ep vs r u (w, st))))"
    by (cases ep) (simp_all add: endpoint_handler_def Let_def listTunnels_keeps listEvents_keeps clearEvents_keeps
        status_keeps replayEvent_keeps)
next
  fix st :: edge and u r w
  show "ed_registry (snd (endpoint_handler env ep vs r u (w, st))) = ed_registry st"
    by (cases ep) (simp_all add: endpoint_handler_def Let_def registry_kept)
qed

section \<open>Accounts\<close>

definition keeps_queue :: "'a stmt \<Rightarrow> bool" where
  "keeps_queue m = (\<forall>d. db_events (snd (m d)) = db_events d \<and> db_snaps (snd (m d)) = db_snaps d)"

lemma keeps_queue_sql: "keeps_queue q \<Longrightarrow> keeps_queue (sql ok q)"
  by (simp add: keeps_queue_def sql_events sql_snaps)

lemma keeps_queue_and_then: "keeps_queue m \<Longrightarrow> (\<And>a. keeps_queue (f a)) \<Longrightarrow> keeps_queue (and_then m f)"
  by (simp add: keeps_queue_def and_then_events and_then_snaps)

lemma keeps_queue_map_err: "keeps_queue m \<Longrightarrow> keeps_queue (map_err g m)"
  by (simp add: keeps_queue_def)

lemma keeps_queue_simple: "keeps_queue (ret a)" "keeps_queue (fail e)"
  by (simp_all add: keeps_queue_def ret_def fail_def)

lemma keeps_queue_transaction: "keeps_queue m \<Longrightarrow> keeps_queue (transaction m)"
  unfolding keeps_queue_def
proof
  fix d assume m: "\<forall>d. db_events (snd (m d)) = db_events d \<and> db_snaps (snd (m d)) = db_snaps d"
  obtain r d' where r: "transaction m d = (r, d')" by fastforce
  from transaction_cases [OF r] have "db_events d' = db_events d \<and> db_snaps d' = db_snaps d"
  proof
    assume "\<exists>a d0 d1. same_tables d d0 \<and> next_outcome d = (Done, d0) \<and> m d0 = (Inr a, d1) \<and> same_tables d1 d'"
    then obtain a d0 d1 where "same_tables d d0" "m d0 = (Inr a, d1)" "same_tables d1 d'" by blast
    then show ?thesis using m [rule_format, of d0] by (simp add: same_tables_def)
  qed (simp add: same_tables_def)
  then show "db_events (snd (transaction m d)) = db_events d \<and> db_snaps (snd (transaction m d)) = db_snaps d" by (simp add: r)
qed

lemmas keeps_queue_intros = keeps_queue_sql keeps_queue_and_then keeps_queue_map_err keeps_queue_simple keeps_queue_transaction

lemma account_statements:
  "keeps_queue (sql_insert_user email hash)" "keeps_queue (sql_insert_token h uid)" "keeps_queue (sql_user_by_email email)"
  by (auto simp: keeps_queue_def sql_insert_user_def sql_insert_token_def sql_user_by_email_def Let_def split: option.split)

lemma SignUp_keeps: "keeps_queue (SignUp p salt rnd email password)"
  unfolding SignUp_def by (auto simp: Let_def intro!: keeps_queue_intros account_statements split: option.split)

lemma VerifyPassword_keeps: "keeps_queue (VerifyPassword p email password)"
  unfolding VerifyPassword_def by (auto intro!: keeps_queue_intros account_statements split: option.split)

lemma NewToken_keeps: "keeps_queue (NewToken p rnd uid)"
  unfolding NewToken_def by (auto simp: Let_def intro!: keeps_queue_intros account_statements split: option.split)

definition account_call :: "db \<Rightarrow> db \<Rightarrow> bool" where
  "account_call d d' = (db_wf d' \<and> evolves d d' \<and> db_events d' = db_events d \<and> db_snaps d' = db_snaps d)"

lemma account_call_stmt: "db_wf d \<Longrightarrow> good m \<Longrightarrow> keeps_queue m \<Longrightarrow> m d = (x, d') \<Longrightarrow> account_call d d'"
  unfolding account_call_def good_def keeps_queue_def by (metis snd_conv)

lemma account_call_trans: "account_call a b \<Longrightarrow> account_call b c \<Longrightarrow> account_call a c"
  unfolding account_call_def using evolves_trans by metis

lemma signUp_account:
  assumes "db_wf (ed_db st)" and "signUp env r (w, st) = (w', st')"
  shows "account_call (ed_db st) (ed_db st') \<and> ed_registry st' = ed_registry st"
proof (cases "decodeCredentials (ae_platform env) r")
  case (Inl e)
  then show ?thesis using assms by (auto simp: signUp_def Let_def account_call_def)
next
  case (Inr c)
  obtain email password where c: "c = (email, password)" by fastforce
  obtain x d where x: "SignUp (ae_platform env) (ae_salt env) (ae_random env) email password (ed_db st) = (x, d)" by fastforce
  have "st' = st\<lparr>ed_db := d\<rparr>" using assms(2) Inr c x
    by (auto simp: signUp_def Let_def split: sum.splits if_splits prod.splits)
  then show ?thesis using account_call_stmt [OF assms(1) good_SignUp SignUp_keeps x] by simp
qed

lemma logIn_account:
  assumes "db_wf (ed_db st)" and "logIn env r (w, st) = (w', st')"
  shows "account_call (ed_db st) (ed_db st') \<and> ed_registry st' = ed_registry st"
proof (cases "decodeCredentials (ae_platform env) r")
  case (Inl e)
  then show ?thesis using assms by (auto simp: logIn_def Let_def account_call_def)
next
  case (Inr c)
  obtain email password where c: "c = (email, password)" by fastforce
  obtain x d where x: "VerifyPassword (ae_platform env) email password (ed_db st) = (x, d)" by fastforce
  note 1 = account_call_stmt [OF assms(1) good_VerifyPassword VerifyPassword_keeps x]
  show ?thesis
  proof (cases x)
    case (Inl e)
    then show ?thesis using assms(2) Inr c x 1 by (auto simp: logIn_def Let_def split: if_splits)
  next
    case user: (Inr user)
    obtain y d' where y: "NewToken (ae_platform env) (ae_random env) (u_id user) d = (y, d')" by fastforce
    have "db_wf d" using 1 by (simp add: account_call_def)
    note 2 = account_call_stmt [OF this good_NewToken NewToken_keeps y]
    have "st' = st\<lparr>ed_db := d'\<rparr>" using assms(2) Inr c x user y by (auto simp: logIn_def Let_def split: sum.splits)
    then show ?thesis using account_call_trans [OF 1 2] by simp
  qed
qed

lemma rateLimitAuth_account:
  assumes "db_wf (ed_db st)" and "rateLimitAuth env h r (w, st, al) = (w', st', al')"
    and "\<And>w'' st''. h r (w, st) = (w'', st'') \<Longrightarrow> account_call (ed_db st) (ed_db st'') \<and> ed_registry st'' = ed_registry st"
  shows "account_call (ed_db st) (ed_db st') \<and> ed_registry st' = ed_registry st"
  using assms by (auto simp: rateLimitAuth_def account_call_def split: prod.splits if_splits)

section \<open>Whole calls\<close>

lemma ControlHTTP_owners:
  assumes "db_wf (ed_db st)" and "ControlHTTP env r (w, st, al) = (w', st', al')"
  shows "db_wf (ed_db st') \<and> evolves (ed_db st) (ed_db st') \<and> ed_registry st' = ed_registry st
    \<and> (\<forall>t \<in> set (db_tunnels (ed_db st)).
         \<lparr>tk_hash = hashToken (ae_platform env) (bearer r), tk_user = tn_user t\<rparr> \<notin> set (db_tokens (ed_db st)) \<longrightarrow>
         events_of (tn_id t) (ed_db st') = events_of (tn_id t) (ed_db st)
         \<and> snaps_of (tn_id t) (ed_db st') = snaps_of (tn_id t) (ed_db st))"
proof (cases "mux routes r")
  case (Handled ep vs)
  show ?thesis
  proof (cases "ep = EpSignup \<or> ep = EpLogin")
    case True
    then have "rateLimitAuth env (if ep = EpSignup then signUp env else logIn env) r (w, st, al) = (w', st', al')"
      using assms(2) Handled by (auto simp: ControlHTTP_def)
    moreover have "account_call (ed_db st) (ed_db st'') \<and> ed_registry st'' = ed_registry st"
      if "(if ep = EpSignup then signUp env else logIn env) r (w, st) = (w'', st'')" for w'' st''
      using that signUp_account [OF assms(1), of env r w w'' st''] logIn_account [OF assms(1), of env r w w'' st'']
      by (cases "ep = EpSignup") simp_all
    ultimately have "account_call (ed_db st) (ed_db st') \<and> ed_registry st' = ed_registry st"
      by (rule rateLimitAuth_account [OF assms(1)])
    then show ?thesis by (simp add: account_call_def events_of_def snaps_of_def)
  next
    case False
    then have "withAuth (ae_platform env) (endpoint_handler env ep vs) r (w, st) = (w', st')"
      using assms(2) Handled by (auto simp: ControlHTTP_def split: prod.splits)
    from endpoints.withAuth_keeps [OF assms(1) this] show ?thesis by (simp add: spares_def)
  qed
qed (use assms in \<open>auto simp: ControlHTTP_def\<close>)

text \<open>
  C3. The API acts for the owner only. Whatever the request, and whatever fails meanwhile, a call of the control API keeps the
  database well-formed, changes no session, and touches neither the events nor the pages of a tunnel unless the
  request carries a token of the account that owns the tunnel.
\<close>
theorem api_respects_owners:
  assumes "db_wf (ed_db st)" and "ControlHTTP env r (w, st, al) = (w', st', al')"
  shows "db_wf (ed_db st') \<and> evolves (ed_db st) (ed_db st') \<and> ed_registry st' = ed_registry st
    \<and> (\<forall>t \<in> set (db_tunnels (ed_db st)).
         \<lparr>tk_hash = hashToken (ae_platform env) (bearer r), tk_user = tn_user t\<rparr> \<notin> set (db_tokens (ed_db st)) \<longrightarrow>
         events_of (tn_id t) (ed_db st') = events_of (tn_id t) (ed_db st)
         \<and> snaps_of (tn_id t) (ed_db st') = snaps_of (tn_id t) (ed_db st))"
  by (rule ControlHTTP_owners [OF assms])

text \<open>
  C33. No token, no service. A call of any endpoint but sign-up and login without a bearer token, or with one that no account has, is
  answered with 401; it changes no table, no presence and no session.
\<close>
theorem unauthenticated_calls_are_refused:
  assumes "mux routes r = Handled ep vs" and "ep \<noteq> EpSignup" and "ep \<noteq> EpLogin" and "w_sent w = None"
    and "bearer r = [] \<or> hashToken (ae_platform env) (bearer r) \<notin> tk_hash ` set (db_tokens (ed_db st))"
  shows "\<exists>w' d'. ControlHTTP env r (w, st, al) = (w', st\<lparr>ed_db := d'\<rparr>, al) \<and> client_status w' = 401 \<and> same_tables (ed_db st) d'"
proof -
  obtain x d where a: "UserByToken (ae_platform env) (bearer r) (ed_db st) = (x, d)" by fastforce
  have same: "same_tables (ed_db st) d" using UserByToken_same [of "ed_db st" "ae_platform env" "bearer r"] a by simp
  have st: "st = st\<lparr>ed_db := ed_db st\<rparr>" by simp
  show ?thesis
  proof (cases "bearer r = []")
    case True
    then show ?thesis using assms st
      by (intro exI [of _ "writeErr 401 ''missing bearer token'' w"] exI [of _ "ed_db st"])
        (simp add: ControlHTTP_def withAuth_def writeErr_def writeJSON_def client_status_def)
  next
    case False
    then obtain e where "x = Inl e"
      using UserByToken_Inr [of "ae_platform env" "bearer r" "ed_db st" _ d] a assms(5) by (cases x) (auto simp: image_iff)
    then show ?thesis using assms False a same
      by (intro exI [of _ "writeErr 401 ''invalid token'' w"] exI [of _ d])
        (simp add: ControlHTTP_def withAuth_def Let_def writeErr_def writeJSON_def client_status_def)
  qed
qed

section \<open>Example calls\<close>

definition demo_env :: "link \<Rightarrow> int option api_env" where
  "demo_env lk = \<lparr>ae_platform = demo_platform, ae_lib = demo_lib, ae_now = 0, ae_salt = ''s'', ae_random = Some ''r'',
     ae_json_time = (\<lambda>_. ''T''), ae_links = (\<lambda>_. lk)\<rparr>"

definition demo_link :: link where
  "demo_link = \<lparr>lk_script = [Responds 200], lk_sent = []\<rparr>"

definition demo_call :: "bytes \<Rightarrow> bytes \<Rightarrow> bytes \<Rightarrow> bytes \<Rightarrow> request" where
  "demo_call meth path query token = \<lparr>req_method = meth, req_host = ''lvh.me:8080'', req_path = path, req_rawpath = [],
     req_query = query, req_header = [(''Authorization'', [''Bearer '' @ token])],
     req_body = \<lparr>body_data = [], body_err = False\<rparr>, req_remote = ''10.0.0.1:999''\<rparr>"

text \<open>Two webhooks of \<open>myapp\<close> are queued; the account that owns the name has the token \<open>lu_72\<close>.\<close>

definition demo_queue_edge :: edge where
  "demo_queue_edge = \<lparr>ed_db = demo_queue_db, ed_redis = demo_redis, ed_registry = NewRegistry\<rparr>"

lemma demo_bearer [simp]: "bearer (demo_call meth path query token) = token"
proof -
  have "CanonicalKey ''Authorization'' = ''Authorization''" by code_simp
  then show ?thesis by (simp add: bearer_def demo_call_def Header_Get_def TrimPrefix_def HasPrefix_def)
qed

lemma demo_queue_tables: "db_tunnels demo_queue_db = [demo_tunnel]" "db_users demo_queue_db = db_users demo_user_db"
    "db_tokens demo_queue_db = [\<lparr>tk_hash = hashToken demo_platform ''lu_72'', tk_user = 1\<rparr>]"
  unfolding demo_queue_db_def demo_db_eq demo_user_db_eq by code_simp+

lemma demo_foreign: "hashToken demo_platform ''lu_99'' \<noteq> hashToken demo_platform ''lu_72''"
  by code_simp

theorem api_respects_owners_witness:
  "\<exists>w' st' al'. ControlHTTP (demo_env demo_link) (demo_call ''DELETE'' ''/api/events'' ''tunnel=myapp'' ''lu_99'')
     (new_writer, demo_queue_edge, None) = (w', st', al') \<and> events_of 1 (ed_db st') = [demo_event1, demo_event2]"
proof -
  obtain w' st' al' where r: "ControlHTTP (demo_env demo_link) (demo_call ''DELETE'' ''/api/events'' ''tunnel=myapp'' ''lu_99'')
     (new_writer, demo_queue_edge, None) = (w', st', al')" by (metis prod.collapse)
  have "db_wf (ed_db demo_queue_edge)" by (simp add: demo_queue_edge_def demo_queue_db_wf)
  from api_respects_owners [OF this r] have "events_of 1 (ed_db st') = events_of 1 demo_queue_db"
    using demo_foreign by (simp add: demo_queue_edge_def demo_queue_tables demo_tunnel_def demo_env_def)
  also have "\<dots> = [demo_event1, demo_event2]"
    by (simp add: events_of_def demo_events demo_event1_def demo_event2_def stored_event_def)
  finally show ?thesis using r by blast
qed

theorem unauthenticated_calls_are_refused_witness:
  "\<exists>w' d'. ControlHTTP (demo_env demo_link) (demo_call ''GET'' ''/api/events'' ''tunnel=myapp'' ''lu_99'')
     (new_writer, demo_queue_edge, None) = (w', demo_queue_edge\<lparr>ed_db := d'\<rparr>, None) \<and> client_status w' = 401"
proof -
  let ?r = "demo_call ''GET'' ''/api/events'' ''tunnel=myapp'' ''lu_99''"
  have "mux routes ?r = Handled EpEvents []" unfolding demo_call_def by code_simp
  then show ?thesis
    using unauthenticated_calls_are_refused [of ?r EpEvents "[]" new_writer "demo_env demo_link" demo_queue_edge None] demo_foreign
    by (auto simp: demo_queue_edge_def demo_queue_tables demo_env_def new_writer_def)
qed

end
