(* ===== verification/ApiCalls.thy ===== *)
theory ApiCalls
  imports ApiAccess GoJsonRound ReplayRuns
begin

text \<open>
  What the calls of the control API do: the form of an account's address, the token handed out at sign-up, the events listed,
  and the manual replay of an event; with an example server on which every statement is applied.
\<close>

section \<open>Addresses\<close>

lemma lang_Cls_then: "lang (Cat (Plus (Cls p)) (Cat (Cls q) r)) xs \<longleftrightarrow>
    (\<exists>us c vs. xs = us @ c # vs \<and> us \<noteq> [] \<and> list_all p us \<and> q c \<and> lang r vs)"
  by (subst lang_Cat) (auto simp: lang_Plus_Cls lang_Cat_Cls)

text \<open>
  The addresses an account may have: at least one rune before an at sign, and after it a dot with something on both sides,
  with neither a space character nor a second at sign anywhere.
\<close>
theorem valid_addresses:
  "MatchString emailRE s \<longleftrightarrow>
     (\<exists>name host top. utf8_decode s = name @ [64] @ host @ [46] @ top \<and> name \<noteq> [] \<and> host \<noteq> [] \<and> top \<noteq> []
        \<and> list_all email_rune (name @ host @ top))"
proof -
  have "MatchString emailRE s \<longleftrightarrow> (\<exists>us vs ts. utf8_decode s = us @ 64 # vs @ 46 # ts \<and> us \<noteq> [] \<and> vs \<noteq> [] \<and> ts \<noteq> []
      \<and> list_all email_rune us \<and> list_all email_rune vs \<and> list_all email_rune ts)"
    unfolding MatchString_def re_match_lang emailRE_def lang_Cls_then by (auto simp: lang_Plus_Cls)
  then show ?thesis by simp
qed

section \<open>Signing up\<close>

lemma bearer_of: "Header_Get (req_header r) ''Authorization'' = ''Bearer '' @ token \<Longrightarrow> bearer r = token"
  by (simp add: bearer_def TrimPrefix_def HasPrefix_def)

lemma token_user:
  assumes "db_wf d" and "SignUp P salt rnd email password d = (Inr (u, token), d1)"
    and "evolves d1 d2" and "db_wf d2" and "next_outcome d2 = (Done, d3)"
  shows "UserByToken P token d2 = (Inr u, d3) \<and> u_email u = email"
proof -
  obtain hash where email: "u_email u = email"
    and row: "\<lparr>us_id = u_id u, us_email = email, us_password = Some hash\<rparr> \<in> set (db_users d1)"
    and tok: "\<lparr>tk_hash = hashToken P token, tk_user = u_id u\<rparr> \<in> set (db_tokens d1)"
    using SignUp_rows [OF assms(2)] by metis
  from evolves_user [OF assms(3) row] obtain r where r: "r \<in> set (db_users d2)" "us_id r = u_id u" "us_email r = u_email u"
    using email by auto
  from token_lookup [OF assms(4) evolves_token [OF assms(3) tok] r(1,2) assms(5)] r email show ?thesis
    by (simp add: to_user_def)
qed

text \<open>
  C34. A new account can use the API at once. When sign-up answers 201, its body is the JSON object with the account's address and a
  token, and from then on, in every later state of the system in which the database answers, a call that carries this token is
  served on behalf of exactly this account.
\<close>
theorem signup_opens_the_api:
  assumes "db_wf (ed_db st)" and "signUp env r (w, st) = (w', st')" and "w_sent w = None" and "client_status w' = 201"
    and "\<not> w_broken w"
  shows "\<exists>u token. w_out w' = w_out w @ Encode (JObj [(''email'', JStr (u_email u)), (''token'', JStr token)])
    \<and> (\<forall>handle r2 w2 st2 d3. evolves (ed_db st') (ed_db st2) \<and> db_wf (ed_db st2) \<and> next_outcome (ed_db st2) = (Done, d3)
         \<and> Header_Get (req_header r2) ''Authorization'' = ''Bearer '' @ token \<longrightarrow>
         withAuth (ae_platform env) handle r2 (w2, st2) = handle r2 u (w2, st2\<lparr>ed_db := d3\<rparr>))"
proof -
  obtain email password where c: "decodeCredentials (ae_platform env) r = Inr (email, password)"
    using assms(2-4) by (cases "decodeCredentials (ae_platform env) r")
      (auto simp: signUp_def writeErr_def writeJSON_def client_status_def Let_def)
  obtain x d where x: "SignUp (ae_platform env) (ae_salt env) (ae_random env) email password (ed_db st) = (x, d)" by fastforce
  obtain u token where ok: "x = Inr (u, token)"
    using assms(2-4) c x by (cases x) (auto simp: signUp_def writeErr_def writeJSON_def client_status_def Let_def split: if_splits)
  have s: "st' = st\<lparr>ed_db := d\<rparr>" "w' = writeJSON 201 (JObj [(''email'', JStr (u_email u)), (''token'', JStr token)]) w"
    using assms(2) c x ok by (auto simp: signUp_def Let_def)
  have "token \<noteq> []"
    using x ok by (auto simp: SignUp_def Let_def fail_def map_err_Inr ret_def split: option.splits elim!: transaction_Inr and_then_Inr)
  have out: "w_out w' = w_out w @ Encode (JObj [(''email'', JStr (u_email u)), (''token'', JStr token)])"
    using s(2) assms(5) by (simp add: writeJSON_def)
  show ?thesis
  proof (intro exI conjI allI impI)
    show "w_out w' = w_out w @ Encode (JObj [(''email'', JStr (u_email u)), (''token'', JStr token)])" by (rule out)
    fix handle and r2 :: request and w2 and st2 :: edge and d3
    assume a: "evolves (ed_db st') (ed_db st2) \<and> db_wf (ed_db st2) \<and> next_outcome (ed_db st2) = (Done, d3)
      \<and> Header_Get (req_header r2) ''Authorization'' = ''Bearer '' @ token"
    have "UserByToken (ae_platform env) token (ed_db st2) = (Inr u, d3)"
      using token_user [OF assms(1) x [unfolded ok], of "ed_db st2" d3] a s(1) by simp
    then show "withAuth (ae_platform env) handle r2 (w2, st2) = handle r2 u (w2, st2\<lparr>ed_db := d3\<rparr>)"
      using a bearer_of [of r2 token] \<open>token \<noteq> []\<close> by (simp add: withAuth_def Let_def)
  qed
qed

section \<open>Events\<close>

lemma written_status: "w_sent w = None \<Longrightarrow> \<not> informational c \<Longrightarrow> client_status (writeJSON c v w) = c \<and> client_status (writeErr c m w) = c"
  by (simp add: writeErr_def writeJSON_def client_status_def)

lemma statusFor_codes: "statusFor e \<in> {400, 403, 404, 500}"
  by (simp add: statusFor_def)

text \<open>
  A listing shows the caller's own events, all of them and no others. When \<open>GET /api/events\<close> answers 200, the request carries a
  token of the owner of the tunnel it names, and the body is the JSON array of that tunnel's events in the
  state asked for (in any state if none was), in order of receipt; nothing is changed.
\<close>
theorem listing_shows_own_events:
  assumes "mux routes r = Handled EpEvents vs" and "ControlHTTP env r (w, st, al) = (w', st', al')"
    and "w_sent w = None" and "\<not> w_broken w" and "client_status w' = 200"
  shows "\<exists>t \<in> set (db_tunnels (ed_db st)).
      (\<exists>tk \<in> set (db_tokens (ed_db st)). tk_hash tk = hashToken (ae_platform env) (bearer r) \<and> tk_user tk = tn_user t)
      \<and> tn_sub t = query_get (req_query r) ''tunnel'' \<and> same_tables (ed_db st) (ed_db st')
      \<and> w_out w' = w_out w @ Encode (events_json (ae_json_time env)
          (sort_key ev_pos (filter (\<lambda>e. ev_tunnel e = tn_id t \<and> (query_get (req_query r) ''state'' = []
             \<or> state_text (ev_state e) = query_get (req_query r) ''state'')) (db_events (ed_db st)))))"
proof -
  let ?p = "ae_platform env"
  have auth: "withAuth ?p (endpoint_handler env EpEvents vs) r (w, st) = (w', st')"
    using assms(1,2) by (auto simp: ControlHTTP_def split: prod.splits)
  obtain x d where a: "UserByToken ?p (bearer r) (ed_db st) = (x, d)" by fastforce
  have b: "bearer r \<noteq> []" using auth assms(3,5) by (auto simp: withAuth_def written_status)
  obtain u where u: "x = Inr u" using auth a b assms(3,5) by (cases x) (auto simp: withAuth_def Let_def written_status)
  have 1: "same_tables (ed_db st) d" using UserByToken_Inr a u by blast
  have h: "listEvents ?p (ae_json_time env) r u (w, st\<lparr>ed_db := d\<rparr>) = (w', st')"
    using auth a b u by (simp add: withAuth_def Let_def endpoint_handler_def)
  obtain y d1 where t0: "resolveOwnedTunnel r u d = (y, d1)" by fastforce
  obtain t where t: "y = Inr t"
    using h t0 assms(3,5) statusFor_codes [of "projl y"] by (cases y) (auto simp: listEvents_def written_status)
  note t' = resolveOwnedTunnel_Inr [OF t0 [unfolded t]]
  obtain z d2 where l: "ListEvents (tn_id t) (query_get (req_query r) ''state'') d1 = (z, d2)" by fastforce
  obtain es where es: "z = Inr es" using h t0 t l assms(3,5) by (cases z) (auto simp: listEvents_def written_status)
  note l' = ListEvents_Inr [OF l [unfolded es]]
  have w': "w' = writeJSON 200 (events_json (ae_json_time env) es) w" "st' = st\<lparr>ed_db := d2\<rparr>"
    using h t0 t l es by (auto simp: listEvents_def)
  have same: "same_tables (ed_db st) d1" "same_tables (ed_db st) d2" using 1 t' l' same_tables_trans by blast+
  have "w_out w' = w_out w @ Encode (events_json (ae_json_time env) es)" using w'(1) assms(4) by (simp add: writeJSON_def)
  moreover have "es = sort_key ev_pos (filter (\<lambda>e. ev_tunnel e = tn_id t \<and> (query_get (req_query r) ''state'' = []
      \<or> state_text (ev_state e) = query_get (req_query r) ''state'')) (db_events (ed_db st)))"
    using l' same(1) by (simp add: same_tables_def)
  moreover have "\<exists>tk \<in> set (db_tokens (ed_db st)). tk_hash tk = hashToken ?p (bearer r) \<and> tk_user tk = tn_user t"
    using UserByToken_Inr a u t' by metis
  moreover have "t \<in> set (db_tunnels (ed_db st))" using t' 1 by (simp add: same_tables_def)
  ultimately show ?thesis using t' same w'(2) by (intro bexI [of _ t]) simp_all
qed

lemma EventByID_quiet:
  "db_outcomes d = [] \<Longrightarrow> db_wf d \<Longrightarrow> e \<in> set (db_events d) \<Longrightarrow> EventByID (ev_id e) d = (Inr e, d)"
  by (simp add: EventByID_def sql_event_by_id_def find_event)

lemma TunnelByID_quiet:
  assumes "db_outcomes d = []" and "db_wf d" and "t \<in> set (db_tunnels d)"
  shows "TunnelByID (tn_id t) d = (Inr t, d)"
proof -
  have "find (\<lambda>x. tn_id x = tn_id t) (db_tunnels d) = Some t"
    using assms by (intro find_key_Some) (auto simp: wf_defs)
  then show ?thesis using assms(1) by (simp add: TunnelByID_def not_found_def map_err_def sql_tunnel_by_def)
qed

lemma ReplayEvent_requeued: "ReplayEvent (set_requeued e) s = ReplayEvent e s"
proof -
  have a: "ev_id (set_requeued e) = ev_id e" "buildRequest (set_requeued e) = buildRequest e"
    by (simp_all add: set_requeued_def buildRequest_def)
  show ?thesis unfolding ReplayEvent_def a ..
qed

lemma keeps_request_comp: "keeps_request f \<Longrightarrow> keeps_request g \<Longrightarrow> keeps_request (g \<circ> f)"
  by (simp add: keeps_request_def)

text \<open>
  C32. A manual replay. When the database answers and the event is one of the caller's, then, whatever its state (a dead event
  included): with no agent connected the call answers 202, nothing is sent and the event is queued again with its attempts
  reset; with an agent connected the event, with its own method, path, query, headers and body, is the one request sent over the agent's
  session, at once, and when that is answered the call answers 200 with the event
  recorded as delivered, or, for a status of 500 or more, queued again with one attempt; with an agent
  that cannot be reached the call answers 502, nothing is sent and the event is queued again.
\<close>
theorem manual_replay:
  assumes "db_outcomes (ed_db st) = []" and "db_wf (ed_db st)" and "e \<in> set (db_events (ed_db st))"
    and "ParseInt64 raw = Some (ev_id e)" and "t \<in> set (db_tunnels (ed_db st))" and "tn_id t = ev_tunnel e"
    and "tn_user t = u_id u" and "w_sent w = None" and "replayEvent p links raw r u (w, st) = ((w', st'), lk)"
  shows "(Get (tn_sub t) (ed_registry st) = None \<longrightarrow>
        client_status w' = 202 \<and> lk = None \<and> ed_db st' = update_event (ev_id e) set_requeued (ed_db st))
    \<and> (\<forall>sess code xs. Get (tn_sub t) (ed_registry st) = Some sess \<and> lk_script (links sess) = Responds code # xs \<longrightarrow>
        client_status w' = 200 \<and> lk = Some \<lparr>lk_script = xs, lk_sent = lk_sent (links sess) @ [buildRequest e]\<rparr>
        \<and> ed_db st' = update_event (ev_id e) (reply_effect code (db_now (ed_db st)) \<circ> set_requeued) (ed_db st))
    \<and> (\<forall>sess. Get (tn_sub t) (ed_registry st) = Some sess \<and> lk_script (links sess) = [] \<longrightarrow>
        client_status w' = 502 \<and> lk = Some (links sess) \<and> ed_db st' = update_event (ev_id e) set_requeued (ed_db st))"
proof -
  let ?d = "ed_db st" and ?d2 = "update_event (ev_id e) set_requeued (ed_db st)"
  have ev: "EventByID (ev_id e) ?d = (Inr e, ?d)" by (rule EventByID_quiet [OF assms(1-3)])
  have tn: "TunnelByID (ev_tunnel e) ?d = (Inr t, ?d)" using TunnelByID_quiet [OF assms(1,2,5)] assms(6) by simp
  have rq: "RequeueEvent (ev_id e) ?d = (Inr (), ?d2)" using assms(1) by (rule marks_quiet)
  have wf2: "db_wf ?d2" using assms(2) by (rule update_wf) simp_all
  have mem: "set_requeued e \<in> set (db_events ?d2)" using assms(3) by (rule update_event_mem)
  have id: "ev_id (set_requeued e) = ev_id e" by (simp add: set_requeued_def)
  have reply: "ReplayEvent e (lk, ?d2) = ((code, None), \<lparr>lk_script = xs, lk_sent = lk_sent lk @ [buildRequest e]\<rparr>,
      update_event (ev_id e) (reply_effect code (db_now ?d) \<circ> set_requeued) ?d)" if "lk_script lk = Responds code # xs" for lk code xs
    using ReplayEvent_reply [OF _ wf2 mem that] assms(1)
    by (simp add: ReplayEvent_requeued id update_event_update) (simp add: buildRequest_def set_requeued_def)
  have gone: "ReplayEvent e (lk, ?d2) = ((0, Some (ErrText ''session shutdown'')), lk, ?d2)" if "lk_script lk = []" for lk
  proof -
    have "set_requeued \<circ> (set_replaying \<circ> set_requeued) = set_requeued"
      by (simp add: fun_eq_iff set_requeued_def set_replaying_def)
    then show ?thesis using assms(1) that
      by (simp add: ReplayEvent_def marks_quiet OpenStream_def update_event_update keeps_request_comp)
  qed
  show ?thesis
    using assms(4,7-9) ev tn rq reply gone
    by (auto simp: replayEvent_def written_status split: if_splits)
qed

text \<open>
  Guessing passwords is slowed down. When the limiter refuses the client's address, sign-up and login answer 429 with
  \<open>Retry-After: 60\<close> and change nothing but that limiter: no password is compared and no statement reaches the database.
\<close>
theorem throttled_login_changes_nothing:
  assumes "mux routes r = Handled ep vs" and "ep = EpSignup \<or> ep = EpLogin" and "w_sent w = None"
    and "Allow_nil (ae_lib env) (ae_now env) (clientIP r) al = (False, al')"
  shows "\<exists>w'. ControlHTTP env r (w, st, al) = (w', st, al') \<and> client_status w' = 429
    \<and> (\<forall>net. Header_Get (client_header net w') ''Retry-After'' = ''60'')"
proof -
  have c: "CanonicalKey ''Content-Type'' \<noteq> CanonicalKey ''Retry-After''" by code_simp
  let ?w = "writeErr 429 ''too many attempts; try again in a minute'' (w_set ''Retry-After'' ''60'' w)"
  have "ControlHTTP env r (w, st, al) = (?w, st, al')"
    using assms by (auto simp: ControlHTTP_def rateLimitAuth_def)
  moreover have "client_status ?w = 429" using assms(3) by (simp add: written_status)
  moreover have "Header_Get (client_header net ?w) ''Retry-After'' = ''60''" for net
    using assms(3) c by (intro client_retry_after) (simp_all add: writeErr_def writeJSON_def handler_header_def Header_Get_Set)
  ultimately show ?thesis by blast
qed

section \<open>Examples\<close>

definition demo_signup :: request where
  "demo_signup = (demo_call ''POST'' ''/api/signup'' [] [])
     \<lparr>req_body := \<lparr>body_data = Encode (JObj [(''email'', JStr ''a@b.c''), (''password'', JStr ''password'')]), body_err = False\<rparr>\<rparr>"

definition demo_empty_edge :: edge where
  "demo_empty_edge = \<lparr>ed_db = empty_db, ed_redis = demo_redis, ed_registry = NewRegistry\<rparr>"

lemma demo_credentials: "decodeCredentials demo_platform demo_signup = Inr (''a@b.c'', ''password'')"
proof -
  let ?kvs = "[(''email'', JStr ''a@b.c''), (''password'', JStr ''password'')]"
  have "utf8_valid ''a@b.c'' \<and> utf8_valid ''password'' \<and> utf8_valid ''email''" by code_simp
  then have "Decode (req_body demo_signup) = Some (JObj ?kvs)"
    using Decode_Encode [of "JObj ?kvs" "[]" False] by (simp add: demo_signup_def max_depth_def)
  moreover have "string_field ''email'' ?kvs [] = Some ''a@b.c''" "string_field ''password'' ?kvs [] = Some ''password''"
    by code_simp+
  moreover have "utf8_chunks ''a@b.c'' = [(97, ''a''), (64, ''@''), (98, ''b''), (46, ''.''), (99, ''c'')]" by code_simp
  then have "TrimSpace ''a@b.c'' = ''a@b.c''" by (simp add: TrimSpace_def is_space_def)
  moreover have "ToLower (pl_lower demo_platform) ''a@b.c'' = ''a@b.c''" by (simp add: lower_eval)
  moreover have "MatchString emailRE ''a@b.c''" by code_simp
  ultimately show ?thesis
    by (simp add: decodeCredentials_def read_credentials_def object_of_def Let_def minPasswordLen_def)
qed

lemma demo_SignUp: "SignUp demo_platform ''s'' (Some ''r'') ''a@b.c'' ''password'' empty_db
    = (Inr (\<lparr>u_id = 1, u_email = ''a@b.c''\<rparr>, ''lu_72''), demo_user_db)"
  by code_simp

lemma demo_header: "Header_Get [(''Authorization'', [v])] ''Authorization'' = v"
proof -
  have "CanonicalKey ''Authorization'' = ''Authorization''" by code_simp
  then show ?thesis by (simp add: Header_Get_def)
qed

theorem signup_opens_the_api_witness:
  "\<exists>w' u token. signUp (demo_env demo_link) demo_signup (new_writer, demo_empty_edge) = (w', demo_empty_edge\<lparr>ed_db := demo_user_db\<rparr>)
     \<and> (\<forall>handle meth path query. withAuth demo_platform handle (demo_call meth path query token) (new_writer, demo_empty_edge\<lparr>ed_db := demo_user_db\<rparr>)
            = handle (demo_call meth path query token) u (new_writer, demo_empty_edge\<lparr>ed_db := demo_user_db\<rparr>))"
proof -
  let ?st = "demo_empty_edge\<lparr>ed_db := demo_user_db\<rparr>"
  obtain w' where r: "signUp (demo_env demo_link) demo_signup (new_writer, demo_empty_edge) = (w', ?st)"
    and code: "client_status w' = 201"
    using demo_credentials demo_SignUp
    by (auto simp: signUp_def demo_env_def demo_empty_edge_def new_writer_def written_status)
  have q: "next_outcome demo_user_db = (Done, demo_user_db)" by (simp add: demo_user_db_eq empty_db_def)
  from signup_opens_the_api [OF _ r _ code] obtain u token where
    f: "\<forall>handle r2 w2 st2 d3. evolves demo_user_db (ed_db st2) \<and> db_wf (ed_db st2) \<and> next_outcome (ed_db st2) = (Done, d3)
         \<and> Header_Get (req_header r2) ''Authorization'' = ''Bearer '' @ token \<longrightarrow>
         withAuth demo_platform handle r2 (w2, st2) = handle r2 u (w2, st2\<lparr>ed_db := d3\<rparr>)"
    by (auto simp: demo_empty_edge_def db_wf_empty new_writer_def demo_env_def)
  have "withAuth demo_platform handle (demo_call meth path query token) (new_writer, ?st)
      = handle (demo_call meth path query token) u (new_writer, ?st)" for handle meth path query
    using f [rule_format, of ?st demo_user_db "demo_call meth path query token"] demo_user_db_wf q demo_header
    by (simp add: demo_call_def)
  with r show ?thesis by blast
qed

lemma demo_token: "UserByToken demo_platform ''lu_72'' demo_queue_db = (Inr \<lparr>u_id = 1, u_email = ''a@b.c''\<rparr>, demo_queue_db)"
  using token_lookup [OF demo_queue_db_wf, of demo_platform "''lu_72''" 1
      "\<lparr>us_id = 1, us_email = ''a@b.c'', us_password = Some ''spassword''\<rparr>"]
  by (simp add: demo_queue_tables demo_user_db_eq next_outcome_quiet to_user_def)

lemma demo_queue_tunnel: "TunnelBySubdomain ''myapp'' demo_queue_db = (Inr demo_tunnel, demo_queue_db)"
proof -
  have "pg_text ''myapp''" by code_simp
  then show ?thesis using tunnel_by_sub_found [OF demo_queue_db_wf, of demo_tunnel "''myapp''" demo_queue_db]
    by (simp add: demo_queue_tables demo_tunnel_def demo_user_db_eq)
qed

theorem listing_shows_own_events_witness:
  "\<exists>w' st'. ControlHTTP (demo_env demo_link) (demo_call ''GET'' ''/api/events'' ''tunnel=myapp'' ''lu_72'') (new_writer, demo_queue_edge, None)
      = (w', st', None) \<and> w_out w' = Encode (events_json (\<lambda>_. ''T'') [demo_event1, demo_event2])"
proof -
  let ?r = "demo_call ''GET'' ''/api/events'' ''tunnel=myapp'' ''lu_72''"
  have m: "mux routes ?r = Handled EpEvents []" unfolding demo_call_def by code_simp
  have q: "query_get (req_query ?r) ''tunnel'' = ''myapp''" "query_get (req_query ?r) ''state'' = []"
    unfolding demo_call_def by code_simp+
  have own: "resolveOwnedTunnel ?r \<lparr>u_id = 1, u_email = ''a@b.c''\<rparr> demo_queue_db = (Inr demo_tunnel, demo_queue_db)"
    by (simp add: resolveOwnedTunnel_def Let_def q and_then_def demo_queue_tunnel ret_def, simp add: demo_tunnel_def)
  obtain es d where l: "ListEvents 1 [] demo_queue_db = (Inr es, d)"
    by (simp add: ListEvents_def sql_def next_outcome_quiet sql_select_events_def pg_text_def)
  obtain w' st' where r: "ControlHTTP (demo_env demo_link) ?r (new_writer, demo_queue_edge, None) = (w', st', None)"
    and code: "client_status w' = 200"
    using own l by (auto simp: ControlHTTP_def m withAuth_def demo_env_def demo_queue_edge_def demo_token endpoint_handler_def
        listEvents_def q demo_tunnel_def written_status new_writer_def)
  have e: "ev_tunnel demo_event1 = 1 \<and> ev_tunnel demo_event2 = 1 \<and> ev_pos demo_event1 \<le> ev_pos demo_event2"
    unfolding demo_event1_def demo_event2_def by code_simp
  have "w_out w' = Encode (events_json (\<lambda>_. ''T'') (sort_key ev_pos (filter (\<lambda>e. ev_tunnel e = 1) [demo_event1, demo_event2])))"
    using listing_shows_own_events [OF m r _ _ code]
    by (simp add: new_writer_def demo_env_def demo_queue_edge_def demo_queue_tables q demo_tunnel_def demo_events)
  with r show ?thesis by (simp add: e)
qed

lemma demo_event1_id: "ev_id demo_event1 = 1" "ev_tunnel demo_event1 = 1"
  by (simp_all add: demo_event1_def stored_event_def)

definition demo_session_edge :: edge where
  "demo_session_edge = demo_queue_edge\<lparr>ed_registry := Put (session_for 1 ''myapp'' 5) NewRegistry\<rparr>"

theorem manual_replay_witness:
  "(\<exists>w' st' lk. replayEvent demo_platform (\<lambda>_. demo_link) ''1'' demo_signup \<lparr>u_id = 1, u_email = ''a@b.c''\<rparr> (new_writer, demo_queue_edge) = ((w', st'), lk)
       \<and> client_status w' = 202 \<and> ed_db st' = update_event 1 set_requeued demo_queue_db)
   \<and> (\<exists>w' st' lk. replayEvent demo_platform (\<lambda>_. demo_link) ''1'' demo_signup \<lparr>u_id = 1, u_email = ''a@b.c''\<rparr> (new_writer, demo_session_edge) = ((w', st'), lk)
       \<and> client_status w' = 200 \<and> map_option lk_sent lk = Some [buildRequest demo_event1] \<and> ed_db st' = update_event 1 (reply_effect 200 0 \<circ> set_requeued) demo_queue_db)"
proof -
  let ?call = "\<lambda>st. replayEvent demo_platform (\<lambda>_. demo_link) ''1'' demo_signup \<lparr>u_id = 1, u_email = ''a@b.c''\<rparr> (new_writer, st)"
  have i: "ParseInt64 ''1'' = Some (ev_id demo_event1)" unfolding demo_event1_id by code_simp
  have hyps: "db_outcomes demo_queue_db = []" "db_wf demo_queue_db" "demo_event1 \<in> set (db_events demo_queue_db)"
      "demo_tunnel \<in> set (db_tunnels demo_queue_db)" "tn_id demo_tunnel = ev_tunnel demo_event1" "tn_sub demo_tunnel = ''myapp''"
      "tn_user demo_tunnel = u_id \<lparr>u_id = 1, u_email = ''a@b.c''\<rparr>" "w_sent new_writer = None" "Get ''myapp'' NewRegistry = None"
    by (simp_all add: demo_queue_db_wf demo_events demo_queue_tables demo_tunnel_def demo_event1_id new_writer_def Get_def NewRegistry_def)
  obtain w1 st1 lk1 where 1: "?call demo_queue_edge = ((w1, st1), lk1)" by (metis prod.collapse)
  obtain w2 st2 lk2 where 2: "?call demo_session_edge = ((w2, st2), lk2)" by (metis prod.collapse)
  have "client_status w1 = 202 \<and> ed_db st1 = update_event 1 set_requeued demo_queue_db"
    using manual_replay [OF _ _ _ i _ hyps(5) hyps(7) hyps(8) 1] hyps by (simp add: demo_queue_edge_def demo_event1_id)
  moreover have "client_status w2 = 200 \<and> map_option lk_sent lk2 = Some [buildRequest demo_event1] \<and> ed_db st2 = update_event 1 (reply_effect 200 0 \<circ> set_requeued) demo_queue_db"
    using manual_replay [OF _ _ _ i _ hyps(5) hyps(7) hyps(8) 2] hyps
    by (simp add: demo_session_edge_def demo_queue_edge_def demo_event1_id Get_Put session_for_def demo_link_def demo_now)
  ultimately show ?thesis using 1 2 by blast
qed

theorem throttled_login_changes_nothing_witness:
  "\<exists>w' al'. ControlHTTP ((demo_env demo_link)\<lparr>ae_now := 1\<rparr>) demo_signup (new_writer, demo_empty_edge,
       Some \<lparr>il_rps = 1, il_burst = 1, il_idle = 9, il_entries = [''10.0.0.1'' \<mapsto> \<lparr>en_limiter = Some 0, en_seen = 0\<rparr>], il_last = Some 0\<rparr>)
     = (w', demo_empty_edge, al') \<and> client_status w' = 429"
proof -
  let ?lim = "\<lparr>il_rps = 1, il_burst = 1, il_idle = 9, il_entries = [''10.0.0.1'' \<mapsto> \<lparr>en_limiter = Some 0, en_seen = 0\<rparr>], il_last = Some 0\<rparr>
    :: int option ip_limiter"
  have ip: "clientIP demo_signup = ''10.0.0.1''" unfolding demo_signup_def demo_call_def by code_simp
  have m: "mux routes demo_signup = Handled EpSignup []" unfolding demo_signup_def demo_call_def by code_simp
  obtain l where "Allow_nil demo_lib 1 (clientIP demo_signup) (Some ?lim) = (False, l)"
    unfolding ip by (simp add: Allow_nil_def Allow_def sweepLocked_def demo_lib_def)
  then show ?thesis
    using throttled_login_changes_nothing [OF m, of new_writer "(demo_env demo_link)\<lparr>ae_now := 1\<rparr>" "Some ?lim" l demo_empty_edge]
    by (auto simp: new_writer_def demo_env_def)
qed

end
