(* ===== verification/CliCalls.thy ===== *)
theory CliCalls
  imports Cli ApiCalls
begin

text \<open>
  The client against the server: its network is the control API on some state. What the client prints is then a function
  of the tables of the server.
\<close>

section \<open>The network\<close>

text \<open>The request a call arrives as, when the address starts with the one the server listens on.\<close>

definition arriving :: "bytes \<Rightarrow> bytes \<Rightarrow> http_call \<Rightarrow> request option" where
  "arriving base remote call =
     (if \<not> HasPrefix (hc_url call) base then None
      else (case Cut (TrimPrefix (hc_url call) base) (CHR ''?'') of
        (target, query) \<Rightarrow>
          (case unescape False target of
             None \<Rightarrow> None
           | Some path \<Rightarrow> Some \<lparr>req_method = hc_method call, req_host = [], req_path = path,
               req_rawpath = (if escape_path path = target then [] else target), req_query = query,
               req_header = [(''Authorization'', [hc_auth call])], req_body = \<lparr>body_data = [], body_err = False\<rparr>,
               req_remote = remote\<rparr>)))"

definition api_network :: "bytes \<Rightarrow> bytes \<Rightarrow> 'l api_env \<Rightarrow> 'l api_state \<Rightarrow> network" where
  "api_network base remote env s call =
     (case arriving base remote call of
        None \<Rightarrow> Inl ''no such host''
      | Some r \<Rightarrow> (case ControlHTTP env r (new_writer, s) of
          (w, s') \<Rightarrow> Inr (client_status w, \<lparr>body_data = w_out w, body_err = False\<rparr>)))"

lemma arriving_get:
  assumes "unescape False path = Some path" and "escape_path path = path" and "CHR ''?'' \<notin> set path" and "q \<noteq> []"
  shows "arriving base remote \<lparr>hc_method = meth, hc_url = base @ path @ CHR ''?'' # q, hc_auth = auth\<rparr>
    = Some \<lparr>req_method = meth, req_host = [], req_path = path, req_rawpath = [], req_query = q,
        req_header = [(''Authorization'', [auth])], req_body = \<lparr>body_data = [], body_err = False\<rparr>, req_remote = remote\<rparr>"
proof -
  have "takeWhile (\<lambda>x. x \<noteq> CHR ''?'') (path @ CHR ''?'' # q) = path" "dropWhile (\<lambda>x. x \<noteq> CHR ''?'') (path @ CHR ''?'' # q) = CHR ''?'' # q"
    using assms(3) by (simp_all add: takeWhile_append dropWhile_append)
  then show ?thesis using assms(1,2) by (simp add: arriving_def HasPrefix_def TrimPrefix_def Cut_def)
qed

lemma query_get_encoded:
  assumes "kvs \<noteq> []"
  shows "query_get (query_encode kvs) k = (case map_of kvs k of None \<Rightarrow> [] | Some v \<Rightarrow> v)"
  using query_round_trip [OF assms] by (simp add: query_get_def)

section \<open>Events as JSON\<close>

definition row_of :: "(int \<Rightarrow> bytes) \<Rightarrow> event \<Rightarrow> event_row" where
  "row_of tm e = \<lparr>er_id = ev_id e, er_tunnel = ev_tunnel e, er_method = ev_method e, er_path = ev_path e, er_query = ev_query e,
     er_received = tm (ev_received e), er_state = state_text (ev_state e), er_attempts = ev_attempts e, er_last_status = ev_last_status e\<rparr>"

definition int64 :: "int \<Rightarrow> bool" where
  "int64 i = (- (2 ^ 63) \<le> i \<and> i < 2 ^ 63)"

text \<open>What the columns of the events table guarantee: UTF-8 texts and 64-bit numbers.\<close>

definition text_event :: "event \<Rightarrow> bool" where
  "text_event e = (int64 (ev_id e) \<and> int64 (ev_tunnel e) \<and> int64 (ev_attempts e) \<and> int64 (ev_last_status e)
     \<and> utf8_valid (ev_method e) \<and> utf8_valid (ev_path e) \<and> utf8_valid (ev_query e)
     \<and> list_all (\<lambda>(k, vs). utf8_valid k \<and> list_all utf8_valid vs) (ev_headers e))"

lemma event_keys:
  "list_all (\<lambda>f. list_all (\<lambda>k. selects f k = (f = k))
      [''ID'', ''TunnelID'', ''Method'', ''Path'', ''Query'', ''Headers'', ''Body'', ''ReceivedAt'', ''State'', ''Attempts'', ''LastStatus'', ''DeliveredAt''])
    [''ID'', ''TunnelID'', ''Method'', ''Path'', ''Query'', ''ReceivedAt'', ''State'', ''Attempts'', ''LastStatus'']"
  by code_simp

lemma read_event_json: "text_event e \<Longrightarrow> read_event (event_json tm e) = Some (row_of tm e)"
  using event_keys
  by (simp add: read_event_def event_json_def object_of_def JInt_def ParseInt64_Itoa text_event_def int64_def row_of_def)

lemma all_some_map: "list_all (\<lambda>x. f x = Some (g x)) xs \<Longrightarrow> all_some (map f xs) = Some (map g xs)"
  by (induction xs) simp_all

lemma read_events_json: "list_all text_event es \<Longrightarrow> read_events (events_json tm es) = Some (map (row_of tm) es)"
proof -
  assume "list_all text_event es"
  then have "list_all (\<lambda>e. (read_event \<circ> event_json tm) e = Some (row_of tm e)) es"
    by (auto simp: list_all_iff read_event_json)
  from all_some_map [OF this] show ?thesis by (simp add: read_events_def events_json_def comp_def)
qed

lemma base64_ascii: "ascii (base64 bs)"
proof -
  have c: "byte (b64_char n) < (128 :: nat)" if "n < 64" for n
    using that by (auto simp: b64_char_def)
  have b: "byte x < (256 :: nat)" for x :: char by (rule nat_of_char_less_256)
  have d3: "(65536 * byte x + byte y * 256 + byte z) div 262144 < (64 :: nat)" for x y z :: char
    using b [of x] b [of y] b [of z] by (intro less_mult_imp_div_less) linarith
  have d2: "(1024 * byte x + byte y * 4) div 4096 < (64 :: nat)" for x y :: char
    using b [of x] b [of y] by (intro less_mult_imp_div_less) linarith
  have d1: "byte x div 4 < (64 :: nat)" for x :: char
    using b [of x] by (intro less_mult_imp_div_less) linarith
  show ?thesis
    by (induction bs rule: base64.induct) (auto simp: Let_def ascii_def d1 d2 d3 intro!: c)
qed

lemma state_text_ascii: "ascii (state_text st)"
proof -
  have "ascii (state_text EventQueued) \<and> ascii (state_text EventReplaying) \<and> ascii (state_text EventDelivered) \<and> ascii (state_text EventDead)"
    by code_simp
  then show ?thesis by (cases st) simp_all
qed

lemma event_keys_text:
  "list_all utf8_valid [''ID'', ''TunnelID'', ''Method'', ''Path'', ''Query'', ''Headers'', ''Body'', ''ReceivedAt'', ''State'', ''Attempts'', ''LastStatus'', ''DeliveredAt'']"
  by code_simp

lemma foldr_max_le: "(\<And>x. x \<in> set xs \<Longrightarrow> f x \<le> (n :: nat)) \<Longrightarrow> foldr (\<lambda>x. max (f x)) xs 0 \<le> n"
  by (induction xs) auto

lemma foldr_max_snd_le: "list_all (\<lambda>(k, x). f x \<le> (n :: nat)) kvs \<Longrightarrow> foldr (\<lambda>(k, x). max (f x)) kvs 0 \<le> n"
  by (induction kvs) auto

lemma strings_height: "foldr (\<lambda>x. max (height x)) (map JStr ss) 0 = 0"
  by (induction ss) simp_all

lemma headers_plain:
  assumes "list_all (\<lambda>(k, vs). utf8_valid k \<and> list_all utf8_valid vs) h"
  shows "plain_json (JObj (map (\<lambda>(k, vs). (k, JArr (map JStr vs))) (sort_key fst h)))
    \<and> height (JObj (map (\<lambda>(k, vs). (k, JArr (map JStr vs))) (sort_key fst h))) \<le> 2"
proof -
  have "foldr (\<lambda>(k, v). max (height v)) (map (\<lambda>(k, vs). (k, JArr (map JStr vs))) xs) 0 \<le> 1" for xs :: header
    by (rule foldr_max_snd_le) (auto simp: list_all_iff strings_height)
  then show ?thesis using assms by (fastforce simp: list_all_iff)
qed

lemma event_plain:
  assumes "text_event e" and "\<And>t. utf8_valid (tm t)"
  shows "plain_json (event_json tm e) \<and> height (event_json tm e) \<le> 3"
proof -
  obtain H where H: "H = JObj (map (\<lambda>(k, vs). (k, JArr (map JStr vs))) (sort_key fst (ev_headers e)))" by blast
  have h: "plain_json H" "height H \<le> 2" using headers_plain assms(1) by (auto simp: H text_event_def)
  then show ?thesis using assms event_keys_text unfolding event_json_def H [symmetric]
    by (auto simp: JInt_def text_event_def utf8_valid_ascii base64_ascii state_text_ascii split: option.split)
qed

lemma events_plain:
  assumes "list_all text_event es" and "\<And>t. utf8_valid (tm t)"
  shows "plain_json (events_json tm es) \<and> height (events_json tm es) \<le> max_depth"
proof -
  have "foldr (\<lambda>x. max (height x)) (map (event_json tm) es) 0 \<le> 3"
    using assms event_plain by (intro foldr_max_le) (auto simp: list_all_iff)
  then show ?thesis using assms event_plain by (auto simp: events_json_def list_all_iff max_depth_def)
qed

section \<open>What the commands print\<close>

definition client_request :: "bytes \<Rightarrow> bytes \<Rightarrow> bytes \<Rightarrow> bytes \<Rightarrow> bytes \<Rightarrow> request" where
  "client_request meth path q token remote = \<lparr>req_method = meth, req_host = [], req_path = path, req_rawpath = [], req_query = q,
     req_header = [(''Authorization'', [''Bearer '' @ token])], req_body = \<lparr>body_data = [], body_err = False\<rparr>, req_remote = remote\<rparr>"

lemma client_mux:
  "mux routes (client_request ''GET'' ''/api/events'' q token remote) = Handled EpEvents []"
  "mux routes (client_request ''GET'' ''/api/status'' q token remote) = Handled EpStatus []"
  unfolding client_request_def by code_simp+

lemma client_paths:
  "unescape False ''/api/events'' = Some ''/api/events'' \<and> escape_path ''/api/events'' = ''/api/events'' \<and> CHR ''?'' \<notin> set ''/api/events''"
  "unescape False ''/api/status'' = Some ''/api/status'' \<and> escape_path ''/api/status'' = ''/api/status'' \<and> CHR ''?'' \<notin> set ''/api/status''"
  by code_simp+

lemma client_fields [simp]: "req_query (client_request meth path q token remote) = q" "bearer (client_request meth path q token remote) = token"
proof -
  show "req_query (client_request meth path q token remote) = q" by (simp add: client_request_def)
  show "bearer (client_request meth path q token remote) = token"
    by (rule bearer_of) (simp add: client_request_def demo_header)
qed

text \<open>A call whose query is not empty reaches the server as it was meant.\<close>

lemma api_network_get:
  assumes "unescape False path = Some path \<and> escape_path path = path \<and> CHR ''?'' \<notin> set path" and "kvs \<noteq> []"
  shows "api_network base remote env s \<lparr>hc_method = meth, hc_url = base @ path @ CHR ''?'' # query_encode kvs, hc_auth = ''Bearer '' @ token\<rparr>
    = (case ControlHTTP env (client_request meth path (query_encode kvs) token remote) (new_writer, s) of
        (w, s') \<Rightarrow> Inr (client_status w, \<lparr>body_data = w_out w, body_err = False\<rparr>))"
proof -
  have "query_encode kvs \<noteq> []" using assms(2) by (cases kvs rule: query_encode.cases) auto
  then show ?thesis using assms(1) arriving_get [of path "query_encode kvs" base remote meth "''Bearer '' @ token"]
    by (simp add: api_network_def client_request_def)
qed

lemma api_do_get:
  assumes "unescape False path = Some path \<and> escape_path path = path \<and> CHR ''?'' \<notin> set path" and "kvs \<noteq> []"
    and "ControlHTTP env (client_request meth path (query_encode kvs) (ap_token c) remote) (new_writer, s)
      = (writeJSON 200 v new_writer, s')"
  shows "api_do (\<lambda>_. None) (api_network (ap_base c) remote env s) c meth path kvs = Inr (Some (Encode v))"
proof -
  have w: "client_status (writeJSON 200 v new_writer) = 200" "w_out (writeJSON 200 v new_writer) = Encode v"
    by (simp_all add: writeJSON_def new_writer_def client_status_def)
  show ?thesis using assms(2) api_network_get [OF assms(1,2), of "ap_base c" remote env s meth "ap_token c"] assms(3) w
    by (simp add: api_do_def call_url_def Let_def Encode_def)
qed

lemma token_of_owner:
  assumes "db_outcomes d = []" and "db_wf d" and "\<lparr>tk_hash = hashToken P token, tk_user = uid\<rparr> \<in> set (db_tokens d)"
  obtains u where "UserByToken P token d = (Inr u, d)" and "u_id u = uid"
proof -
  obtain r where r: "r \<in> set (db_users d)" "us_id r = uid" using assms(2,3) by (force simp: wf_defs)
  then show thesis using token_lookup [OF assms(2,3) r next_outcome_quiet [OF assms(1)]] that by (simp add: to_user_def)
qed

lemma own_tunnel_resolves:
  assumes "db_outcomes d = []" and "db_wf d" and "t \<in> set (db_tunnels d)" and "tn_sub t \<noteq> []" and "pg_text (tn_sub t)" and "tn_user t = u_id u"
    and "query_get (req_query r) ''tunnel'' = tn_sub t"
  shows "resolveOwnedTunnel r u d = (Inr t, d)"
  using assms tunnel_by_sub_found [OF assms(2,3) refl assms(5) next_outcome_quiet [OF assms(1)]]
  by (simp add: resolveOwnedTunnel_def Let_def and_then_def ret_def)

text \<open>
  C19. \<open>liveurl events list\<close> shows the queue of the server. Run with the credentials of the owner of a tunnel against the control API of a server whose database answers, the command
  prints one line for each buffered event of that tunnel (in the state asked for), in order of receipt, with its
  number, method, path and query, state, attempts and time, or \<open>no events\<close>.
\<close>
theorem events_list_shows_the_queue:
  assumes "Load fs = Inr creds" and "cc_token creds \<noteq> []"
    and "db_outcomes (ed_db st) = []" and "db_wf (ed_db st)" and "t \<in> set (db_tunnels (ed_db st))"
    and "\<lparr>tk_hash = hashToken (ae_platform env) (cc_token creds), tk_user = tn_user t\<rparr> \<in> set (db_tokens (ed_db st))"
    and "tn_sub t \<noteq> []" and "pg_text (tn_sub t)" and "pg_text state"
    and "list_all text_event (db_events (ed_db st))" and "\<And>x. utf8_valid (ae_json_time env x)"
    and "es = sort_key ev_pos (filter (\<lambda>e. ev_tunnel e = tn_id t \<and> (state = [] \<or> state_text (ev_state e) = state)) (db_events (ed_db st)))"
  shows "eventsListCmd (\<lambda>_. None) (api_network (cc_control creds) remote env (st, al)) fs (tn_sub t) state
    = Inr (if es = [] then [''no events'']
           else table_line ''ID'' ''METHOD'' ''PATH'' ''STATE'' ''ATTEMPTS'' ''RECEIVED'' # map (event_line \<circ> row_of (ae_json_time env)) es)"
proof -
  let ?c = "\<lparr>ap_base = cc_control creds, ap_token = cc_token creds\<rparr>" and ?q = "list_query (tn_sub t) state"
  let ?r = "client_request ''GET'' ''/api/events'' (query_encode ?q) (cc_token creds) remote"
  have q: "?q \<noteq> []" "query_get (query_encode ?q) ''tunnel'' = tn_sub t" "query_get (query_encode ?q) ''state'' = state"
    by (simp_all add: list_query_def query_get_encoded)
  obtain u where u: "UserByToken (ae_platform env) (cc_token creds) (ed_db st) = (Inr u, ed_db st)" "u_id u = tn_user t"
    by (rule token_of_owner [OF assms(3,4,6)])
  have own: "resolveOwnedTunnel ?r u (ed_db st) = (Inr t, ed_db st)"
    using assms(3-5,7,8) u(2) q(2) by (intro own_tunnel_resolves) simp_all
  have l: "ListEvents (tn_id t) state (ed_db st) = (Inr es, ed_db st)"
    using assms(3,9,12) by (simp add: ListEvents_def sql_def sql_select_events_def)
  have "ControlHTTP env ?r (new_writer, st, al) = (writeJSON 200 (events_json (ae_json_time env) es) new_writer, st, al)"
    using u(1) own l assms(2) q(3)
    by (simp add: ControlHTTP_def client_mux withAuth_def endpoint_handler_def listEvents_def Let_def)
  then have "api_do (\<lambda>_. None) (api_network (cc_control creds) remote env (st, al)) ?c ''GET'' ''/api/events'' ?q
      = Inr (Some (Encode (events_json (ae_json_time env) es)))"
    using api_do_get [OF client_paths(1) q(1), of env "''GET''" ?c remote "(st, al)" "events_json (ae_json_time env) es" "(st, al)"] by simp
  moreover have "list_all text_event es" using assms(10,12) by (auto simp: list_all_iff)
  then have "Option.bind (Unmarshal (Encode (events_json (ae_json_time env) es))) read_events = Some (map (row_of (ae_json_time env)) es)"
    using events_plain [of es "ae_json_time env"] assms(11) by (simp add: Unmarshal_Encode read_events_json)
  ultimately show ?thesis using assms(1,2) by (simp add: eventsListCmd_def newAPIClient_def api_get_def)
qed

lemma status_keys:
  "list_all (\<lambda>f. list_all (\<lambda>k. selects f k = (f = k))
      [''online'', ''queued_events'', ''snapshot_bytes'', ''snapshot_pages'', ''subdomain''])
    [''online'', ''queued_events'', ''snapshot_bytes'', ''snapshot_pages'', ''subdomain'']"
  by code_simp

lemma read_status_json:
  assumes "int64 (int n)" and "int64 pages" and "int64 nbytes"
  shows "read_status (status_json sub up n pages nbytes)
    = Some \<lparr>st_subdomain = sub, st_online = up, st_queued = int n, st_pages = pages, st_bytes = nbytes\<rparr>"
  using status_keys assms by (simp add: read_status_def status_json_def object_of_def JInt_def ParseInt64_Itoa int64_def)

lemma status_plain: "utf8_valid sub \<Longrightarrow> plain_json (status_json sub up n pages nbytes) \<and> height (status_json sub up n pages nbytes) \<le> max_depth"
proof -
  assume "utf8_valid sub"
  moreover have "list_all utf8_valid [''online'', ''queued_events'', ''snapshot_bytes'', ''snapshot_pages'', ''subdomain'']" by code_simp
  ultimately show ?thesis by (auto simp: status_json_def JInt_def max_depth_def)
qed

text \<open>
  C31. \<open>liveurl status\<close> reports what the server holds. When the caller is logged in as the owner of the tunnel and the database answers, it prints
  how many of the tunnel's events are queued, how many pages and bytes of it are cached, and its state: \<open>ONLINE\<close> exactly when Redis answers and
  the presence key of the name is set and has not expired at that time, \<open>OFFLINE\<close> otherwise, so also
  when Redis does not answer.
\<close>
theorem status_shows_the_tunnel:
  assumes "Load fs = Inr creds" and "cc_token creds \<noteq> []"
    and "db_outcomes (ed_db st) = []" and "db_wf (ed_db st)" and "t \<in> set (db_tunnels (ed_db st))"
    and "\<lparr>tk_hash = hashToken (ae_platform env) (cc_token creds), tk_user = tn_user t\<rparr> \<in> set (db_tokens (ed_db st))"
    and "tn_sub t \<noteq> []" and "pg_text (tn_sub t)" and "utf8_valid (tn_sub t)"
    and "queued = filter (\<lambda>e. ev_tunnel e = tn_id t \<and> ev_state e = EventQueued) (db_events (ed_db st))"
    and "int64 (int (length queued))" and "int64 (int (length (snaps_of (tn_id t) (ed_db st))))" and "int64 (snap_total (tn_id t) (ed_db st))"
    and "up \<longleftrightarrow> fst (redis_next (ed_redis st)) = Done
      \<and> (\<exists>expiry. rd_keys (ed_redis st) (''presence:'' @ tn_sub t) = Some expiry \<and> snd (redis_next (ed_redis st)) < expiry)"
  shows "statusCmd (\<lambda>_. None) (api_network (cc_control creds) remote env (st, al)) fs (tn_sub t)
    = Inr [''tunnel:          '' @ tn_sub t, ''state:           '' @ (if up then ''ONLINE'' else ''OFFLINE''),
        ''queued events:   '' @ Itoa (int (length queued)),
        ''snapshot pages:  '' @ Itoa (int (length (snaps_of (tn_id t) (ed_db st)))),
        ''snapshot bytes:  '' @ Itoa (snap_total (tn_id t) (ed_db st))]"
proof -
  let ?d = "ed_db st" and ?c = "\<lparr>ap_base = cc_control creds, ap_token = cc_token creds\<rparr>" and ?q = "[(''tunnel'', tn_sub t)]"
  let ?r = "client_request ''GET'' ''/api/status'' (query_encode ?q) (cc_token creds) remote"
  let ?v = "status_json (tn_sub t) (fst (fst (IsOnline (tn_sub t) (ed_redis st)))) (length queued)
      (int (length (snaps_of (tn_id t) ?d))) (snap_total (tn_id t) ?d)"
  have q: "?q \<noteq> []" by simp
  have q2: "query_get (query_encode ?q) ''tunnel'' = tn_sub t" using query_get_encoded [OF q, of "''tunnel''"] by simp
  obtain u where u: "UserByToken (ae_platform env) (cc_token creds) ?d = (Inr u, ?d)" "u_id u = tn_user t"
    by (rule token_of_owner [OF assms(3,4,6)])
  have own: "resolveOwnedTunnel ?r u ?d = (Inr t, ?d)"
    using assms(3-5,7,8) u(2) q2 by (intro own_tunnel_resolves) simp_all
  have qs: "pg_text (state_text EventQueued) \<and> state_text EventQueued \<noteq> []" by code_simp
  have st: "state_text s = state_text EventQueued \<longleftrightarrow> s = EventQueued" for s by (cases s) (simp_all add: state_text_def)
  have l: "ListEvents (tn_id t) (state_text EventQueued) ?d = (Inr (sort_key ev_pos queued), ?d)"
    using assms(3,10) qs by (simp add: ListEvents_def sql_def sql_select_events_def st)
  have ss: "SnapshotStats (tn_id t) ?d = (Inr (int (length (snaps_of (tn_id t) ?d)), snap_total (tn_id t) ?d), ?d)"
    using assms(3) by (simp add: SnapshotStats_def sql_def)
  obtain rd where rd: "ControlHTTP env ?r (new_writer, st, al) = (writeJSON 200 ?v new_writer, st\<lparr>ed_redis := rd\<rparr>, al)"
    using u(1) own l ss assms(2)
    by (cases "IsOnline (tn_sub t) (ed_redis st)") (auto simp: ControlHTTP_def client_mux withAuth_def endpoint_handler_def status_def Let_def)
  have "api_do (\<lambda>_. None) (api_network (cc_control creds) remote env (st, al)) ?c ''GET'' ''/api/status'' ?q = Inr (Some (Encode ?v))"
    using api_do_get [OF client_paths(2) q, of env "''GET''" ?c remote "(st, al)"] rd by simp
  moreover have "Option.bind (Unmarshal (Encode ?v)) read_status = Some \<lparr>st_subdomain = tn_sub t, st_online = fst (fst (IsOnline (tn_sub t) (ed_redis st))),
      st_queued = int (length queued), st_pages = int (length (snaps_of (tn_id t) ?d)), st_bytes = snap_total (tn_id t) ?d\<rparr>"
    using status_plain [OF assms(9)] assms(11-13) by (simp add: Unmarshal_Encode read_status_json)
  ultimately show ?thesis using assms(1,2) IsOnline_says [of "tn_sub t" "ed_redis st"] assms(14)
    by (simp add: statusCmd_def newAPIClient_def api_get_def status_lines_def)
qed

section \<open>An example session\<close>

text \<open>The credentials saved by \<open>login\<close> in the example home directory.\<close>

definition demo_logged_in :: user_fs where
  "demo_logged_in = snd (Save demo_login demo_home)"

lemma demo_loads: "Load demo_logged_in = Inr demo_login"
proof -
  obtain fs' where "Save demo_login demo_home = (None, fs')"
    using demo_config_path by (simp add: Save_def demo_home_def config_dir_def Let_def)
  moreover have "text_config demo_login" by code_simp
  ultimately show ?thesis using demo_config_path
    by (auto simp: demo_logged_in_def Save_def Load_def demo_home_def config_back config_path_def config_dir_def Let_def split: sum.splits)
qed

lemma demo_text_events: "list_all text_event (db_events demo_queue_db)"
  unfolding demo_events demo_event1_def demo_event2_def by code_simp

lemma demo_owner:
  "demo_tunnel \<in> set (db_tunnels (ed_db demo_queue_edge))" "tn_sub demo_tunnel = ''myapp''" "cc_token demo_login = ''lu_72''"
  "\<lparr>tk_hash = hashToken (ae_platform (demo_env demo_link)) (cc_token demo_login), tk_user = tn_user demo_tunnel\<rparr> \<in> set (db_tokens (ed_db demo_queue_edge))"
  "db_outcomes (ed_db demo_queue_edge) = []" "db_wf (ed_db demo_queue_edge)"
  by (simp_all add: demo_queue_edge_def demo_queue_tables demo_tunnel_def demo_env_def demo_login_def demo_queue_db_wf)

lemma demo_texts: "pg_text ''myapp''" "pg_text []" "utf8_valid ''myapp''" "utf8_valid ''T''"
  by code_simp+

theorem events_list_shows_the_queue_witness:
  "eventsListCmd (\<lambda>_. None) (api_network (cc_control demo_login) ''10.0.0.1:999'' (demo_env demo_link) (demo_queue_edge, None)) demo_logged_in ''myapp'' []
    = Inr [''ID     METHOD PATH                           STATE      ATTEMPTS RECEIVED'',
           ''1      POST   /a                             queued     0        T'',
           ''2      PUT    /b?q=1                         queued     0        T'']"
proof -
  have e: "sort_key ev_pos (filter (\<lambda>e. ev_tunnel e = 1) [demo_event1, demo_event2]) = [demo_event1, demo_event2]"
    unfolding demo_event1_def demo_event2_def by code_simp
  have t: "ae_json_time (demo_env demo_link) = (\<lambda>_. ''T'')" by (simp add: demo_env_def)
  have lines: "table_line ''ID'' ''METHOD'' ''PATH'' ''STATE'' ''ATTEMPTS'' ''RECEIVED'' = ''ID     METHOD PATH                           STATE      ATTEMPTS RECEIVED''"
    "event_line (row_of (\<lambda>_. ''T'') demo_event1) = ''1      POST   /a                             queued     0        T''"
    "event_line (row_of (\<lambda>_. ''T'') demo_event2) = ''2      PUT    /b?q=1                         queued     0        T''"
    unfolding demo_event1_def demo_event2_def by code_simp+
  show ?thesis
    using events_list_shows_the_queue [OF demo_loads _ demo_owner(5,6,1,4) _ _ demo_texts(2) _ _ refl, of "''10.0.0.1:999''" None]
    by (simp add: demo_owner(2,3) demo_texts demo_text_events [unfolded demo_events, simplified] t demo_queue_edge_def demo_events e lines demo_tunnel_def del: filter.simps)
qed

text \<open>The agent's last heartbeat is five seconds old; and the same with Redis unreachable.\<close>

definition demo_live_redis :: redis where
  "demo_live_redis = \<lparr>rd_keys = [''presence:myapp'' \<mapsto> 15000000], rd_now = 5000000, rd_outcomes = []\<rparr>"

definition demo_presence_edge :: "redis \<Rightarrow> edge" where
  "demo_presence_edge rd = demo_queue_edge\<lparr>ed_redis := rd\<rparr>"

lemma demo_presence_owner:
  "demo_tunnel \<in> set (db_tunnels (ed_db (demo_presence_edge rd)))"
  "\<lparr>tk_hash = hashToken (ae_platform (demo_env demo_link)) (cc_token demo_login), tk_user = tn_user demo_tunnel\<rparr> \<in> set (db_tokens (ed_db (demo_presence_edge rd)))"
  "db_outcomes (ed_db (demo_presence_edge rd)) = []" "db_wf (ed_db (demo_presence_edge rd))"
  using demo_owner by (simp_all add: demo_presence_edge_def)

theorem status_shows_the_tunnel_witness:
  "statusCmd (\<lambda>_. None) (api_network (cc_control demo_login) ''10.0.0.1:999'' (demo_env demo_link) (demo_presence_edge demo_live_redis, None)) demo_logged_in ''myapp''
    = Inr [''tunnel:          myapp'', ''state:           ONLINE'', ''queued events:   2'', ''snapshot pages:  0'', ''snapshot bytes:  0'']
   \<and> statusCmd (\<lambda>_. None) (api_network (cc_control demo_login) ''10.0.0.1:999'' (demo_env demo_link)
        (demo_presence_edge (demo_live_redis\<lparr>rd_outcomes := [(1, NotDone ''i/o timeout'')]\<rparr>), None)) demo_logged_in ''myapp''
    = Inr [''tunnel:          myapp'', ''state:           OFFLINE'', ''queued events:   2'', ''snapshot pages:  0'', ''snapshot bytes:  0'']"
proof -
  have s: "db_snaps demo_queue_db = []" unfolding demo_queue_db_def demo_db_eq demo_user_db_eq by code_simp
  have e: "filter (\<lambda>e. ev_tunnel e = 1 \<and> ev_state e = EventQueued) [demo_event1, demo_event2] = [demo_event1, demo_event2]"
    unfolding demo_event1_def demo_event2_def by code_simp
  have n: "Itoa 0 = ''0''" "Itoa 2 = ''2''" by code_simp+
  have "statusCmd (\<lambda>_. None) (api_network (cc_control demo_login) ''10.0.0.1:999'' (demo_env demo_link) (demo_presence_edge rd, None)) demo_logged_in ''myapp''
    = Inr [''tunnel:          myapp'', ''state:           '' @ (if up then ''ONLINE'' else ''OFFLINE''), ''queued events:   2'', ''snapshot pages:  0'', ''snapshot bytes:  0'']"
    if "up \<longleftrightarrow> fst (redis_next rd) = Done \<and> (\<exists>expiry. rd_keys rd ''presence:myapp'' = Some expiry \<and> snd (redis_next rd) < expiry)" for up rd
    using status_shows_the_tunnel [OF demo_loads _ demo_presence_owner(3,4,1,2) _ _ _ refl, of rd up "''10.0.0.1:999''" None] that
    by (simp add: demo_owner(2,3) demo_texts demo_presence_edge_def demo_queue_edge_def demo_events e demo_tunnel_def snaps_of_def snap_total_def s int64_def n
        del: filter.simps)
  from this [of True demo_live_redis] this [of False "demo_live_redis\<lparr>rd_outcomes := [(1, NotDone ''i/o timeout'')]\<rparr>"]
  show ?thesis by (simp add: demo_live_redis_def redis_next_def)
qed

end
