(* ===== verification/Migrate.thy ===== *)
theory Migrate
  imports Db "HOL-Library.List_Lexorder" "HOL-Library.Char_ord" "HOL-Library.Sublist"
begin

text \<open>
  \<open>internal/store/store.go\<close>: applying the embedded migrations. The state is what the database has of them: whether the table
  \<open>schema_migrations\<close> exists, the versions in it, and the scripts whose effects were committed, in order. Each statement
  on the connection takes the next of a list of outcomes; the advisory lock keeps other processes away between them.
\<close>

section \<open>The connection\<close>

datatype ddl_outcome = Succeeds | Fails bytes | Unknown bytes   \<comment> \<open>\<open>Unknown\<close>: carried out, but reported as an error\<close>

record schema =
  sm_table :: bool
  sm_versions :: "bytes list"
  sm_scripts :: "bytes list"
  sm_outcomes :: "ddl_outcome list"

definition next_ddl :: "schema \<Rightarrow> ddl_outcome \<times> schema" where
  "next_ddl s = (case sm_outcomes s of [] \<Rightarrow> (Succeeds, s) | x # xs \<Rightarrow> (x, s\<lparr>sm_outcomes := xs\<rparr>))"

definition create_table :: "schema \<Rightarrow> go_error option \<times> schema" where
  "create_table s =
     (case next_ddl s of
        (Succeeds, s1) \<Rightarrow> (None, s1\<lparr>sm_table := True\<rparr>)
      | (Fails m, s1) \<Rightarrow> (Some (ErrText m), s1)
      | (Unknown m, s1) \<Rightarrow> (Some (ErrText m), s1\<lparr>sm_table := True\<rparr>))"

text \<open>A statement of which only success matters.\<close>

definition exec :: "schema \<Rightarrow> go_error option \<times> schema" where
  "exec s =
     (case next_ddl s of
        (Succeeds, s1) \<Rightarrow> (None, s1)
      | (Fails m, s1) \<Rightarrow> (Some (ErrText m), s1)
      | (Unknown m, s1) \<Rightarrow> (Some (ErrText m), s1))"

text \<open>\<open>Commit\<close>: the script's effects and the version appear together.\<close>

definition commit :: "bytes \<Rightarrow> bytes \<Rightarrow> schema \<Rightarrow> go_error option \<times> schema" where
  "commit name script s =
     (let done = (\<lambda>s1. s1\<lparr>sm_versions := sm_versions s1 @ [name], sm_scripts := sm_scripts s1 @ [script]\<rparr>) in
      case next_ddl s of
        (Succeeds, s1) \<Rightarrow> (None, done s1)
      | (Fails m, s1) \<Rightarrow> (Some (ErrText m), s1)
      | (Unknown m, s1) \<Rightarrow> (Some (ErrText m), done s1))"

section \<open>Migrate\<close>

type_synonym files = "(bytes \<times> bytes) list"

definition apply_migration :: "bytes \<Rightarrow> bytes \<Rightarrow> schema \<Rightarrow> go_error option \<times> schema" where
  "apply_migration name script s =
     (case exec s of
        (Some e, s1) \<Rightarrow> (Some e, s1)
      | (None, s1) \<Rightarrow>
          if name \<in> set (sm_versions s1) then (None, s1)
          else (case exec s1 of
             (Some e, s2) \<Rightarrow> (Some e, s2)
           | (None, s2) \<Rightarrow>
               (case exec s2 of
                  (Some e, s3) \<Rightarrow> (Some (Wrap (''apply migration '' @ name) e), snd (exec s3))
                | (None, s3) \<Rightarrow>
                    (case exec s3 of
                       (Some e, s4) \<Rightarrow> (Some e, snd (exec s4))
                     | (None, s4) \<Rightarrow> commit name script s4))))"

fun apply_all :: "files \<Rightarrow> schema \<Rightarrow> go_error option \<times> schema" where
  "apply_all [] s = (None, s)"
| "apply_all ((name, script) # rest) s =
     (case apply_migration name script s of
        (Some e, s1) \<Rightarrow> (Some e, s1)
      | (None, s1) \<Rightarrow> apply_all rest s1)"

definition Migrate :: "files \<Rightarrow> schema \<Rightarrow> go_error option \<times> schema" where
  "Migrate files s =
     (case exec s of
        (Some e, s1) \<Rightarrow> (Some e, s1)
      | (None, s1) \<Rightarrow>
          (case exec s1 of
             (Some e, s2) \<Rightarrow> (Some e, s2)
           | (None, s2) \<Rightarrow>
               (case create_table s2 of
                  (Some e, s3) \<Rightarrow> (Some e, snd (exec s3))
                | (None, s3) \<Rightarrow>
                    (case apply_all (sort_key fst files) s3 of (r, s4) \<Rightarrow> (r, snd (exec s4))))))"

section \<open>What a run does\<close>

text \<open>The first \<open>n\<close> of the sorted migrations are applied, each once and in order.\<close>

definition applied_upto :: "files \<Rightarrow> nat \<Rightarrow> schema \<Rightarrow> bool" where
  "applied_upto fs n s = (n \<le> length fs \<and> sm_versions s = map fst (take n fs) \<and> sm_scripts s = map snd (take n fs))"

lemma next_ddl_same: "next_ddl s = (x, s1) \<Longrightarrow> sm_versions s1 = sm_versions s \<and> sm_scripts s1 = sm_scripts s"
  by (auto simp: next_ddl_def split: list.splits)

lemma exec_same: "exec s = (r, s1) \<Longrightarrow> sm_versions s1 = sm_versions s \<and> sm_scripts s1 = sm_scripts s"
  by (auto simp: exec_def dest: next_ddl_same split: prod.splits ddl_outcome.splits)

lemma exec_upto [simp]: "applied_upto fs n (snd (exec s)) = applied_upto fs n s"
  using exec_same [of s "fst (exec s)" "snd (exec s)"] by (simp add: applied_upto_def)

lemma exec_upto': "exec s = (r, s1) \<Longrightarrow> applied_upto fs n s1 = applied_upto fs n s"
  using exec_upto [of fs n s] by simp

lemma create_table_upto: "create_table s = (r, s1) \<Longrightarrow> applied_upto fs n s1 = applied_upto fs n s"
  by (auto simp: create_table_def applied_upto_def dest!: next_ddl_same split: prod.splits ddl_outcome.splits)

lemma commit_upto:
  assumes "commit name script s = (r, s1)" and "applied_upto fs n s" and "n < length fs" and "fs ! n = (name, script)"
  shows "applied_upto fs (Suc n) s1 \<or> r \<noteq> None \<and> applied_upto fs n s1"
  using assms
  by (auto simp: commit_def Let_def applied_upto_def take_Suc_conv_app_nth dest!: next_ddl_same split: prod.splits ddl_outcome.splits)

lemma apply_next:
  assumes "apply_migration name script s = (r, s1)" and "distinct (map fst fs)" and "applied_upto fs n s" and "n < length fs"
    and "fs ! n = (name, script)"
  shows "applied_upto fs (Suc n) s1 \<or> r \<noteq> None \<and> applied_upto fs n s1"
proof -
  have new: "name \<notin> set (sm_versions s2)" if "applied_upto fs n s2" for s2
  proof
    assume "name \<in> set (sm_versions s2)"
    then have "name \<in> set (map fst (take n fs))" using that by (simp add: applied_upto_def)
    then obtain i where "i < n" "fst (fs ! i) = name" using assms(4) by (auto simp: in_set_conv_nth)
    then show False using assms(2,4,5) nth_eq_iff_index_eq [of "map fst fs" i n] by simp
  qed
  show ?thesis
    using assms(1,3) new commit_upto [OF _ _ assms(4,5)]
    by (fastforce simp: apply_migration_def exec_upto' split: prod.splits option.splits if_splits)
qed

lemma apply_earlier:
  assumes "apply_migration name script s = (r, s1)" and "applied_upto fs n s" and "i < n" and "fs ! i = (name, script)"
  shows "applied_upto fs n s1"
proof -
  have old: "name \<in> set (sm_versions s2)" if "applied_upto fs n s2" for s2
    using that assms(3,4) by (force simp: applied_upto_def in_set_conv_nth)
  show ?thesis
    using assms(1,2) old by (auto simp: apply_migration_def exec_upto' split: prod.splits option.splits if_splits)
qed

lemma apply_all_upto:
  assumes "distinct (map fst fs)" and "applied_upto fs n s" and "i \<le> length fs" and "apply_all (drop i fs) s = (r, s1)" and "i \<le> n"
  shows "\<exists>m \<ge> n. applied_upto fs m s1 \<and> (r = None \<longrightarrow> m = length fs)"
  using assms(2-5)
proof (induction "length fs - i" arbitrary: i n s)
  case 0
  then have "i = length fs" by simp
  then have "n = length fs" "s1 = s" using 0 by (auto simp: applied_upto_def)
  then show ?case using 0 by blast
next
  case (Suc k)
  then have i: "i < length fs" by simp
  obtain name script where f: "fs ! i = (name, script)" by fastforce
  then have d: "drop i fs = (name, script) # drop (Suc i) fs" using i by (metis Cons_nth_drop_Suc)
  obtain q s2 where q: "apply_migration name script s = (q, s2)" by fastforce
  have step: "\<exists>m \<ge> n. applied_upto fs m s2 \<and> (q = None \<longrightarrow> Suc i \<le> m)"
  proof (cases "i < n")
    case True
    then show ?thesis using apply_earlier [OF q Suc.prems(1) True f] by auto
  next
    case False
    then have "i = n" using Suc.prems by simp
    then have "applied_upto fs (Suc n) s2 \<or> q \<noteq> None \<and> applied_upto fs n s2"
      using apply_next [OF q assms(1) Suc.prems(1)] i f by simp
    then show ?thesis
    proof
      assume "applied_upto fs (Suc n) s2"
      then show ?thesis using \<open>i = n\<close> by (intro exI [of _ "Suc n"]) simp
    qed auto
  qed
  then obtain m where m: "n \<le> m" "applied_upto fs m s2" "q = None \<longrightarrow> Suc i \<le> m" by blast
  show ?case
  proof (cases q)
    case (Some e)
    then show ?thesis using Suc.prems(3) d q m by auto
  next
    case None
    have k: "k = length fs - Suc i" using Suc.hyps(2) by simp
    have "apply_all (drop (Suc i) fs) s2 = (r, s1)" using Suc.prems(3) d q None by simp
    then obtain m' where "m \<le> m'" "applied_upto fs m' s1 \<and> (r = None \<longrightarrow> m' = length fs)"
      using Suc.hyps(1) [OF k m(2)] m(3) None i by auto
    then show ?thesis using m(1) by (intro exI [of _ m']) simp
  qed
qed

lemma Migrate_upto:
  assumes "distinct (map fst files)" and "applied_upto (sort_key fst files) n s" and "Migrate files s = (r, s')"
  shows "\<exists>m \<ge> n. applied_upto (sort_key fst files) m s' \<and> (r = None \<longrightarrow> m = length files)"
proof -
  let ?fs = "sort_key fst files"
  have d: "distinct (map fst ?fs)" using assms(1) by (simp add: distinct_map inj_on_def)
  have all: "\<exists>m \<ge> n. applied_upto ?fs m s2 \<and> (q = None \<longrightarrow> m = length files)"
    if "applied_upto ?fs n s1" "apply_all ?fs s1 = (q, s2)" for s1 s2 q
    using apply_all_upto [OF d that(1), of 0] that(2) by simp
  show ?thesis
  proof (cases "\<exists>s1 s2 s3. exec s = (None, s1) \<and> exec s1 = (None, s2) \<and> create_table s2 = (None, s3)")
    case True
    then obtain s1 s2 s3 where c: "exec s = (None, s1)" "exec s1 = (None, s2)" "create_table s2 = (None, s3)" by blast
    obtain q s4 where q: "apply_all ?fs s3 = (q, s4)" by fastforce
    have "applied_upto ?fs n s3" using assms(2) c by (simp add: exec_upto' create_table_upto)
    from all [OF this q] show ?thesis using assms(3) c q by (auto simp: Migrate_def)
  next
    case False
    then have "r \<noteq> None \<and> applied_upto ?fs n s'"
      using assms(2,3) by (auto simp: Migrate_def exec_upto' create_table_upto split: prod.splits option.splits)
    then show ?thesis by auto
  qed
qed

text \<open>
  Every run keeps the invariant, whatever is running next to it and whatever happened before: the contract of \<open>invariant_ops\<close> for the operation
  ``run \<open>Migrate\<close> with these outcomes''.
\<close>

definition attempt_migrate :: "files \<Rightarrow> ddl_outcome list \<Rightarrow> schema \<Rightarrow> schema" where
  "attempt_migrate files outs s = snd (Migrate files (s\<lparr>sm_outcomes := outs\<rparr>))"

definition new_schema :: schema where
  "new_schema = \<lparr>sm_table = False, sm_versions = [], sm_scripts = [], sm_outcomes = []\<rparr>"

definition in_order :: "files \<Rightarrow> schema \<Rightarrow> bool" where
  "in_order files s = (\<exists>n. applied_upto (sort_key fst files) n s)"

lemma attempt_in_order: "distinct (map fst files) \<Longrightarrow> in_order files s \<Longrightarrow> in_order files (attempt_migrate files outs s)"
proof -
  assume d: "distinct (map fst files)" and "in_order files s"
  then obtain n where "applied_upto (sort_key fst files) n (s\<lparr>sm_outcomes := outs\<rparr>)" by (auto simp: in_order_def applied_upto_def)
  from Migrate_upto [OF d this] show ?thesis
    unfolding in_order_def attempt_migrate_def by (metis prod.collapse)
qed

interpretation upgrades: invariant_ops "attempt_migrate files" "\<lambda>_. True" "\<lambda>s. distinct (map fst files) \<and> in_order files s" for files
  by unfold_locales (use attempt_in_order in blast)

text \<open>
  C17. Migrations run once each, in order, and an interrupted upgrade is resumed. After any number of runs of \<open>Migrate\<close> on a new database, each
  with any statement of it failing or left in doubt, the scripts whose effects are in the database are an initial
  segment of all scripts in the order of their file names, the recorded versions are exactly theirs, and a run that reports no
  error has completed them.
\<close>
theorem migrations_apply_once_in_order:
  assumes "distinct (map fst files)" and "s = fold (attempt_migrate files) runs new_schema"
  shows "prefix (sm_scripts s) (map snd (sort_key fst files)) \<and> sm_versions s = take (length (sm_scripts s)) (map fst (sort_key fst files))
    \<and> (fst (Migrate files s) = None \<longrightarrow> sm_scripts (snd (Migrate files s)) = map snd (sort_key fst files))"
proof -
  let ?fs = "sort_key fst files"
  have "applied_upto ?fs 0 new_schema" by (simp add: applied_upto_def new_schema_def)
  then have "in_order files new_schema" by (auto simp: in_order_def)
  then have "in_order files s" using upgrades.ops_inv [of runs files new_schema] assms by (simp add: list_all_iff)
  then obtain n where n: "applied_upto ?fs n s" by (auto simp: in_order_def)
  have "prefix (map snd (take n ?fs)) (map snd ?fs)" by (metis append_take_drop_id map_append prefixI)
  moreover have "\<exists>m \<ge> n. applied_upto ?fs m (snd (Migrate files s)) \<and> (fst (Migrate files s) = None \<longrightarrow> m = length files)"
    using Migrate_upto [OF assms(1) n, of "fst (Migrate files s)"] by simp
  ultimately show ?thesis using n by (auto simp: applied_upto_def take_map)
qed

text \<open>The first run loses its connection while the second script is applied; the next one finishes the upgrade.\<close>

definition demo_files :: files where
  "demo_files = [(''0002_password_auth.sql'', ''ALTER''), (''0001_init.sql'', ''CREATE'')]"

definition demo_schema :: schema where
  "demo_schema = fold (attempt_migrate demo_files)
     [[Succeeds, Succeeds, Succeeds, Succeeds, Succeeds, Succeeds, Succeeds, Unknown ''conn closed'', Fails ''conn closed'']] new_schema"

theorem migrations_apply_once_in_order_witness:
  "sm_scripts demo_schema = [''CREATE''] \<and> fst (Migrate demo_files demo_schema) = None
   \<and> sm_scripts (snd (Migrate demo_files demo_schema)) = [''CREATE'', ''ALTER'']"
proof -
  have d: "distinct (map fst demo_files)" by code_simp
  have e: "sm_scripts demo_schema = [''CREATE''] \<and> fst (Migrate demo_files demo_schema) = None" by code_simp
  have "map snd (sort_key fst demo_files) = [''CREATE'', ''ALTER'']" by code_simp
  then show ?thesis
    using migrations_apply_once_in_order [OF d demo_schema_def] e by auto
qed

end
