(* ===== verification/StoreOps.thy ===== *)
theory StoreOps
  imports StoreUsers StoreTunnels StoreEvents StoreSnapshots
begin

text \<open>
  The store as a whole: every operation the rest of the program can call is a constructor of \<open>store_op\<close>, and what holds after any
  history of them, whatever the database answers to each statement, is an instance of the locale \<open>invariant_ops\<close>.
\<close>

section \<open>Histories\<close>

datatype store_op =
    OpCreateUser bytes
  | OpNewToken "bytes option" int
  | OpUserByToken bytes
  | OpSignUp bytes "bytes option" bytes bytes
  | OpVerifyPassword bytes bytes
  | OpResetPassword bytes bytes bytes
  | OpClaimTunnel int bytes "bytes list"
  | OpTunnelByID int
  | OpTunnelBySubdomain bytes
  | OpListTunnels int
  | OpEnqueueEvent int bytes bytes bytes header bytes
  | OpQueuedEvents int
  | OpListEvents int bytes
  | OpEventByID int
  | OpMarkReplaying int
  | OpMarkDelivered int int
  | OpMarkFailed int int
  | OpRequeueEvent int
  | OpClearEvents int
  | OpPutSnapshot int bytes bytes bytes "(bytes \<times> bytes) list" bytes
  | OpGetSnapshot int bytes bytes
  | OpSnapshotStats int

fun run_op :: "platform \<Rightarrow> store_op \<Rightarrow> db \<Rightarrow> db" where
  "run_op P (OpCreateUser email) d = snd (CreateUser email d)"
| "run_op P (OpNewToken rnd uid) d = snd (NewToken P rnd uid d)"
| "run_op P (OpUserByToken token) d = snd (UserByToken P token d)"
| "run_op P (OpSignUp salt rnd email password) d = snd (SignUp P salt rnd email password d)"
| "run_op P (OpVerifyPassword email password) d = snd (VerifyPassword P email password d)"
| "run_op P (OpResetPassword salt email password) d = snd (ResetPassword P salt email password d)"
| "run_op P (OpClaimTunnel uid sub rules) d = snd (ClaimTunnel uid sub rules d)"
| "run_op P (OpTunnelByID i) d = snd (TunnelByID i d)"
| "run_op P (OpTunnelBySubdomain sub) d = snd (TunnelBySubdomain sub d)"
| "run_op P (OpListTunnels uid) d = snd (ListTunnels uid d)"
| "run_op P (OpEnqueueEvent tid m path query h b) d = snd (EnqueueEvent tid m path query h b d)"
| "run_op P (OpQueuedEvents tid) d = snd (QueuedEvents tid d)"
| "run_op P (OpListEvents tid st) d = snd (ListEvents tid st d)"
| "run_op P (OpEventByID i) d = snd (EventByID i d)"
| "run_op P (OpMarkReplaying i) d = snd (MarkReplaying i d)"
| "run_op P (OpMarkDelivered i code) d = snd (MarkDelivered i code d)"
| "run_op P (OpMarkFailed i code) d = snd (MarkFailed i code d)"
| "run_op P (OpRequeueEvent i) d = snd (RequeueEvent i d)"
| "run_op P (OpClearEvents tid) d = snd (ClearEvents tid d)"
| "run_op P (OpPutSnapshot tid path qh ctype h b) d = snd (PutSnapshot tid path qh ctype h b d)"
| "run_op P (OpGetSnapshot tid path qh) d = snd (GetSnapshot tid path qh d)"
| "run_op P (OpSnapshotStats tid) d = snd (SnapshotStats tid d)"

lemma run_op_good: "\<exists>m. good m \<and> (\<forall>d. run_op P op d = snd (m d :: (go_error + unit) \<times> db))"
proof -
  have ex: "\<exists>m. good m \<and> (\<forall>d. snd (q d) = snd (m d :: (go_error + unit) \<times> db))" if "good q" for q :: "'a stmt"
    using that by (intro exI [of _ "\<lambda>d. (Inr (), snd (q d))"]) (simp add: good_def)
  show ?thesis
    by (cases op) (simp_all add: ex wf_intros)
qed

lemma run_op_keeps: "db_wf d \<Longrightarrow> db_wf (run_op P op d) \<and> evolves d (run_op P op d)"
  using run_op_good [of P op] by (auto simp: good_def)

interpretation history: invariant_ops "run_op P" "\<lambda>_. True" "\<lambda>d. db_wf d \<and> evolves d0 d" for P d0
  by unfold_locales (use run_op_keeps evolves_trans in blast)

lemma history_keeps: "db_wf d \<Longrightarrow> db_wf (fold (run_op P) ops d) \<and> evolves d (fold (run_op P) ops d)"
  using history.ops_inv [of ops d d P] by (simp add: list_all_iff)

text \<open>
  C13. What every history of the store keeps. After any sequence of the store's operations on an empty database, each taken as a whole and
  whatever statements fail or are left in doubt: no two accounts have the same address and no two tunnels the same name, every token and
  every tunnel belongs to an account, every buffered event and every stored page belongs to a tunnel, no page is stored twice
  under one address, and an event is dead only with an attempt count of at least five; recorded deliveries count as attempts, as
  failures do.
\<close>
theorem store_histories:
  fixes ops :: "store_op list" and outs and P
  defines "d \<equiv> fold (run_op P) ops (empty_db\<lparr>db_outcomes := outs\<rparr>)"
  shows "distinct (map us_email (db_users d)) \<and> distinct (map tn_sub (db_tunnels d)) \<and> distinct (map snap_key (db_snaps d))
    \<and> tk_user ` set (db_tokens d) \<union> tn_user ` set (db_tunnels d) \<subseteq> us_id ` set (db_users d)
    \<and> ev_tunnel ` set (db_events d) \<union> sn_tunnel ` set (db_snaps d) \<subseteq> tn_id ` set (db_tunnels d)
    \<and> ev_attempts ` {e \<in> set (db_events d). ev_state e = EventDead} \<subseteq> {5..}"
proof -
  have "db_wf (empty_db\<lparr>db_outcomes := outs\<rparr>)" by (simp add: wf_defs empty_db_def)
  then have "db_wf d" unfolding d_def using history_keeps by blast
  then show ?thesis by (auto simp: wf_defs event_ok_def max_attempts_def list_all_iff)
qed

text \<open>
  C14. What a history never undoes. Whatever operations follow, and whatever fails among them, an account keeps its number and address, a token
  stays valid for the same account, a tunnel keeps its number, name and owner, and an event that is still stored
  keeps its tunnel, its request and its time of receipt.
\<close>
theorem histories_never_undo:
  fixes before after :: "store_op list" and outs and P
  defines "d \<equiv> fold (run_op P) before (empty_db\<lparr>db_outcomes := outs\<rparr>)"
    and "d' \<equiv> fold (run_op P) (before @ after) (empty_db\<lparr>db_outcomes := outs\<rparr>)"
  shows "us_ident ` set (db_users d) \<subseteq> us_ident ` set (db_users d') \<and> set (db_tokens d) \<subseteq> set (db_tokens d')
    \<and> tn_ident ` set (db_tunnels d) \<subseteq> tn_ident ` set (db_tunnels d')
    \<and> (\<lambda>e. (ev_id e, ev_content e)) ` {e' \<in> set (db_events d'). ev_id e' < db_next_event d}
        \<subseteq> (\<lambda>e. (ev_id e, ev_content e)) ` set (db_events d)"
proof -
  have "db_wf (empty_db\<lparr>db_outcomes := outs\<rparr>)" by (simp add: wf_defs empty_db_def)
  then have "db_wf d" unfolding d_def using history_keeps by blast
  moreover have "d' = fold (run_op P) after d" by (simp add: d_def d'_def)
  ultimately have e: "evolves d d'" using history_keeps by blast
  have "(ev_id x, ev_content x) \<in> (\<lambda>e. (ev_id e, ev_content e)) ` set (db_events d)"
    if "x \<in> set (db_events d')" "ev_id x < db_next_event d" for x
    using evolves_events [OF e that] by (metis (mono_tags, lifting) image_eqI)
  then show ?thesis using e unfolding evolves_def grows_def by blast
qed

text \<open>
  C22. A subdomain belongs to the account that claimed it first, for good. If, after any history of the store's operations on an empty
  database, a claim of user \<open>u\<close> for a name succeeds, then after any further history, whatever its operations are and whatever
  fails among them, and as soon as the database answers, the name still resolves to the same tunnel of the same user, and a claim by any other
  user is refused with the error that says so.
\<close>
theorem subdomain_owner_is_permanent:
  fixes before after :: "store_op list"
  assumes "ClaimTunnel u sub rules (fold (run_op P) before (empty_db\<lparr>db_outcomes := outs\<rparr>)) = (Inr t, d1)"
    and "next_outcome (fold (run_op P) after d1) = (Done, d3)"
  shows "(\<exists>t'. TunnelBySubdomain sub (fold (run_op P) after d1) = (Inr t', d3) \<and> tn_id t' = tn_id t \<and> tn_user t' = u)
    \<and> (v \<noteq> u \<longrightarrow> ClaimTunnel v sub rules' (fold (run_op P) after d1) = (Inl ErrSubdomainTaken, d3))"
proof -
  have "db_wf (empty_db\<lparr>db_outcomes := outs\<rparr>)" by (simp add: wf_defs empty_db_def)
  then have "db_wf (fold (run_op P) before (empty_db\<lparr>db_outcomes := outs\<rparr>))" using history_keeps by blast
  then have "db_wf d1" using good_wf [OF good_ClaimTunnel] assms(1) by (metis snd_conv)
  then have "db_wf (fold (run_op P) after d1)" "evolves d1 (fold (run_op P) after d1)" using history_keeps by blast+
  then show ?thesis using claimed_name_resolves [OF assms(1) _ _ assms(2)] by blast
qed

text \<open>A second account tries to take the name, the first reconnects with other rules and changes its password.\<close>

definition demo_before :: "store_op list" where
  "demo_before = [OpSignUp ''s'' (Some ''r'') ''a@b.c'' ''password'']"

definition demo_after :: "store_op list" where
  "demo_after = [OpSignUp ''s'' (Some ''q'') ''x@y.z'' ''password'', OpClaimTunnel 2 ''myapp'' [], OpClaimTunnel 1 ''myapp'' [''/new/*''],
     OpResetPassword ''t'' ''a@b.c'' ''fresh-one'', OpClearEvents 1]"

theorem subdomain_owner_is_permanent_witness:
  "ClaimTunnel 2 ''myapp'' [] (fold (run_op demo_platform) demo_after demo_db)
     = (Inl ErrSubdomainTaken, fold (run_op demo_platform) demo_after demo_db)"
proof -
  have "fold (run_op demo_platform) demo_before (empty_db\<lparr>db_outcomes := []\<rparr>) = demo_user_db"
    by (simp add: demo_before_def demo_user_db_def empty_db_def)
  then have c: "ClaimTunnel 1 ''myapp'' [''/hooks/*''] (fold (run_op demo_platform) demo_before (empty_db\<lparr>db_outcomes := []\<rparr>)) = (Inr demo_tunnel, demo_db)"
    using demo_claim by simp
  have "db_outcomes (fold (run_op demo_platform) demo_after demo_db) = []"
    unfolding demo_db_eq demo_user_db_eq by code_simp
  from subdomain_owner_is_permanent [OF c next_outcome_quiet [OF this], of 2 "[]"] show ?thesis by simp
qed

end
