(* ===== verification/Server.thy ===== *)
theory Server
  imports CliCalls AppConfig ReplayRuns Migrate StoreOps
begin

text \<open>
  \<open>cmd/liveurld/main.go\<close>: the server command. \<open>runServe\<close> reads the configuration, opens the stores, and puts the tunnel server, the
  public router and the control API together on one database, one presence store and one registry; the two operator commands work
  on the database alone. Afterwards the running server is a state that events change: a public
  request, a call of the control API, an agent that connects, the
  replay of its queue, a heartbeat, an agent that leaves, time passing.
\<close>

section \<open>Starting\<close>

definition Open :: "bytes option \<Rightarrow> bytes option \<Rightarrow> go_error option" where
  "Open connect_err ping_err =
     (case connect_err of
        Some m \<Rightarrow> Some (Wrap ''connect postgres'' (ErrText m))
      | None \<Rightarrow> (case ping_err of Some m \<Rightarrow> Some (Wrap ''ping postgres'' (ErrText m)) | None \<Rightarrow> None))"

text \<open>What the outside world answers while the server starts.\<close>

text \<open>\<open>bo_db\<close> and \<open>bo_redis\<close> are the contents of the two stores once the migrations have run.\<close>

record boot_io =
  bo_connect_err :: "bytes option"
  bo_ping_err :: "bytes option"
  bo_files :: files
  bo_schema :: schema
  bo_redis_err :: "bytes option"
  bo_cert_err :: "bytes option"
  bo_db :: db
  bo_redis :: redis

definition useTLS :: "server_config \<Rightarrow> bool" where
  "useTLS cfg = (sc_cert_file cfg \<noteq> [] \<and> sc_key_file cfg \<noteq> [])"

definition tunnel_config_of :: "server_config \<Rightarrow> tunnel_config" where
  "tunnel_config_of cfg = \<lparr>tc_public_host = sc_public_host cfg, tc_public_tls = useTLS cfg,
     tc_rate_per_minute = sc_handshake_rate cfg\<rparr>"

text \<open>
  \<open>files\<close> answers for the embedded dashboard; \<open>env\<close> is what the control API draws from outside during one request.
\<close>

definition router_config_of :: "platform \<Rightarrow> (request \<Rightarrow> writer \<Rightarrow> served) \<Rightarrow> 'l api_env \<Rightarrow> server_config \<Rightarrow> 'l router_config" where
  "router_config_of p assets env cfg =
     \<lparr>rc_base_host = sc_public_host cfg, rc_offline = Some (ServeOffline p),
      rc_dashboard = Some (\<lambda>r (w, a). (assets r w, a)), rc_dashboard_api = Some (dashboard_api env),
      rc_tunnel_rps = sc_tunnel_rps cfg, rc_tunnel_burst = sc_tunnel_burst cfg,
      rc_dash_rps = sc_dash_rps cfg, rc_dash_burst = sc_dash_burst cfg\<rparr>"

record 'l server =
  sv_config :: server_config
  sv_gateway :: "'l gateway"
  sv_tunnels :: "'l tunnel_server"

definition runServe :: "platform \<Rightarrow> (bytes \<Rightarrow> rat option) \<Rightarrow> environ \<Rightarrow> (request \<Rightarrow> writer \<Rightarrow> served) \<Rightarrow> 'l api_env \<Rightarrow> boot_io
    \<Rightarrow> go_error + 'l server" where
  "runServe p pf vars assets env io =
     (let cfg = LoadServer pf vars in case Open (bo_connect_err io) (bo_ping_err io) of
        Some e \<Rightarrow> Inl (Wrap ''open store'' e)
      | None \<Rightarrow>
     (case fst (Migrate (bo_files io) (bo_schema io)) of
        Some e \<Rightarrow> Inl (Wrap ''migrate'' e)
      | None \<Rightarrow>
     (case bo_redis_err io of
        Some m \<Rightarrow> Inl (Wrap ''ping redis'' (ErrText m))
      | None \<Rightarrow>
          if useTLS cfg \<and> bo_cert_err io \<noteq> None then Inl (Wrap ''load TLS cert/key'' (ErrText (the (bo_cert_err io))))
          else
            (let shared = \<lparr>ed_db = bo_db io, ed_redis = bo_redis io, ed_registry = NewRegistry\<rparr> in
             Inr \<lparr>sv_config = cfg, sv_gateway = NewRouter (router_config_of p assets env cfg) (NewServer shared),
                  sv_tunnels = NewTunnelServer (tunnel_config_of cfg)\<rparr>))))"

section \<open>Operator commands\<close>

definition with_store :: "boot_io \<Rightarrow> (db \<Rightarrow> (go_error + 'a) \<times> db) \<Rightarrow> (go_error + 'a) \<times> db" where
  "with_store io m =
     (case Open (bo_connect_err io) (bo_ping_err io) of
        Some e \<Rightarrow> (Inl e, bo_db io)
      | None \<Rightarrow>
          (case fst (Migrate (bo_files io) (bo_schema io)) of
             Some e \<Rightarrow> (Inl e, bo_db io)
           | None \<Rightarrow> m (bo_db io)))"

definition seedCmd :: "platform \<Rightarrow> bytes option \<Rightarrow> boot_io \<Rightarrow> bytes \<Rightarrow> (go_error + bytes list) \<times> db" where
  "seedCmd p rnd io email =
     with_store io (and_then (CreateUser email) (\<lambda>user. and_then (NewToken p rnd (u_id user)) (\<lambda>token.
       ret [''user: '' @ u_email user, ''token: '' @ token, [], ''Run this on the machine hosting your app:'', ''  liveurl login '' @ token])))"

definition randomPassword :: "bytes option \<Rightarrow> go_error + bytes" where
  "randomPassword rnd = (case rnd of None \<Rightarrow> Inl (ErrText ''crypto/rand'') | Some raw \<Rightarrow> Inr (hex_encode raw))"

definition resetPasswordCmd :: "platform \<Rightarrow> bytes \<Rightarrow> bytes option \<Rightarrow> bytes option \<Rightarrow> boot_io \<Rightarrow> bytes \<Rightarrow> (go_error + bytes list) \<times> db" where
  "resetPasswordCmd p salt rnd_password rnd_token io email =
     with_store io
       (case randomPassword rnd_password of
          Inl e \<Rightarrow> fail e
        | Inr password \<Rightarrow>
            and_then (ResetPassword p salt email password) (\<lambda>user. and_then (NewToken p rnd_token (u_id user)) (\<lambda>token.
              ret [''user: '' @ u_email user, ''new password: '' @ password, ''new token: '' @ token, [],
                ''Relay both back to the user. They can log in at /dashboard with the new'',
                ''password, or run this right now on the machine hosting their app:'', ''  liveurl login '' @ token])))"

section \<open>Running\<close>

text \<open>
  One event. A public request comes with what its agent and the client's connection do, an agent's connection with what the network
  delivers. \<open>OnConnect\<close> runs in a goroutine of its own, so it is an event of its own, with the link it replays the queue on; a drain that other
  events interrupt is a sequence of \<open>ReplayStep\<close> events, one for each event it listed.
\<close>

datatype 'l server_event =
    Visit "'l api_env" "bytes \<Rightarrow> bytes list" upgrade_io "session \<Rightarrow> exchange" request
  | ControlCall "'l api_env" request
  | AgentJoins int bytes bytes conn nat
  | OnConnect session link
  | ReplayStep event link
  | AgentBeats session
  | AgentLeaves session
  | TimePasses nat

datatype event_result = Visited answer | Called writer | Turned_away | Joined "session option" | Replayed link | Silent

definition set_edge :: "edge \<Rightarrow> 'l server \<Rightarrow> 'l server" where
  "set_edge st s = s\<lparr>sv_gateway := (sv_gateway s)\<lparr>gw_edge := st\<rparr>\<rparr>"

definition edge_of :: "'l server \<Rightarrow> edge" where
  "edge_of s = gw_edge (sv_gateway s)"

definition on_connect :: "session \<Rightarrow> link \<Rightarrow> edge \<Rightarrow> link \<times> edge" where
  "on_connect sess lk st = (case Drain (se_tunnel sess) (lk, ed_db st) of (lk', d) \<Rightarrow> (lk', st\<lparr>ed_db := d\<rparr>))"

text \<open>The clocks of Redis and of the database go on.\<close>

definition pass_time :: "nat \<Rightarrow> edge \<Rightarrow> edge" where
  "pass_time t st = st\<lparr>ed_redis := wait t (ed_redis st), ed_db := (ed_db st)\<lparr>db_now := db_now (ed_db st) + int t\<rparr>\<rparr>"

fun handle_event :: "platform \<Rightarrow> 'l bucket_lib \<Rightarrow> (request \<Rightarrow> writer \<Rightarrow> served) \<Rightarrow> 'l server_event \<Rightarrow> 'l server \<Rightarrow> event_result \<times> 'l server" where
  "handle_event p lib assets (Visit env reads io agent r) s =
     (case ServeHTTP p lib (router_config_of p assets env (sv_config s)) reads io agent (ae_now env) r (new_writer, sv_gateway s) of
        (a, gw) \<Rightarrow> (Visited a, s\<lparr>sv_gateway := gw\<rparr>))"
| "handle_event p lib assets (ControlCall env r) s =
     (case ControlHTTP env r (new_writer, edge_of s, gw_auth_limiter (sv_gateway s)) of
        (w, st, al) \<Rightarrow> (Called w, s\<lparr>sv_gateway := (sv_gateway s)\<lparr>gw_edge := st, gw_auth_limiter := al\<rparr>\<rparr>))"
| "handle_event p lib assets (AgentJoins now remote rnd cn sid) s =
     (case admit lib now remote (sv_tunnels s) of
        (ok, ts) \<Rightarrow>
          if \<not> ok then (Turned_away, s\<lparr>sv_tunnels := ts\<rparr>)
          else (case handleConn p ts rnd cn sid (edge_of s) of
            (sess, st) \<Rightarrow> (Joined sess, set_edge st (s\<lparr>sv_tunnels := ts\<rparr>))))"
| "handle_event p lib assets (OnConnect sess lk) s = (case on_connect sess lk (edge_of s) of (lk', st) \<Rightarrow> (Replayed lk', set_edge st s))"
| "handle_event p lib assets (ReplayStep e lk) s =
     (case ReplayEvent e (lk, ed_db (edge_of s)) of (_, lk', d) \<Rightarrow> (Replayed lk', set_edge ((edge_of s)\<lparr>ed_db := d\<rparr>) s))"
| "handle_event p lib assets (AgentBeats sess) s = (Silent, set_edge (loop_tick sess (edge_of s)) s)"
| "handle_event p lib assets (AgentLeaves sess) s = (Silent, set_edge (loop_close sess (edge_of s)) s)"
| "handle_event p lib assets (TimePasses t) s =
     (Silent, set_edge (pass_time t (edge_of s)) s)"

definition run_event :: "platform \<Rightarrow> 'l bucket_lib \<Rightarrow> (request \<Rightarrow> writer \<Rightarrow> served) \<Rightarrow> 'l server_event \<Rightarrow> 'l server \<Rightarrow> 'l server" where
  "run_event p lib assets ev s = snd (handle_event p lib assets ev s)"

section \<open>The database under any history\<close>

lemma ControlHTTP_edge:
  "db_wf (ed_db st) \<Longrightarrow> ControlHTTP env r (w, st, al) = (w', st', al') \<Longrightarrow>
     db_wf (ed_db st') \<and> evolves (ed_db st) (ed_db st') \<and> ed_registry st' = ed_registry st"
  using ControlHTTP_owners by blast

lemma serveApex_edge:
  assumes "db_wf (ed_db st)" and "serveApex (router_config_of p assets env cfg) r (w, st, al) = (sv, st', al')"
  shows "db_wf (ed_db st') \<and> evolves (ed_db st) (ed_db st') \<and> ed_registry st' = ed_registry st"
proof -
  have api: "db_wf (ed_db st') \<and> evolves (ed_db st) (ed_db st') \<and> ed_registry st' = ed_registry st"
    if "dashboard_api env r' (w, st, al) = (sv, st', al')" for r'
    using that ControlHTTP_edge [OF assms(1), of env r' w al] by (auto simp: dashboard_api_def split: prod.splits)
  show ?thesis using assms
    by (auto simp: serveApex_def router_config_of_def StripPrefix_def serveLanding_def Let_def split: if_splits dest: api)
qed

lemma ServeHTTP_edge:
  assumes "db_wf (ed_db (gw_edge gw))" and "ServeHTTP p lib (router_config_of p assets env cfg) reads io agent now r (w, gw) = (a, gw')"
  shows "db_wf (ed_db (gw_edge gw')) \<and> evolves (ed_db (gw_edge gw)) (ed_db (gw_edge gw'))
    \<and> ed_registry (gw_edge gw') = ed_registry (gw_edge gw)"
proof (cases "host_subdomain p (rc_base_host (router_config_of p assets env cfg)) (req_host r) = []")
  case True
  then show ?thesis using assms serveApex_edge [OF assms(1), of p assets env cfg r w "gw_auth_limiter gw"]
    by (auto simp: ServeHTTP_def Let_def split: prod.splits if_splits)
next
  case False
  have "rc_offline (router_config_of p assets env cfg) = Some (ServeOffline p)" by (simp add: router_config_of_def)
  from cached.ServeHTTP_tunnel [OF this assms(1) refl False assms(2)] show ?thesis by blast
qed

lemma authenticate_db:
  assumes "db_wf d" and "authenticate p h tls rnd hs d = (reply, d')"
  shows "db_wf d' \<and> evolves d d'"
proof (cases "hs_version hs = Version")
  case False
  then show ?thesis using assms by (simp add: authenticate_def)
next
  case True
  obtain x d1 where x: "UserByToken p (hs_token hs) d = (x, d1)" by fastforce
  note 1 = good_same [OF good_UserByToken assms(1) x]
  show ?thesis
  proof (cases x)
    case (Inl e)
    then show ?thesis using assms(2) True x 1 by (simp add: authenticate_def)
  next
    case (Inr user)
    let ?sub = "if hs_subdomain hs = [] then randomSubdomain rnd else hs_subdomain hs"
    obtain y d2 where y: "ClaimTunnel (u_id user) ?sub (hs_rules hs) d1 = (y, d2)" by fastforce
    have 2: "db_wf d2" "evolves d d2" using good_same [OF good_ClaimTunnel _ y] 1 evolves_trans by blast+
    have "d' = d1 \<or> d' = d2" using assms(2) True x Inr y
      by (auto simp: authenticate_def Let_def split: if_splits sum.splits)
    then show ?thesis using 1 2 by blast
  qed
qed

lemma handleConn_db:
  assumes "db_wf (ed_db st)" and "handleConn p ts rnd cn sid st = (sess, st')"
  shows "db_wf (ed_db st') \<and> evolves (ed_db st) (ed_db st')"
proof (cases "cn_mux cn \<and> cn_stream cn \<and> cn_hello cn \<noteq> None")
  case False
  then show ?thesis using assms by (auto simp: handleConn_def split: if_splits option.splits)
next
  case True
  then obtain hs where hs: "cn_hello cn = Some hs" by auto
  obtain reply d1 where a: "authenticate p (ts_public_host ts) (ts_public_tls ts) rnd hs (ed_db st) = (reply, d1)" by fastforce
  note 1 = authenticate_db [OF assms(1) a]
  obtain res d2 where t: "TunnelBySubdomain (hr_subdomain reply) d1 = (res, d2)" by fastforce
  have 2: "db_wf d2" "evolves (ed_db st) d2" using good_same [OF good_TunnelBySubdomain _ t] 1 evolves_trans by blast+
  have "ed_db st' = d1 \<or> ed_db st' = d2" using assms(2) True hs a t
    by (auto simp: handleConn_def Let_def split: if_splits)
  then show ?thesis using 1 2 by blast
qed

lemma on_connect_db:
  assumes "db_wf (ed_db st)" and "on_connect sess lk st = (lk', st')"
  shows "db_wf (ed_db st') \<and> evolves (ed_db st) (ed_db st') \<and> ed_registry st' = ed_registry st"
  using assms Drain_good [OF assms(1), of "se_tunnel sess" lk] by (auto simp: on_connect_def split: prod.splits)

lemma pass_time_db: "db_wf (ed_db st) \<Longrightarrow> db_wf (ed_db (pass_time t st)) \<and> evolves (ed_db st) (ed_db (pass_time t st))"
proof -
  assume "db_wf (ed_db st)"
  then have "db_wf (ed_db (pass_time t st))" by (force simp: pass_time_def wf_defs)
  moreover have "evolves (ed_db st) (ed_db (pass_time t st))" by (auto simp: pass_time_def evolves_defs)
  ultimately show ?thesis ..
qed

text \<open>The sessions of the registry are those of the tunnels they name.\<close>

definition sessions_ok :: "edge \<Rightarrow> bool" where
  "sessions_ok st = (\<forall>k sess. Get k (ed_registry st) = Some sess \<longrightarrow> se_sub sess = k
     \<and> (se_tunnel sess = 0 \<or> (se_tunnel sess, k) \<in> (\<lambda>t. (tn_id t, tn_sub t)) ` set (db_tunnels (ed_db st))))"

lemma evolves_names: "evolves d d' \<Longrightarrow> (\<lambda>t. (tn_id t, tn_sub t)) ` set (db_tunnels d) \<subseteq> (\<lambda>t. (tn_id t, tn_sub t)) ` set (db_tunnels d')"
proof -
  assume "evolves d d'"
  then have "tn_ident ` set (db_tunnels d) \<subseteq> tn_ident ` set (db_tunnels d')" by (simp add: evolves_defs)
  from image_mono [OF this, of "\<lambda>(i, u, s). (i, s)"] show ?thesis by (simp add: image_image tn_ident_def)
qed

lemma sessions_ok_evolves:
  "sessions_ok st \<Longrightarrow> evolves (ed_db st) (ed_db st') \<Longrightarrow> ed_registry st' = ed_registry st \<Longrightarrow> sessions_ok st'"
proof -
  assume so: "sessions_ok st" and e: "evolves (ed_db st) (ed_db st')" and r: "ed_registry st' = ed_registry st"
  show ?thesis using so evolves_names [OF e] unfolding sessions_ok_def r by blast
qed

lemma handleConn_sessions:
  assumes "db_wf (ed_db st)" and "sessions_ok st" and "handleConn p ts rnd cn sid st = (sess, st')"
  shows "sessions_ok st'"
proof (cases sess)
  case None
  then have "ed_registry st' = ed_registry st" using assms(3)
    by (auto simp: handleConn_def Let_def split: if_splits option.splits prod.splits)
  then show ?thesis using sessions_ok_evolves [OF assms(2)] handleConn_db [OF assms(1,3)] by simp
next
  case (Some se)
  have ev: "evolves (ed_db st) (ed_db st')" using handleConn_db [OF assms(1,3)] by simp
  from assms(3) [unfolded Some] obtain hs reply d1 res d2 where
    "cn_hello cn = Some hs" "authenticate p (ts_public_host ts) (ts_public_tls ts) rnd hs (ed_db st) = (reply, d1)" "hr_ok reply"
    and t: "TunnelBySubdomain (hr_subdomain reply) d1 = (res, d2)"
    and se: "se = \<lparr>se_id = sid, se_sub = hr_subdomain reply, se_tunnel = (case res of Inr t \<Rightarrow> tn_id t | Inl e \<Rightarrow> 0)\<rparr>"
    and st': "st' = \<lparr>ed_db = d2, ed_redis = snd (Heartbeat (se_sub se) (ed_redis st)), ed_registry = Put se (ed_registry st)\<rparr>"
    by (rule handleConn_Some)
  have new: "se_tunnel se = 0 \<or> (se_tunnel se, se_sub se) \<in> (\<lambda>t. (tn_id t, tn_sub t)) ` set (db_tunnels d2)"
  proof (cases res)
    case (Inr t0)
    then have "t0 \<in> set (db_tunnels d2)" "tn_sub t0 = hr_subdomain reply"
      using TunnelBySubdomain_Inr [of "hr_subdomain reply" d1 t0 d2] t by (auto simp: same_tables_def)
    then show ?thesis using Inr by (force simp: se)
  qed (simp add: se)
  show ?thesis unfolding sessions_ok_def
  proof (intro allI impI)
    fix k sess' assume g: "Get k (ed_registry st') = Some sess'"
    show "se_sub sess' = k \<and> (se_tunnel sess' = 0 \<or> (se_tunnel sess', k) \<in> (\<lambda>t. (tn_id t, tn_sub t)) ` set (db_tunnels (ed_db st')))"
    proof (cases "k = se_sub se")
      case True
      then show ?thesis using g new by (auto simp: st' Get_Put)
    next
      case False
      then have "Get k (ed_registry st) = Some sess'" using g by (simp add: st' Get_Put)
      then show ?thesis using assms(2) evolves_names [OF ev] unfolding sessions_ok_def by blast
    qed
  qed
qed

definition server_ok :: "'l server \<Rightarrow> bool" where
  "server_ok s = (db_wf (ed_db (edge_of s)) \<and> sessions_ok (edge_of s))"

lemma edge_of_set [simp]: "edge_of (set_edge st s) = st"
  by (simp add: edge_of_def set_edge_def)

lemma run_event_ok:
  assumes "server_ok s"
  shows "server_ok (run_event p lib assets ev s) \<and> evolves (ed_db (edge_of s)) (ed_db (edge_of (run_event p lib assets ev s)))"
proof -
  have wf: "db_wf (ed_db (edge_of s))" and so: "sessions_ok (edge_of s)" using assms by (simp_all add: server_ok_def)
  have kept: ?thesis if "db_wf (ed_db (edge_of s'))" "evolves (ed_db (edge_of s)) (ed_db (edge_of s'))"
    "ed_registry (edge_of s') = ed_registry (edge_of s)" "run_event p lib assets ev s = s'" for s'
    using that sessions_ok_evolves [OF so, of "edge_of s'"] by (simp add: server_ok_def)
  show ?thesis
  proof (cases ev)
    case (Visit env reads io agent r)
    obtain a gw where v: "ServeHTTP p lib (router_config_of p assets env (sv_config s)) reads io agent (ae_now env) r
        (new_writer, sv_gateway s) = (a, gw)" by fastforce
    show ?thesis using ServeHTTP_edge [OF _ v] wf Visit v
      by (intro kept [of "s\<lparr>sv_gateway := gw\<rparr>"]) (simp_all add: run_event_def edge_of_def)
  next
    case (ControlCall env r)
    obtain w st al where c: "ControlHTTP env r (new_writer, edge_of s, gw_auth_limiter (sv_gateway s)) = (w, st, al)"
      by (metis prod_cases3)
    show ?thesis using ControlHTTP_edge [OF wf c] ControlCall c
      by (intro kept [of "s\<lparr>sv_gateway := (sv_gateway s)\<lparr>gw_edge := st, gw_auth_limiter := al\<rparr>\<rparr>"]) (simp_all add: run_event_def edge_of_def)
  next
    case (AgentJoins now remote rnd cn sid)
    obtain ok ts where a: "admit lib now remote (sv_tunnels s) = (ok, ts)" by fastforce
    obtain sess st where h: "handleConn p ts rnd cn sid (edge_of s) = (sess, st)" by fastforce
    have "edge_of (run_event p lib assets ev s) = (if ok then st else edge_of s)"
      using AgentJoins a h by (simp add: run_event_def, simp add: edge_of_def)
    then show ?thesis using handleConn_db [OF wf h] handleConn_sessions [OF wf so h] wf so by (auto simp: server_ok_def)
  next
    case (OnConnect sess lk)
    obtain lk' st' where o: "on_connect sess lk (edge_of s) = (lk', st')" by fastforce
    show ?thesis using on_connect_db [OF wf o] OnConnect o by (intro kept [of "set_edge st' s"]) (simp_all add: run_event_def)
  next
    case (ReplayStep e lk)
    obtain x lk' d where r: "ReplayEvent e (lk, ed_db (edge_of s)) = (x, lk', d)" by (metis prod_cases3)
    show ?thesis using ReplayEvent_good [OF wf, of e lk] ReplayStep r
      by (intro kept [of "set_edge ((edge_of s)\<lparr>ed_db := d\<rparr>) s"]) (simp_all add: run_event_def)
  next
    case (AgentBeats sess)
    then show ?thesis using wf so
      by (intro kept [of "set_edge (loop_tick sess (edge_of s)) s"]) (simp_all add: run_event_def loop_tick_def)
  next
    case (AgentLeaves sess)
    have "sessions_ok (loop_close sess (edge_of s))"
      using so by (auto simp: sessions_ok_def loop_close_def Let_def Get_Remove split: if_splits)
    then show ?thesis using wf AgentLeaves by (simp add: run_event_def server_ok_def loop_close_def Let_def)
  next
    case (TimePasses t)
    have "ed_registry (pass_time t (edge_of s)) = ed_registry (edge_of s)" by (simp add: pass_time_def)
    then show ?thesis using pass_time_db [OF wf, of t] TimePasses
      by (intro kept [of "set_edge (pass_time t (edge_of s)) s"]) (simp_all add: run_event_def)
  qed
qed

interpretation server: invariant_ops "run_event p lib assets" "\<lambda>_. True" "\<lambda>s. server_ok s \<and> evolves d (ed_db (edge_of s))" for p lib assets d
  by unfold_locales (use run_event_ok evolves_trans in blast)

lemma booted_ok:
  assumes "runServe p pf vars assets env io = Inr s" and "db_wf (bo_db io)"
  shows "server_ok s \<and> ed_db (edge_of s) = bo_db io"
  using assms
  by (auto simp: runServe_def NewServer_def NewRouter_def Let_def server_ok_def edge_of_def sessions_ok_def Get_def NewRegistry_def
      split: option.splits if_splits)

text \<open>
  C9. The whole server keeps its state sound. After any sequence of public requests, API calls, agents connecting, replays, heartbeats, agents leaving, and time
  passing, with any failures of clients, agents, database and Redis: the database is well-formed and has evolved from the
  one the server was started on (no account, token or tunnel is lost, no name changes hands, no stored
  request is altered), and every session in the registry belongs to the tunnel whose name it is filed under, or carries the tunnel number
  0 because the lookup after its handshake failed.
\<close>
theorem server_stays_sound:
  assumes "runServe p pf vars assets env io = Inr s" and "db_wf (bo_db io)"
  shows "db_wf (ed_db (edge_of (fold (run_event p lib assets) evs s)))
    \<and> evolves (bo_db io) (ed_db (edge_of (fold (run_event p lib assets) evs s)))
    \<and> sessions_ok (edge_of (fold (run_event p lib assets) evs s))"
proof -
  have "server_ok s \<and> evolves (bo_db io) (ed_db (edge_of s))" using booted_ok [OF assms] by simp
  then have "server_ok (fold (run_event p lib assets) evs s) \<and> evolves (bo_db io) (ed_db (edge_of (fold (run_event p lib assets) evs s)))"
    using server.ops_inv [where d = "bo_db io" and p = p and lib = lib and assets = assets and ops = evs and s = s] by (simp add: list_all_iff)
  then show ?thesis by (simp add: server_ok_def)
qed

section \<open>A recovered account\<close>

lemma with_store_Inr: "with_store io m = (Inr x, d') \<Longrightarrow> m (bo_db io) = (Inr x, d')"
  by (simp add: with_store_def split: option.splits)

lemma ResetPassword_rows:
  assumes "ResetPassword p salt email password d = (Inr u, d')"
  obtains hash where "pl_bcrypt_gen p salt password = Some hash" and "pg_text email" and "u_email u = email"
    and "\<lparr>us_id = u_id u, us_email = email, us_password = Some hash\<rparr> \<in> set (db_users d')"
    and "\<forall>r \<in> set (db_users d). us_email r \<noteq> email \<longrightarrow> r \<in> set (db_users d')"
proof -
  obtain hash where g: "pl_bcrypt_gen p salt password = Some hash"
    using assms by (cases "pl_bcrypt_gen p salt password") (auto simp: ResetPassword_def fail_def)
  then have "sql (pg_text email \<and> pg_text hash) (sql_set_password hash email) d = (Inr u, d')"
    using assms by (simp add: ResetPassword_def map_err_Inr)
  then obtain d0 where ok: "pg_text email" and q: "sql_set_password hash email d0 = (Inr u, d')" and d0: "same_tables d d0"
    by (auto elim: sql_Inr)
  obtain r where r: "find (\<lambda>r. us_email r = email) (db_users d0) = Some r" "u = to_user r"
    "db_users d' = map (\<lambda>r. if us_email r = email then r\<lparr>us_password := Some hash\<rparr> else r) (db_users d0)"
    using q by (auto simp: sql_set_password_def split: option.splits)
  then have m: "r \<in> set (db_users d0)" "us_email r = email" by (auto simp: find_Some_iff)
  have "r\<lparr>us_password := Some hash\<rparr> = \<lparr>us_id = u_id u, us_email = email, us_password = Some hash\<rparr>"
    using m(2) r(2) by (simp add: to_user_def)
  moreover have "r\<lparr>us_password := Some hash\<rparr> \<in> set (db_users d')" using m r(3) by force
  ultimately have row: "\<lparr>us_id = u_id u, us_email = email, us_password = Some hash\<rparr> \<in> set (db_users d')" by metis
  have "\<forall>r \<in> set (db_users d). us_email r \<noteq> email \<longrightarrow> r \<in> set (db_users d')"
    using r(3) d0 by (force simp: same_tables_def)
  then show thesis using that [OF g ok _ row] m r(2) by (simp add: to_user_def)
qed

lemma NewToken_users: "NewToken p rnd uid d = (Inr token, d') \<Longrightarrow> db_users d' = db_users d"
  by (auto simp: NewToken_def Let_def fail_def ret_def sql_insert_token_def same_tables_def split: option.splits if_splits
      elim!: and_then_Inr sql_Inr)

lemma VerifyPassword_ok:
  assumes "db_wf d" and "db_outcomes d = []" and "pg_text email"
    and "\<lparr>us_id = i, us_email = email, us_password = Some hash\<rparr> \<in> set (db_users d)" and "pl_bcrypt_cmp p hash password"
  shows "VerifyPassword p email password d = (Inr \<lparr>u_id = i, u_email = email\<rparr>, d)"
proof -
  have "find (\<lambda>r. us_email r = email) (db_users d) = Some \<lparr>us_id = i, us_email = email, us_password = Some hash\<rparr>"
    using find_key_Some [of us_email "db_users d" "\<lparr>us_id = i, us_email = email, us_password = Some hash\<rparr>"] assms(1,4)
    by (simp add: wf_defs)
  then show ?thesis using assms(2,3,5)
    by (simp add: VerifyPassword_def and_then_def map_err_def sql_def sql_user_by_email_def ret_def to_user_def)
qed

text \<open>
  C30. A locked-out account is recovered. When \<open>liveurld reset-password\<close> succeeds, it prints the account's address, a password and
  a token; the password logs the account in, the token identifies it, and the row of every other account is as it was. The password hash
  is assumed to accept what it was made from, and the database to answer afterwards.
\<close>
theorem reset_password_recovers_the_account:
  assumes "resetPasswordCmd p salt rnd_password rnd_token io email = (Inr out, d')" and "db_wf (bo_db io)" and "db_outcomes d' = []"
    and "\<And>s pw h. pl_bcrypt_gen p s pw = Some h \<Longrightarrow> pl_bcrypt_cmp p h pw"
  shows "\<exists>u password token. take 3 out = [''user: '' @ email, ''new password: '' @ password, ''new token: '' @ token]
    \<and> u_email u = email \<and> VerifyPassword p email password d' = (Inr u, d') \<and> UserByToken p token d' = (Inr u, d')
    \<and> (\<forall>r \<in> set (db_users (bo_db io)). us_email r \<noteq> email \<longrightarrow> r \<in> set (db_users d'))"
proof -
  from with_store_Inr [OF assms(1) [unfolded resetPasswordCmd_def]] obtain password u token d1 where
    1: "ResetPassword p salt email password (bo_db io) = (Inr u, d1)" and 2: "NewToken p rnd_token (u_id u) d1 = (Inr token, d')"
    and out: "take 3 out = [''user: '' @ u_email u, ''new password: '' @ password, ''new token: '' @ token]"
    by (auto simp: fail_def ret_def split: sum.splits elim!: and_then_Inr)
  obtain hash where h: "pl_bcrypt_gen p salt password = Some hash" "pg_text email" "u_email u = email"
    "\<lparr>us_id = u_id u, us_email = email, us_password = Some hash\<rparr> \<in> set (db_users d1)"
    "\<forall>r \<in> set (db_users (bo_db io)). us_email r \<noteq> email \<longrightarrow> r \<in> set (db_users d1)"
    using 1 by (rule ResetPassword_rows)
  have "db_wf d1" using good_same [OF good_ResetPassword assms(2) 1] by blast
  then have wf: "db_wf d'" using good_same [OF good_NewToken _ 2] by blast
  note us = NewToken_users [OF 2]
  have "VerifyPassword p email password d' = (Inr \<lparr>u_id = u_id u, u_email = email\<rparr>, d')"
    using VerifyPassword_ok [OF wf assms(3) h(2)] h(4) assms(4) [OF h(1)] us by simp
  moreover have "UserByToken p token d' = (Inr u, d')"
    using token_lookup [OF wf NewToken_row [OF 2] _ _ next_outcome_quiet [OF assms(3)]] h(3,4) us by (force simp: to_user_def)
  ultimately show ?thesis using out h(3,5) us by (intro exI [of _ u] exI [of _ password] exI [of _ token]) auto
qed

section \<open>An example server\<close>

definition demo_boot :: "db \<Rightarrow> boot_io" where
  "demo_boot d = \<lparr>bo_connect_err = None, bo_ping_err = None, bo_files = demo_files, bo_schema = demo_schema, bo_redis_err = None,
     bo_cert_err = None, bo_db = d, bo_redis = demo_redis\<rparr>"

definition demo_assets :: "request \<Rightarrow> writer \<Rightarrow> served" where
  "demo_assets r w = Reply w"

definition demo_vars :: environ where
  "demo_vars key = []"

definition demo_running :: "db \<Rightarrow> int option server" where
  "demo_running d = \<lparr>sv_config = LoadServer (\<lambda>_. None) demo_vars,
     sv_gateway = NewRouter (router_config_of demo_platform demo_assets (demo_env demo_link) (LoadServer (\<lambda>_. None) demo_vars))
       (NewServer \<lparr>ed_db = d, ed_redis = demo_redis, ed_registry = NewRegistry\<rparr>),
     sv_tunnels = NewTunnelServer (tunnel_config_of (LoadServer (\<lambda>_. None) demo_vars))\<rparr>"

lemma demo_runServe:
  "runServe demo_platform (\<lambda>_. None) demo_vars demo_assets (demo_env demo_link) (demo_boot d) = Inr (demo_running d)"
proof -
  have "fst (Migrate demo_files demo_schema) = None" by code_simp
  then show ?thesis
    by (simp add: runServe_def demo_boot_def Open_def Let_def useTLS_def LoadServer_def getenv_def demo_vars_def demo_running_def)
qed

lemma demo_running_edge [simp]: "edge_of (demo_running d) = \<lparr>ed_db = d, ed_redis = demo_redis, ed_registry = NewRegistry\<rparr>"
  by (simp add: demo_running_def edge_of_def NewRouter_def NewServer_def Let_def)

lemma demo_running_host: "sc_public_host (sv_config (demo_running d)) = ''lvh.me:8080''"
  by (simp add: demo_running_def LoadServer_def getenv_def demo_vars_def)

lemma demo_running_limiters:
  "\<exists>l. gw_tunnel_limiter (sv_gateway (demo_running d)) = Some l \<and> il_entries l = Map.empty \<and> il_last l = None"
  "ts_public_host (sv_tunnels (demo_running d)) = ''lvh.me:8080''" "\<not> ts_public_tls (sv_tunnels (demo_running d))"
  "il_entries (ts_handshake_limiter (sv_tunnels (demo_running d))) = Map.empty"
  "il_last (ts_handshake_limiter (sv_tunnels (demo_running d))) = None"
  by (simp_all add: demo_running_def NewRouter_def NewTunnelServer_def NewIPLimiter_def Let_def tunnel_config_of_def useTLS_def
      LoadServer_def getenv_def demo_vars_def)

lemma demo_running_ok: "db_wf d \<Longrightarrow> server_ok (demo_running d)"
  using booted_ok [OF demo_runServe, of d] by (simp add: demo_boot_def)

theorem server_stays_sound_witness:
  "\<forall>evs. db_wf (ed_db (edge_of (fold (run_event demo_platform demo_lib demo_assets) evs (demo_running demo_queue_db))))
    \<and> sessions_ok (edge_of (fold (run_event demo_platform demo_lib demo_assets) evs (demo_running demo_queue_db)))"
proof
  fix evs
  show "db_wf (ed_db (edge_of (fold (run_event demo_platform demo_lib demo_assets) evs (demo_running demo_queue_db))))
    \<and> sessions_ok (edge_of (fold (run_event demo_platform demo_lib demo_assets) evs (demo_running demo_queue_db)))"
    using server_stays_sound [OF demo_runServe [of demo_queue_db], where lib = demo_lib and evs = evs] demo_queue_db_wf
    by (simp add: demo_boot_def)
qed

section \<open>The example account is recovered\<close>

definition demo_reset :: "(go_error + bytes list) \<times> db" where
  "demo_reset = resetPasswordCmd demo_platform ''s'' (Some ''pw'') (Some ''tk'') (demo_boot demo_user_db) ''a@b.c''"

theorem reset_password_recovers_the_account_witness:
  "VerifyPassword demo_platform ''a@b.c'' ''7077'' (snd demo_reset) = (Inr \<lparr>u_id = 1, u_email = ''a@b.c''\<rparr>, snd demo_reset)
   \<and> UserByToken demo_platform ''lu_746b'' (snd demo_reset) = (Inr \<lparr>u_id = 1, u_email = ''a@b.c''\<rparr>, snd demo_reset)"
proof -
  have c: "case demo_reset of (Inr out, d) \<Rightarrow> take 3 out = [''user: a@b.c'', ''new password: 7077'', ''new token: lu_746b''] \<and> db_outcomes d = []
      \<and> map us_id (db_users d) = [1] | _ \<Rightarrow> False"
    unfolding demo_reset_def demo_boot_def demo_user_db_eq by code_simp
  then obtain out d' where r: "demo_reset = (Inr out, d')" "take 3 out = [''user: a@b.c'', ''new password: 7077'', ''new token: lu_746b'']"
    "db_outcomes d' = []" "map us_id (db_users d') = [1]" by (auto split: prod.splits sum.splits)
  have law: "pl_bcrypt_gen demo_platform s pw = Some h \<Longrightarrow> pl_bcrypt_cmp demo_platform h pw" for s pw h
    by (auto simp: demo_platform_def suffix_def split: if_splits)
  have wf: "db_wf (bo_db (demo_boot demo_user_db))" by (simp add: demo_boot_def demo_user_db_wf)
  obtain u password token where t: "take 3 out = [''user: '' @ ''a@b.c'', ''new password: '' @ password, ''new token: '' @ token]"
    "u_email u = ''a@b.c''" "VerifyPassword demo_platform ''a@b.c'' password d' = (Inr u, d')" "UserByToken demo_platform token d' = (Inr u, d')"
    using reset_password_recovers_the_account [OF r(1) [unfolded demo_reset_def] wf r(3)] law by blast
  have "u_id u \<in> us_id ` set (db_users d')"
    using t(3) r(3) by (auto simp: VerifyPassword_def and_then_def map_err_def sql_def sql_user_by_email_def ret_def fail_def to_user_def find_Some_iff
        split: option.splits if_splits)
  moreover have "us_id ` set (db_users d') = {1}" using arg_cong [OF r(4), of set] by simp
  ultimately have "u = \<lparr>u_id = 1, u_email = ''a@b.c''\<rparr>" using t(2) by (cases u) auto
  moreover have "password = ''7077''" "token = ''lu_746b''" using t(1) r(2) by auto
  ultimately show ?thesis using t(3,4) unfolding r(1) snd_conv by blast
qed

end
