(* ===== verification/Listen.thy ===== *)
theory Listen
  imports Server
begin

text \<open>
  The listeners. \<open>TunnelServer.ListenAndServe\<close> of \<open>internal/edge/tunnelserver.go\<close> opens the listener and accepts connections until the
  context is cancelled; the end of \<open>runServe\<close> of \<open>cmd/liveurld/main.go\<close> runs it beside the two HTTP servers and waits for the
  signal to stop or for the first of them that fails. What \<open>Accept\<close> answers is a list in the order of its calls, a connection given by
  the time, its remote address and a name of its own.
\<close>

section \<open>Accepting\<close>

datatype 'c accepted =
    NewConn int bytes 'c
  | AcceptFails bool      \<comment> \<open>whether the context is cancelled by then\<close>

datatype 'c accept_action =
    Handles bytes 'c      \<comment> \<open>\<open>go t.handleConn(ctx, conn)\<close>\<close>
  | Closes bytes 'c
  | LogsFailure

datatype listen_end = Returns "go_error option" | StillServing

fun accept_loop :: "'l bucket_lib \<Rightarrow> 'c accepted list \<Rightarrow> 'l tunnel_server \<Rightarrow> 'c accept_action list \<times> listen_end \<times> 'l tunnel_server" where
  "accept_loop lib [] ts = ([], StillServing, ts)"
| "accept_loop lib (AcceptFails cancelled # script) ts =
     (if cancelled then ([], Returns None, ts)
      else (case accept_loop lib script ts of (acts, res, ts') \<Rightarrow> (LogsFailure # acts, res, ts')))"
| "accept_loop lib (NewConn now remote c # script) ts =
     (case admit lib now remote ts of
        (ok, ts1) \<Rightarrow>
          (case accept_loop lib script ts1 of
             (acts, res, ts') \<Rightarrow> ((if ok then Handles remote c else Closes remote c) # acts, res, ts')))"

definition ListenAndServe :: "'l bucket_lib \<Rightarrow> bytes option \<Rightarrow> 'c accepted list \<Rightarrow> 'l tunnel_server
    \<Rightarrow> 'c accept_action list \<times> listen_end \<times> 'l tunnel_server" where
  "ListenAndServe lib listen_err script ts =
     (case listen_err of
        Some m \<Rightarrow> ([], Returns (Some (ErrText m)), ts)
      | None \<Rightarrow> accept_loop lib script ts)"

section \<open>Waiting for the end\<close>

text \<open>
  What reaches the \<open>select\<close> at the end of \<open>runServe\<close>, in order: the context is done, or a listener's call has returned. The tunnel
  server's result is always sent; that of an HTTP server only if it is an error other than \<open>http.ErrServerClosed\<close>.
\<close>

datatype serve_signal = Interrupted | TunnelEnds "go_error option" | HttpEnds "go_error option"

definition ErrServerClosed :: go_error where "ErrServerClosed = ErrText ''http: Server closed''"

datatype serve_end = ShutDown | Failed "go_error option" | Waiting

fun serve_wait :: "serve_signal list \<Rightarrow> serve_end" where
  "serve_wait [] = Waiting"
| "serve_wait (Interrupted # sigs) = ShutDown"
| "serve_wait (TunnelEnds err # sigs) = Failed err"
| "serve_wait (HttpEnds err # sigs) =
     (if err \<noteq> None \<and> err \<noteq> Some ErrServerClosed then Failed err else serve_wait sigs)"

text \<open>What \<open>runServe\<close> returns, once it returns.\<close>

definition serve_result :: "serve_end \<Rightarrow> go_error option" where
  "serve_result e = (case e of Failed err \<Rightarrow> err | _ \<Rightarrow> None)"

section \<open>What the loop does\<close>

fun accepted_conns :: "'c accepted list \<Rightarrow> (bytes \<times> 'c) list" where
  "accepted_conns [] = []"
| "accepted_conns (AcceptFails cancelled # script) = (if cancelled then [] else accepted_conns script)"
| "accepted_conns (NewConn now remote c # script) = (remote, c) # accepted_conns script"

fun decided_conns :: "'c accept_action list \<Rightarrow> (bytes \<times> 'c) list" where
  "decided_conns [] = []"
| "decided_conns (Handles remote c # acts) = (remote, c) # decided_conns acts"
| "decided_conns (Closes remote c # acts) = (remote, c) # decided_conns acts"
| "decided_conns (LogsFailure # acts) = decided_conns acts"

lemma accept_loop_decides: "decided_conns (fst (accept_loop lib script ts)) = accepted_conns script"
  by (induction script arbitrary: ts rule: accepted_conns.induct) (simp_all add: split_beta)

lemma accept_loop_returns:
  "fst (snd (accept_loop lib script ts)) = (if AcceptFails True \<in> set script then Returns None else StillServing)"
  by (induction script arbitrary: ts rule: accepted_conns.induct) (simp_all add: split_beta)

text \<open>The hosts that connect, with the times, and the connections and decisions of one host.\<close>

fun knocks :: "'c accepted list \<Rightarrow> (int \<times> bytes) list" where
  "knocks [] = []"
| "knocks (AcceptFails cancelled # script) = (if cancelled then [] else knocks script)"
| "knocks (NewConn now remote c # script) =
     (case GoHttp.SplitHostPort remote of None \<Rightarrow> knocks script | Some (host, port) \<Rightarrow> (now, host) # knocks script)"

definition remote_is :: "bytes \<Rightarrow> bytes \<Rightarrow> bool" where
  "remote_is host remote = (case GoHttp.SplitHostPort remote of None \<Rightarrow> False | Some (h, port) \<Rightarrow> h = host)"

fun comes_from :: "bytes \<Rightarrow> 'c accepted \<Rightarrow> bool" where
  "comes_from host (NewConn now remote c) = remote_is host remote"
| "comes_from host (AcceptFails cancelled) = cancelled"

fun decides_on :: "bytes \<Rightarrow> 'c accept_action \<Rightarrow> bool" where
  "decides_on host (Handles remote c) = remote_is host remote"
| "decides_on host (Closes remote c) = remote_is host remote"
| "decides_on host LogsFailure = False"

fun conns_of :: "bytes \<Rightarrow> 'c accepted list \<Rightarrow> (bytes \<times> 'c) list" where
  "conns_of host [] = []"
| "conns_of host (AcceptFails cancelled # script) = (if cancelled then [] else conns_of host script)"
| "conns_of host (NewConn now remote c # script) = (if remote_is host remote then [(remote, c)] else []) @ conns_of host script"

definition decide :: "bytes \<times> 'c \<Rightarrow> bool \<Rightarrow> 'c accept_action" where
  "decide rc ok = (if ok then Handles (fst rc) (snd rc) else Closes (fst rc) (snd rc))"

lemma decisions_of_host:
  "filter (decides_on host) (fst (accept_loop lib script ts))
    = map2 decide (conns_of host script) (answers host (knocks script) (RateLimit.run (Allow lib) (knocks script) (ts_handshake_limiter ts)))"
proof (induction script arbitrary: ts rule: knocks.induct)
  case (3 now remote c script)
  then show ?case
    by (cases "GoHttp.SplitHostPort remote")
      (auto simp: admit_def split_beta answers_def remote_is_def decide_def split: prod.splits)
qed (simp_all add: answers_def split_beta)

lemma knocks_of_host: "knocks (filter (comes_from host) script) = filter (\<lambda>q. snd q = host) (knocks script)"
  by (induction script rule: knocks.induct) (auto simp: remote_is_def split: option.splits)

lemma conns_of_host: "conns_of host (filter (comes_from host) script) = conns_of host script"
  by (induction host script rule: conns_of.induct) auto

lemma only_host_decided: "list_all (decides_on host) (fst (accept_loop lib (filter (comes_from host) script) ts))"
  by (induction script arbitrary: ts rule: accepted_conns.induct) (auto simp: split_beta)

lemma configured_rate_fills:
  fixes cfg :: tunnel_config
  defines "perMinute \<equiv> (if tc_rate_per_minute cfg \<le> 0 then 10 else tc_rate_per_minute cfg)"
  assumes "tc_rate_per_minute cfg \<le> 0 \<or> 3 / 5 \<le> tc_rate_per_minute cfg"
  shows "fill_time (perMinute / 60) 3 \<le> rateLimiterIdleTTL"
proof -
  have "3 / 5 \<le> perMinute" using assms(2) by (auto simp: perMinute_def)
  then have "3 / (perMinute / 60) * 1000000 \<le> 300000000" by (simp add: field_simps)
  then have "\<lceil>3 / (perMinute / 60) * 1000000\<rceil> \<le> 300000000" by (simp add: ceiling_le_iff)
  then show ?thesis by (simp add: fill_time_def rateLimiterIdleTTL_def)
qed

text \<open>
  C20. No address can use up another's connections. For the whole run of the accept loop, with any failures of \<open>Accept\<close> and any connections
  in between, the connections of one host are handled or closed exactly as if that host were the only one to connect: a flood
  from other addresses makes the server refuse no agent. This needs a clock that does not run backwards, a bucket that behaves as
  documented (left alone for the time its three tokens take at the configured rate, it is full again), and a configured rate of at least
  0.6 handshakes a minute, or none, which stands for ten: at a smaller rate the bucket of a host is dropped before it is full.
\<close>
theorem hosts_are_admitted_independently:
  assumes "ts = NewTunnelServer cfg" and "tc_rate_per_minute cfg \<le> 0 \<or> 3 / 5 \<le> tc_rate_per_minute cfg"
    and "refills lib (il_rps (ts_handshake_limiter ts)) 3 (fill_time (il_rps (ts_handshake_limiter ts)) 3) used"
    and "sorted (map fst (knocks script))"
  shows "filter (decides_on host) (fst (ListenAndServe lib None script ts)) = fst (ListenAndServe lib None (filter (comes_from host) script) ts)"
proof -
  let ?l = "ts_handshake_limiter ts" and ?script = "filter (comes_from host) script"
  have l: "?l = NewIPLimiter (il_rps ?l) 3 rateLimiterIdleTTL"
    by (simp add: assms(1) NewTunnelServer_def Let_def NewIPLimiter_def)
  have "fill_time (il_rps ?l) 3 \<le> rateLimiterIdleTTL"
    using configured_rate_fills [OF assms(2)] by (simp add: assms(1) NewTunnelServer_def Let_def NewIPLimiter_def)
  then have r: "refills lib (il_rps ?l) 3 rateLimiterIdleTTL used" using refills_mono [OF assms(3)] by blast
  have one: "answers host (knocks scr) (RateLimit.run (Allow lib) (knocks scr) ?l)
      = RateLimit.run (Allow lib) (filter (\<lambda>q. snd q = host) (knocks scr)) ?l" if "sorted (map fst (knocks scr))" for scr
    using limits_are_per_key [OF r that] l by metis
  have "sorted (map fst (knocks ?script))" unfolding knocks_of_host using sorted_map_filter_fst [OF assms(4)] .
  note both = one [OF assms(4)] one [OF this]
  have "fst (accept_loop lib ?script ts) = filter (decides_on host) (fst (accept_loop lib ?script ts))"
    using only_host_decided [of host lib script ts] by (simp add: filter_id_conv list_all_iff)
  then show ?thesis unfolding ListenAndServe_def option.case
    using both by (simp add: decisions_of_host knocks_of_host conns_of_host)
qed

section \<open>The loop as events of the server\<close>

text \<open>The events of the running server that a script of connections stands for; a connection is named by what its handler draws and receives.\<close>

fun joins :: "(bytes \<times> conn \<times> nat) accepted list \<Rightarrow> 'l server_event list" where
  "joins [] = []"
| "joins (AcceptFails cancelled # script) = (if cancelled then [] else joins script)"
| "joins (NewConn now remote (rnd, cn, sid) # script) = AgentJoins now remote rnd cn sid # joins script"

fun handled :: "platform \<Rightarrow> 'l tunnel_server \<Rightarrow> (bytes \<times> conn \<times> nat) accept_action \<Rightarrow> edge \<Rightarrow> edge" where
  "handled p ts (Handles remote (rnd, cn, sid)) st = snd (handleConn p ts rnd cn sid st)"
| "handled p ts (Closes remote c) st = st"
| "handled p ts LogsFailure st = st"

lemma handled_limiter: "handled p (ts\<lparr>ts_handshake_limiter := l\<rparr>) act st = handled p ts act st"
  by (cases "(p, ts, act, st)" rule: handled.cases) (simp_all add: handleConn_def cong: option.case_cong)

lemma admit_limiter: "admit lib now remote ts = (ok, ts1) \<Longrightarrow> handled p ts1 = handled p ts"
  by (intro ext) (auto simp: admit_def handled_limiter split: option.splits prod.splits)

lemma accept_loop_is_joins:
  "fold (run_event p lib assets) (joins script) s
    = set_edge (fold (handled p (sv_tunnels s)) (fst (accept_loop lib script (sv_tunnels s))) (edge_of s))
        (s\<lparr>sv_tunnels := snd (snd (accept_loop lib script (sv_tunnels s)))\<rparr>)"
proof (induction script arbitrary: s rule: joins.induct)
  case (3 now remote rnd cn sid script)
  obtain ok ts1 where a: "admit lib now remote (sv_tunnels s) = (ok, ts1)" by fastforce
  obtain sess st where h: "handleConn p ts1 rnd cn sid (edge_of s) = (sess, st)" by fastforce
  let ?s1 = "(if ok then set_edge st (s\<lparr>sv_tunnels := ts1\<rparr>) else s\<lparr>sv_tunnels := ts1\<rparr>)"
  have s1: "run_event p lib assets (AgentJoins now remote rnd cn sid) s = ?s1" using a h by (simp add: run_event_def)
  have hd: "handled p (sv_tunnels s) = handled p ts1" using admit_limiter [OF a] by simp
  show ?case using 3 [of ?s1] a h by (cases ok) (simp_all add: s1 hd split_beta, simp_all add: set_edge_def edge_of_def)
qed (simp_all add: set_edge_def edge_of_def split_beta)

section \<open>How it ends\<close>

text \<open>The tunnel listener ends only with the context, or when the address cannot be listened on; no failure of \<open>Accept\<close> ends it.\<close>

lemma listener_ends:
  "fst (snd (ListenAndServe lib listen_err script ts)) = Returns e
    \<longleftrightarrow> (case listen_err of Some m \<Rightarrow> e = Some (ErrText m) | None \<Rightarrow> e = None \<and> AcceptFails True \<in> set script)"
  by (auto simp: ListenAndServe_def accept_loop_returns split: option.splits)

text \<open>A failing accept is logged and repeated at once: the loop has no delay, whatever the number of failures.\<close>

lemma accept_failures_spin:
  "ListenAndServe lib None (replicate n (AcceptFails False) @ script) ts
    = (case ListenAndServe lib None script ts of (acts, res) \<Rightarrow> (replicate n LogsFailure @ acts, res))"
  unfolding ListenAndServe_def option.case by (induction n) (auto simp: split_beta)

text \<open>An error the command reports is the tunnel listener's or an HTTP server's own; an HTTP server that was closed is none.\<close>

lemma serve_wait_cases:
  "serve_wait sigs = Failed (Some e) \<Longrightarrow> TunnelEnds (Some e) \<in> set sigs \<or> (HttpEnds (Some e) \<in> set sigs \<and> e \<noteq> ErrServerClosed)"
  by (induction sigs rule: serve_wait.induct) (auto split: if_splits)

lemma closed_servers_are_no_failure: "serve_wait (filter (\<lambda>g. g \<notin> {HttpEnds None, HttpEnds (Some ErrServerClosed)}) sigs) = serve_wait sigs"
  by (induction sigs rule: serve_wait.induct) auto

section \<open>A concrete run\<close>

text \<open>One connection a second in a token bucket of three: the fourth of a host within the same second is closed, another host is let in.\<close>

definition demo_knocking :: "nat accepted list" where
  "demo_knocking = [NewConn 0 ''10.0.0.7:4000'' 1, NewConn 1 ''10.0.0.8:9999'' 2, AcceptFails False, NewConn 2 ''10.0.0.7:4001'' 3,
     NewConn 3 ''pipe'' 4, NewConn 4 ''10.0.0.7:4002'' 5, NewConn 5 ''10.0.0.7:4003'' 6, NewConn 2000000 ''10.0.0.7:4004'' 7,
     AcceptFails True, NewConn 2600000 ''10.0.0.9:1'' 8]"

definition demo_listener :: "token_bucket tunnel_server" where
  "demo_listener = NewTunnelServer \<lparr>tc_public_host = ''example.com'', tc_public_tls = False, tc_rate_per_minute = 60\<rparr>"

lemma demo_remotes:
  "GoHttp.SplitHostPort ''10.0.0.7:4000'' = Some (''10.0.0.7'', ''4000'')" "GoHttp.SplitHostPort ''10.0.0.8:9999'' = Some (''10.0.0.8'', ''9999'')"
  "GoHttp.SplitHostPort ''10.0.0.7:4001'' = Some (''10.0.0.7'', ''4001'')" "GoHttp.SplitHostPort ''pipe'' = None"
  "GoHttp.SplitHostPort ''10.0.0.7:4002'' = Some (''10.0.0.7'', ''4002'')" "GoHttp.SplitHostPort ''10.0.0.9:1'' = Some (''10.0.0.9'', ''1'')"
  "GoHttp.SplitHostPort ''10.0.0.7:4003'' = Some (''10.0.0.7'', ''4003'')" "GoHttp.SplitHostPort ''10.0.0.7:4004'' = Some (''10.0.0.7'', ''4004'')"
  by code_simp+

theorem hosts_are_admitted_independently_witness:
  "filter (decides_on ''10.0.0.7'') (fst (ListenAndServe token_lib None demo_knocking demo_listener))
     = [Handles ''10.0.0.7:4000'' 1, Handles ''10.0.0.7:4001'' 3, Handles ''10.0.0.7:4002'' 5, Closes ''10.0.0.7:4003'' 6, Handles ''10.0.0.7:4004'' 7]"
proof -
  have s: "sorted (map fst (knocks demo_knocking))" by (simp add: demo_knocking_def demo_remotes)
  have r: "il_rps (ts_handshake_limiter demo_listener) = 1" by (simp add: demo_listener_def NewTunnelServer_def NewIPLimiter_def)
  have "refills token_lib (il_rps (ts_handshake_limiter demo_listener)) 3 (fill_time (il_rps (ts_handshake_limiter demo_listener)) 3) (token_used 1 3)"
    unfolding r by (rule token_refills) simp_all
  from hosts_are_admitted_independently [OF demo_listener_def _ this s, of "''10.0.0.7''"] show ?thesis
    by (simp add: demo_knocking_def demo_remotes remote_is_def ListenAndServe_def admit_def Allow_def Let_def sweepLocked_def
        demo_listener_def NewTunnelServer_def NewIPLimiter_def token_lib_def rateLimiterIdleTTL_def)
qed

text \<open>
  A slow rate is not enforced. At one handshake in a hundred minutes a host uses its three, waits five minutes, and when the limiter has dropped
  its bucket it has three more; the bucket itself would by then hold a twentieth of one.
\<close>

definition demo_slow :: "nat accepted list" where
  "demo_slow = [NewConn 0 ''10.0.0.7:4000'' 1, NewConn 1 ''10.0.0.7:4001'' 2, NewConn 2 ''10.0.0.7:4002'' 3,
     NewConn 300000010 ''10.0.0.7:4003'' 4, NewConn 300000011 ''10.0.0.7:4004'' 5, NewConn 300000012 ''10.0.0.7:4000'' 6]"

theorem slow_rate_is_not_enforced:
  "fst (ListenAndServe token_lib None demo_slow
      (NewTunnelServer \<lparr>tc_public_host = ''example.com'', tc_public_tls = False, tc_rate_per_minute = 1 / 100\<rparr>))
     = [Handles ''10.0.0.7:4000'' 1, Handles ''10.0.0.7:4001'' 2, Handles ''10.0.0.7:4002'' 3,
        Handles ''10.0.0.7:4003'' 4, Handles ''10.0.0.7:4004'' 5, Handles ''10.0.0.7:4000'' 6]
   \<and> RateLimit.run (ideal_allow token_lib (1 / 6000) 3) (knocks demo_slow) Map.empty = [True, True, True, False, False, False]"
  by (simp add: demo_slow_def demo_remotes ListenAndServe_def admit_def Allow_def Let_def sweepLocked_def ideal_allow_def
      NewTunnelServer_def NewIPLimiter_def token_lib_def rateLimiterIdleTTL_def)

end
