(* ===== verification/QueueGrowth.thy ===== *)
theory QueueGrowth
  imports Server
begin

text \<open>
  What the events of the server do to the queue of one tunnel: only the owner's calls of the control API and the replays of that tunnel take
  anything out of it; all other events leave it or add at its end.
\<close>

section \<open>Growing queues\<close>

definition grown :: "int \<Rightarrow> db \<Rightarrow> db \<Rightarrow> bool" where
  "grown k d d' = prefix (queue k d) (queue k d')"

lemma grown_refl [simp]: "grown k d d"
  by (simp add: grown_def)

lemma grown_trans: "grown k d d1 \<Longrightarrow> grown k d1 d2 \<Longrightarrow> grown k d d2"
  unfolding grown_def by (rule prefix_order.trans)

lemma grown_same: "queue k d' = queue k d \<Longrightarrow> grown k d d'"
  by (simp add: grown_def)

lemma events_queue: "db_events d' = db_events d \<Longrightarrow> queue k d' = queue k d"
  by (simp add: queue_sort)

lemma insert_grown:
  assumes "db_wf d"
  shows "grown k d (snd (sql_insert_event tid meth path query h body d))"
proof (cases "tid \<in> tn_id ` set (db_tunnels d)")
  case True
  let ?e = "\<lparr>ev_id = db_next_event d, ev_tunnel = tid, ev_method = meth, ev_path = path, ev_query = query, ev_headers = h,
    ev_body = body, ev_received = db_now d, ev_state = EventQueued, ev_attempts = 0, ev_last_status = 0, ev_delivered = None\<rparr>"
  have "ev_pos y \<le> ev_pos ?e" if "y \<in> set (db_events d)" for y
    using that assms by (force simp: ev_pos_def less_eq_queue_pos_def wf_defs)
  then have "sort_key ev_pos (db_events d @ [?e]) = sort_key ev_pos (db_events d) @ [?e]" by (rule sort_key_snoc_max)
  then show ?thesis using True by (simp add: grown_def queue_def timeline_def sql_insert_event_def)
qed (simp add: sql_insert_event_def grown_def queue_def timeline_def)

lemma EnqueueEvent_grown:
  assumes "db_wf d"
  shows "grown k d (snd (EnqueueEvent tid meth path query headers body d))"
proof -
  obtain x d0 where n: "next_outcome d = (x, d0)" by fastforce
  have "grown k d d0" using next_outcome_tables [OF n] by (intro grown_same events_queue) simp
  moreover have "db_wf d0" using next_outcome_good [OF assms n] by simp
  ultimately show ?thesis
    using insert_grown [of d0 k tid meth path query "json_header headers" body] grown_trans
    by (auto simp: EnqueueEvent_def Let_def sql_def n split: outcome.split)
qed

lemma ServeOffline_grown: "db_wf d \<Longrightarrow> grown k d (snd (ServeOffline p r t (w, d)))"
proof (cases rule: ServeOffline_db [of p r t w d])
  case page
  then show ?thesis using same_tables_queue GetSnapshot_same by (intro grown_same) metis
qed (auto simp: EnqueueEvent_grown)

lemma forwardLive_queue: "queue k (snd (forwardLive p reads io r x tid (w, d))) = queue k d"
  by (cases rule: forwardLive_db [of p reads io r x tid w d]) (auto simp: PutSnapshot_events intro: events_queue)

lemma dispatch_grown:
  assumes "db_wf (ed_db st)" and "dispatch p (router_config_of p assets env cfg) reads io agent sub r t (w, st) = (a, st')"
  shows "grown k (ed_db st) (ed_db st')"
  using assms(2)
proof (cases rule: dispatch_cases)
  case (live sess err rd l d)
  then show ?thesis using forwardLive_queue [of k p reads io r "agent sess" "tn_id t" w "ed_db st"] by (simp add: grown_def)
next
  case (away sv rd d)
  then show ?thesis using ServeOffline_grown [OF assms(1), of k p r t w] by (simp add: serveOffline_def router_config_of_def)
qed

lemma serve_tunnel_grown:
  assumes "db_wf (ed_db st)" and "serve_tunnel p (router_config_of p assets env cfg) reads io agent sub r (w, st) = (a, st')"
  shows "grown k (ed_db st) (ed_db st')"
proof -
  obtain res d1 where l: "TunnelBySubdomain sub (ed_db st) = (res, d1)" by fastforce
  have q: "grown k (ed_db st) d1" "db_wf d1"
    using TunnelBySubdomain_same [of "ed_db st" sub] good_same [OF good_TunnelBySubdomain assms(1) l] same_tables_queue l
    by (auto simp: grown_def)
  show ?thesis
  proof (cases res)
    case (Inl e)
    then have "ed_db st' = d1" using assms(2) l by (auto simp: serve_tunnel_def Let_def split: if_splits)
    then show ?thesis using q(1) by simp
  next
    case (Inr t)
    then have "dispatch p (router_config_of p assets env cfg) reads io agent sub r t (w, st\<lparr>ed_db := d1\<rparr>) = (a, st')"
      using assms(2) l by (simp add: serve_tunnel_found)
    from dispatch_grown [OF _ this, of k] show ?thesis using q grown_trans by auto
  qed
qed

lemma ServeHTTP_grown:
  assumes "db_wf (ed_db (gw_edge gw))" and "ServeHTTP p lib (router_config_of p assets env cfg) reads io agent now r (w, gw) = (a, gw')"
    and "host_subdomain p (sc_public_host cfg) (req_host r) \<noteq> []"
  shows "grown k (ed_db (gw_edge gw)) (ed_db (gw_edge gw'))"
proof -
  let ?sub = "host_subdomain p (sc_public_host cfg) (req_host r)" and ?cfg = "router_config_of p assets env cfg"
  have host: "host_subdomain p (rc_base_host ?cfg) (req_host r) = ?sub" by (simp add: router_config_of_def)
  obtain ok l where al: "Allow_nil lib now (clientIP r @ ''|'' @ ?sub) (gw_tunnel_limiter gw) = (ok, l)" by fastforce
  show ?thesis
  proof (cases ok)
    case False
    then show ?thesis using assms(2,3) al host by (auto simp: ServeHTTP_def Let_def)
  next
    case True
    obtain a1 st' where st: "serve_tunnel p ?cfg reads io agent ?sub r (w, gw_edge gw) = (a1, st')" by fastforce
    have "gw_edge gw' = st'" using assms(2,3) al True st host by (auto simp: ServeHTTP_def Let_def)
    then show ?thesis using serve_tunnel_grown [OF assms(1) st] by simp
  qed
qed

section \<open>Connections and replays\<close>

lemma ClaimTunnel_events: "db_events (snd (ClaimTunnel uid sub rules d)) = db_events d"
proof -
  have look: "db_events (snd (sql ok (sql_tunnel_by P) d)) = db_events d" for ok P d
    by (rule sql_events) (simp add: sql_tunnel_by_def split: option.split)
  have ins: "db_events (snd (sql ok (sql_insert_tunnel uid sub js) d)) = db_events d" for ok js d
    by (rule sql_events) (simp add: sql_insert_tunnel_def Let_def)
  have upd: "db_events (snd (sql ok (sql_update_rules js i) d)) = db_events d" for ok js i d
    by (rule sql_events) (simp add: sql_update_rules_def)
  obtain res d1 where r: "sql (pg_text sub) (sql_tunnel_by (\<lambda>t. tn_sub t = sub)) d = (res, d1)" by fastforce
  have d1: "db_events d1 = db_events d" using look [of "pg_text sub" "\<lambda>t. tn_sub t = sub" d] r by simp
  have "db_events (snd (and_then (map_err (Wrap ''update buffer rules'') (sql ok (sql_update_rules js i))) (\<lambda>_. ret t) d1)) = db_events d1"
    for ok js i and t :: tunnel
    by (rule and_then_events) (simp_all add: snd_map_err upd ret_def)
  then show ?thesis using d1 ins [of _ _ d1]
    by (simp add: ClaimTunnel_def Let_def r snd_map_err split: sum.split)
qed

lemma authenticate_events: "db_events (snd (authenticate p h tls rnd hs d)) = db_events d"
proof -
  obtain x d1 where x: "UserByToken p (hs_token hs) d = (x, d1)" by fastforce
  have d1: "db_events d1 = db_events d" using UserByToken_same [of d p "hs_token hs"] x by (simp add: same_tables_def)
  have "db_events (snd (ClaimTunnel uid sub rules d1)) = db_events d" for uid sub rules by (simp add: ClaimTunnel_events d1)
  then show ?thesis using d1
    by (auto simp: authenticate_def x Let_def split: sum.split prod.split) (metis snd_conv)+
qed

lemma handleConn_events: "db_events (ed_db (snd (handleConn p ts rnd cn sid st))) = db_events (ed_db st)"
proof -
  have t: "db_events d' = db_events d" if "TunnelBySubdomain sub d = (res, d')" for sub d res d'
    using TunnelBySubdomain_same [of d sub] that by (simp add: same_tables_def)
  have a: "db_events d1 = db_events (ed_db st)"
    if "authenticate p (ts_public_host ts) (ts_public_tls ts) rnd hs (ed_db st) = (reply, d1)" for hs reply d1
    using authenticate_events [of p "ts_public_host ts" "ts_public_tls ts" rnd hs "ed_db st"] that by simp
  show ?thesis by (auto simp: handleConn_def Let_def t a split: option.split prod.split)
qed

lemma touches_queue:
  assumes "touches I D d d'" and "\<And>e. e \<in> set (db_events d) \<Longrightarrow> ev_id e \<in> I \<Longrightarrow> ev_tunnel e \<noteq> k"
  shows "queue k d' = queue k d"
proof -
  have "queued_for k = (\<lambda>e. ev_tunnel e = k \<and> ev_state e = EventQueued)" by (rule ext) (simp add: queued_for_def)
  then have "queue k x = sort_key ev_pos (filter (\<lambda>e. ev_state e = EventQueued) (events_of k x))" for x
    by (simp add: queue_sort events_of_def)
  then show ?thesis using touches_events_of [OF assms] by simp
qed

lemma Drain_other_queue:
  assumes "db_wf d" and "k \<noteq> tid"
  shows "queue k (snd (Drain tid (lk, d))) = queue k d"
proof -
  obtain n where "touches (ev_id ` set (queue tid d)) (ev_id ` set (take n (queue tid d))) d (snd (Drain tid (lk, d)))"
    using Drain_touches by blast
  moreover have "ev_tunnel e \<noteq> k" if e: "e \<in> set (db_events d)" "ev_id e \<in> ev_id ` set (queue tid d)" for e
  proof -
    obtain q where "q \<in> set (queue tid d)" "ev_id q = ev_id e" using e(2) by auto
    moreover from this have "q = e" using inj_on_key [of ev_id "db_events d" q e] queue_events e(1) assms(1) by (auto simp: wf_defs)
    ultimately show ?thesis using queue_member assms(2) by (auto simp: queued_for_def)
  qed
  ultimately show ?thesis by (rule touches_queue)
qed

section \<open>Every event but the owner's\<close>

text \<open>
  Only these can take something out of the queue of the tunnel with number \<open>k\<close>: a call of the control API, on its own listener or through the apex host, and a
  replay, whole or one step, for that tunnel.
\<close>

fun leaves_queue :: "platform \<Rightarrow> bytes \<Rightarrow> int \<Rightarrow> 'l server_event \<Rightarrow> bool" where
  "leaves_queue p base k (Visit env reads io agent r) = (host_subdomain p base (req_host r) \<noteq> [])"
| "leaves_queue p base k (ControlCall env r) = False"
| "leaves_queue p base k (OnConnect sess lk) = (se_tunnel sess \<noteq> k)"
| "leaves_queue p base k (ReplayStep e lk) = False"
| "leaves_queue p base k ev = True"

lemma event_grown:
  assumes "db_wf (ed_db (edge_of s))" and "leaves_queue p (sc_public_host (sv_config s)) k ev"
  shows "grown k (ed_db (edge_of s)) (ed_db (edge_of (run_event p lib assets ev s)))"
proof (cases ev)
  case (Visit env reads io agent r)
  obtain a gw where v: "ServeHTTP p lib (router_config_of p assets env (sv_config s)) reads io agent (ae_now env) r
      (new_writer, sv_gateway s) = (a, gw)" by fastforce
  show ?thesis using ServeHTTP_grown [OF _ v] assms Visit v by (simp add: run_event_def edge_of_def)
next
  case (AgentJoins now remote rnd cn sid)
  obtain ok ts where a: "admit lib now remote (sv_tunnels s) = (ok, ts)" by fastforce
  obtain sess st where h: "handleConn p ts rnd cn sid (edge_of s) = (sess, st)" by fastforce
  have "edge_of (run_event p lib assets ev s) = (if ok then st else edge_of s)"
    using AgentJoins a h by (simp add: run_event_def, simp add: edge_of_def)
  then show ?thesis using handleConn_events [of p ts rnd cn sid "edge_of s"] h by (auto intro: grown_same events_queue)
next
  case (OnConnect sess lk)
  obtain lk' st where o: "on_connect sess lk (edge_of s) = (lk', st)" by fastforce
  then have "queue k (ed_db st) = queue k (ed_db (edge_of s))"
    using Drain_other_queue [OF assms(1), of k "se_tunnel sess" lk] assms(2) OnConnect by (auto simp: on_connect_def split: prod.splits)
  then show ?thesis using OnConnect o by (simp add: run_event_def grown_def)
next
  case (TimePasses t)
  then show ?thesis by (simp add: run_event_def pass_time_def grown_def queue_sort)
qed (use assms(2) in \<open>simp_all add: run_event_def loop_tick_def loop_close_def Let_def\<close>)

end
