(* ===== verification/Journeys.thy ===== *)
theory Journeys
  imports QueueGrowth
begin

text \<open>
  Two journeys through the whole server. A webhook that arrives while the agent is away is acknowledged, waits in the database and reaches the local
  application when the agent is back; a page that was fetched through the agent is served from the cache
  after the agent has left.
\<close>

section \<open>A webhook's way\<close>

lemma visit_202:
  assumes "db_wf (ed_db (edge_of s))"
    and "handle_event p lib assets (Visit env reads io agent r) s = (Visited (Answered (Reply w)), s')" and "client_status w = 202"
    and "host_subdomain p (sc_public_host (sv_config s)) (req_host r) = sub" and "sub \<noteq> []"
  obtains t i now where "t \<in> set (db_tunnels (ed_db (edge_of s)))" and "tn_sub t = sub"
    and "queue (tn_id t) (ed_db (edge_of s')) = queue (tn_id t) (ed_db (edge_of s)) @
        [stored_event (tn_id t) (req_method r) (req_path r) (req_query r) (req_header r) (body_data (req_body r)) i now]"
    and "\<not> body_err (req_body r)"
proof -
  let ?cfg = "router_config_of p assets env (sv_config s)" and ?gw = "sv_gateway s"
  have host: "host_subdomain p (rc_base_host ?cfg) (req_host r) = sub" using assms(4) by (simp add: router_config_of_def)
  obtain gw where v: "ServeHTTP p lib ?cfg reads io agent (ae_now env) r (new_writer, ?gw) = (Answered (Reply w), gw)"
    "s' = s\<lparr>sv_gateway := gw\<rparr>" using assms(2) by (auto split: prod.splits)
  obtain ok l where al: "Allow_nil lib (ae_now env) (clientIP r @ ''|'' @ sub) (gw_tunnel_limiter ?gw) = (ok, l)" by fastforce
  have "client_status (tooManyRequests new_writer) = 429" by (simp add: tooManyRequests_def new_writer_def)
  moreover have "w = tooManyRequests new_writer" if "\<not> ok" using v(1) al host assms(5) that by (auto simp: ServeHTTP_def Let_def)
  ultimately have ok: "ok" using assms(3) by (cases ok) auto
  obtain a st' where st: "serve_tunnel p ?cfg reads io agent sub r (new_writer, edge_of s) = (a, st')" by fastforce
  have "ServeHTTP p lib ?cfg reads io agent (ae_now env) r (new_writer, ?gw) = (a, ?gw\<lparr>gw_tunnel_limiter := l, gw_edge := st'\<rparr>)"
    using ServeHTTP_admitted [OF host assms(5)] al ok st by (simp add: edge_of_def)
  then have a: "a = Answered (Reply w)" "edge_of s' = st'" using v by (simp_all add: edge_of_def)
  obtain res d where t0: "TunnelBySubdomain sub (ed_db (edge_of s)) = (res, d)" by fastforce
  obtain t where t: "res = Inr t" using st a(1) t0 assms(3)
    by (cases res) (auto simp: serve_tunnel_def Let_def new_writer_def split: if_splits)
  note t' = TunnelBySubdomain_Inr [OF t0 [unfolded t]]
  have wf: "db_wf d" using good_same [OF good_TunnelBySubdomain assms(1) t0] by blast
  from st a(1) have "dispatch p ?cfg reads io agent sub r t (new_writer, (edge_of s)\<lparr>ed_db := d\<rparr>) = (Answered (Reply w), st')"
    by (simp add: serve_tunnel_found t0 t)
  then show thesis
  proof (cases rule: dispatch_cases)
    case (away sv rd d2)
    then have "ServeOffline p r t (new_writer, d) = (Reply w, d2)" by (simp add: serveOffline_def router_config_of_def)
    from hook_queued [OF wf _ this assms(3)] have q: "\<not> body_err (req_body r)" "queue (tn_id t) d2 = queue (tn_id t) d @
        [stored_event (tn_id t) (req_method r) (req_path r) (req_query r) (req_header r) (body_data (req_body r)) (db_next_event d) (db_now d2)]"
      by (auto simp: new_writer_def)
    show thesis using that [of t "db_next_event d" "db_now d2"] t' q away(4) a(2) same_tables_queue [of "ed_db (edge_of s)" d "tn_id t"] by simp
  qed simp
qed

text \<open>The webhooks for one host that a sequence of events acknowledges: the requests of its visits to the host that are answered 202.\<close>

definition acknowledgment :: "platform \<Rightarrow> 'l bucket_lib \<Rightarrow> (request \<Rightarrow> writer \<Rightarrow> served) \<Rightarrow> bytes \<Rightarrow> 'l server_event \<Rightarrow> 'l server \<Rightarrow> request list" where
  "acknowledgment p lib assets sub ev s =
     (case (ev, fst (handle_event p lib assets ev s)) of
        (Visit env reads io agent r, Visited (Answered (Reply w))) \<Rightarrow>
          if client_status w = 202 \<and> host_subdomain p (sc_public_host (sv_config s)) (req_host r) = sub then [r] else []
      | _ \<Rightarrow> [])"

fun acknowledged :: "platform \<Rightarrow> 'l bucket_lib \<Rightarrow> (request \<Rightarrow> writer \<Rightarrow> served) \<Rightarrow> bytes \<Rightarrow> 'l server_event list \<Rightarrow> 'l server \<Rightarrow> request list" where
  "acknowledged p lib assets sub [] s = []"
| "acknowledged p lib assets sub (ev # evs) s =
     acknowledgment p lib assets sub ev s @ acknowledged p lib assets sub evs (run_event p lib assets ev s)"

definition carries :: "request \<Rightarrow> event \<Rightarrow> bool" where
  "carries r e = (ev_method e = req_method r \<and> ev_path e = req_path r \<and> ev_query e = req_query r \<and> ev_body e = body_data (req_body r)
     \<and> ev_headers e = json_header (req_header r))"

lemma carries_stored: "carries r (stored_event tid (req_method r) (req_path r) (req_query r) (req_header r) (body_data (req_body r)) i now)"
  by (simp add: carries_def stored_event_def)

lemma run_event_config [simp]: "sv_config (run_event p lib assets ev s) = sv_config s"
  by (cases ev) (auto simp: run_event_def set_edge_def split: prod.split)

lemma acknowledgment_one:
  assumes "db_wf (ed_db (edge_of s))" and "sub \<noteq> []" and "t \<in> set (db_tunnels (ed_db (edge_of s)))" and "tn_sub t = sub"
    and "acknowledgment p lib assets sub ev s = r0 # rs0"
  shows "rs0 = [] \<and> (\<exists>e. queue (tn_id t) (ed_db (edge_of (run_event p lib assets ev s))) = queue (tn_id t) (ed_db (edge_of s)) @ [e] \<and> carries r0 e)"
proof -
  obtain env reads io agent r where ev: "ev = Visit env reads io agent r"
    using assms(5) by (cases ev) (simp_all add: acknowledgment_def del: handle_event.simps)
  obtain w where h: "fst (handle_event p lib assets ev s) = Visited (Answered (Reply w))" "client_status w = 202"
    and host: "host_subdomain p (sc_public_host (sv_config s)) (req_host r) = sub" and ack: "r0 = r" "rs0 = []"
    using assms(5) unfolding acknowledgment_def ev
    by (simp del: handle_event.simps split: event_result.splits answer.splits served.splits if_splits)
  have h': "handle_event p lib assets (Visit env reads io agent r) s = (Visited (Answered (Reply w)), run_event p lib assets ev s)"
    using h(1) ev by (simp add: run_event_def prod_eq_iff del: handle_event.simps)
  obtain t1 i now where t1: "t1 \<in> set (db_tunnels (ed_db (edge_of s)))" "tn_sub t1 = sub"
    "queue (tn_id t1) (ed_db (edge_of (run_event p lib assets ev s))) = queue (tn_id t1) (ed_db (edge_of s)) @
        [stored_event (tn_id t1) (req_method r) (req_path r) (req_query r) (req_header r) (body_data (req_body r)) i now]"
    by (rule visit_202 [OF assms(1) h' h(2) host assms(2)])
  have "t1 = t" using t1 assms(1,3,4) inj_on_key [of tn_sub _ t1 t] by (auto simp: wf_defs)
  then show ?thesis using t1(3) carries_stored ack by blast
qed

lemma acknowledgment_cases:
  assumes "db_wf (ed_db (edge_of s))" and "sub \<noteq> []" and "t \<in> set (db_tunnels (ed_db (edge_of s)))" and "tn_sub t = sub"
    and "leaves_queue p (sc_public_host (sv_config s)) (tn_id t) ev"
  shows "\<exists>es. queue (tn_id t) (ed_db (edge_of (run_event p lib assets ev s))) = queue (tn_id t) (ed_db (edge_of s)) @ es
    \<and> (\<exists>es'. subseq es' es \<and> list_all2 carries (acknowledgment p lib assets sub ev s) es')"
proof (cases "acknowledgment p lib assets sub ev s")
  case Nil
  then show ?thesis using event_grown [OF assms(1,5), of lib assets] by (auto simp: grown_def prefix_def intro: exI [of _ "[]"])
next
  case (Cons r0 rs0)
  then show ?thesis using acknowledgment_one [OF assms(1-4)] by (fastforce intro: exI [of _ "[_]"])
qed

lemma acknowledged_queue:
  assumes "server_ok s" and "sub \<noteq> []" and "list_all (leaves_queue p (sc_public_host (sv_config s)) (tn_id t)) evs"
    and "t \<in> set (db_tunnels (ed_db (edge_of s)))" and "tn_sub t = sub"
  shows "\<exists>es. queue (tn_id t) (ed_db (edge_of (fold (run_event p lib assets) evs s))) = queue (tn_id t) (ed_db (edge_of s)) @ es
    \<and> (\<exists>es'. subseq es' es \<and> list_all2 carries (acknowledged p lib assets sub evs s) es')"
  using assms
proof (induction evs arbitrary: s t)
  case Nil
  then show ?case by (intro exI [of _ "[]"]) simp
next
  case (Cons ev evs)
  let ?s' = "run_event p lib assets ev s"
  have ok: "server_ok ?s'" "evolves (ed_db (edge_of s)) (ed_db (edge_of ?s'))" using run_event_ok [OF Cons.prems(1)] by auto
  obtain e1 f1 where one: "queue (tn_id t) (ed_db (edge_of ?s')) = queue (tn_id t) (ed_db (edge_of s)) @ e1" "subseq f1 e1"
    "list_all2 carries (acknowledgment p lib assets sub ev s) f1"
    using acknowledgment_cases [OF _ Cons.prems(2,4,5), of p ev lib assets] Cons.prems(1,3) by (auto simp: server_ok_def)
  obtain t' where t': "t' \<in> set (db_tunnels (ed_db (edge_of ?s')))" "tn_id t' = tn_id t" "tn_sub t' = sub"
    using evolves_tunnel [OF ok(2) Cons.prems(4)] Cons.prems(5) by (auto simp: tn_ident_def)
  obtain e2 f2 where rest: "queue (tn_id t) (ed_db (edge_of (fold (run_event p lib assets) evs ?s'))) = queue (tn_id t) (ed_db (edge_of ?s')) @ e2"
    "subseq f2 e2" "list_all2 carries (acknowledged p lib assets sub evs ?s') f2"
    using Cons.IH [OF ok(1) Cons.prems(2) _ t'(1,3)] Cons.prems(3) by (auto simp: t'(2))
  have "subseq (f1 @ f2) (e1 @ e2)" using one(2) rest(2) by (rule list_emb_append_mono)
  moreover have "list_all2 carries (acknowledged p lib assets sub (ev # evs) s) (f1 @ f2)"
    using one(3) rest(3) by (simp add: list_all2_appendI)
  ultimately show ?case using one(1) rest(1) by (intro exI [of _ "e1 @ e2"]) auto
qed

text \<open>
  A webhook can wait behind a connected agent. The queue is drained once per connection only; a webhook that comes in while the
  presence entry of a connected agent is missing (its previous connection has cleared it, or Redis has lost it) is acknowledged and
  queued, and the heartbeat that brings the agent back online leaves it in the queue.
\<close>
theorem queued_behind_a_connected_agent:
  assumes "server_ok s" and "acknowledgment p lib assets sub (Visit env reads io agent r) s = [r]" and "sub \<noteq> []"
    and "t \<in> set (db_tunnels (ed_db (edge_of s)))" and "tn_sub t = sub" and "Get sub (ed_registry (edge_of s)) = Some sess"
    and "s1 = run_event p lib assets (Visit env reads io agent r) s" and "rd_outcomes (ed_redis (edge_of s1)) = []"
    and "s2 = run_event p lib assets (AgentBeats sess) s1"
  shows "Get sub (ed_registry (edge_of s2)) = Some sess \<and> fst (IsOnline sub (ed_redis (edge_of s2))) = (True, None)
    \<and> (\<exists>e. queue (tn_id t) (ed_db (edge_of s2)) = queue (tn_id t) (ed_db (edge_of s)) @ [e] \<and> carries r e)"
proof -
  have wf: "db_wf (ed_db (edge_of s))" and sub: "se_sub sess = sub" using assms(1,6) by (auto simp: server_ok_def sessions_ok_def)
  obtain a gw where v: "ServeHTTP p lib (router_config_of p assets env (sv_config s)) reads io agent (ae_now env) r
      (new_writer, sv_gateway s) = (a, gw)" by fastforce
  then have s1: "edge_of s1 = gw_edge gw" by (simp add: assms(7) run_event_def edge_of_def)
  have s2: "edge_of s2 = loop_tick sess (edge_of s1)" by (simp add: assms(9) run_event_def)
  have "ed_registry (edge_of s1) = ed_registry (edge_of s)" unfolding s1 using ServeHTTP_edge [OF _ v] wf by (simp add: edge_of_def)
  moreover have "fst (IsOnline sub (ed_redis (edge_of s2))) = (True, None)"
    using assms(8) sub by (simp add: s2 loop_tick_def Heartbeat_def IsOnline_def cmd_quiet redis_set_def redis_exists_def PresenceTTL_def)
  moreover obtain e where "queue (tn_id t) (ed_db (edge_of s1)) = queue (tn_id t) (ed_db (edge_of s)) @ [e]" "carries r e"
    using acknowledgment_one [OF wf assms(3,4,5,2)] assms(7) by auto
  ultimately show ?thesis using assms(6) by (auto simp: s2 loop_tick_def)
qed

section \<open>The agent comes back\<close>

lemma claim_own:
  assumes "db_outcomes d = []" and "db_wf d" and "t \<in> set (db_tunnels d)" and "tn_user t = uid" and "tn_sub t = sub" and "pg_text sub"
    and "json_ok (json_strings rules)"
  shows "ClaimTunnel uid sub rules d
    = (Inr t, d\<lparr>db_tunnels := map (\<lambda>x. if tn_id x = tn_id t then x\<lparr>tn_rules := json_strings rules\<rparr> else x) (db_tunnels d)\<rparr>)"
proof -
  have "find (\<lambda>x. tn_sub x = sub) (db_tunnels d) = Some t"
    using assms find_key_Some [of tn_sub "db_tunnels d" t] by (auto simp: wf_defs)
  then show ?thesis using assms(1,4,6,7)
    by (simp add: ClaimTunnel_def Let_def sql_def sql_tunnel_by_def and_then_def map_err_def sql_update_rules_def ret_def)
qed

definition good_conn :: "bytes \<Rightarrow> bytes \<Rightarrow> bytes list \<Rightarrow> conn \<Rightarrow> bool" where
  "good_conn token sub rules cn = (cn_mux cn \<and> cn_stream cn \<and> cn_reply cn
     \<and> cn_hello cn = Some \<lparr>hs_version = Version, hs_token = token, hs_subdomain = sub, hs_rules = rules\<rparr>)"

lemma owner_connects:
  assumes "db_outcomes (ed_db st) = []" and "db_wf (ed_db st)" and "t \<in> set (db_tunnels (ed_db st))" and "tn_sub t = sub" and "pg_text sub"
    and "json_ok (json_strings rules)" and "MatchString subdomainRE sub" and "sub \<noteq> []"
    and "\<lparr>tk_hash = hashToken p token, tk_user = tn_user t\<rparr> \<in> set (db_tokens (ed_db st))" and "good_conn token sub rules cn"
  obtains st' where "handleConn p ts rnd cn sid st = (Some \<lparr>se_id = sid, se_sub = sub, se_tunnel = tn_id t\<rparr>, st')"
    and "db_outcomes (ed_db st') = []" and "db_wf (ed_db st')" and "queue (tn_id t) (ed_db st') = queue (tn_id t) (ed_db st)"
    and "db_now (ed_db st') = db_now (ed_db st)"
proof -
  let ?d = "ed_db st"
  obtain u where u: "UserByToken p token ?d = (Inr u, ?d)" "u_id u = tn_user t" by (rule token_of_owner [OF assms(1,2,9)])
  let ?d1 = "?d\<lparr>db_tunnels := map (\<lambda>x. if tn_id x = tn_id t then x\<lparr>tn_rules := json_strings rules\<rparr> else x) (db_tunnels ?d)\<rparr>"
  let ?t1 = "t\<lparr>tn_rules := json_strings rules\<rparr>"
  have c: "ClaimTunnel (u_id u) sub rules ?d = (Inr t, ?d1)"
    using claim_own [OF assms(1-3) _ assms(4-6)] u(2) by simp
  have q1: "db_outcomes ?d1 = []" using assms(1) by simp
  have w1: "db_wf ?d1" using good_same [OF good_ClaimTunnel assms(2) c] by simp
  have m1: "?t1 \<in> set (db_tunnels ?d1)" using assms(3) by auto
  have t1: "TunnelBySubdomain sub ?d1 = (Inr ?t1, ?d1)"
    using tunnel_by_sub_found [OF w1 m1, of sub] assms(4,5) next_outcome_quiet [OF q1] by simp
  have a: "authenticate p (ts_public_host ts) (ts_public_tls ts) rnd \<lparr>hs_version = Version, hs_token = token, hs_subdomain = sub, hs_rules = rules\<rparr> ?d
      = (\<lparr>hr_ok = True, hr_error = [], hr_subdomain = sub,
          hr_url = (if ts_public_tls ts then ''https'' else ''http'') @ ''://'' @ sub @ ''.'' @ ts_public_host ts\<rparr>, ?d1)"
    using u(1) c assms(4,7,8) by (simp add: authenticate_def Let_def)
  have q: "queue (tn_id t) ?d1 = queue (tn_id t) ?d" by (simp add: queue_def timeline_def)
  show thesis
    using that [of "\<lparr>ed_db = ?d1, ed_redis = snd (Heartbeat sub (ed_redis st)), ed_registry = Put \<lparr>se_id = sid, se_sub = sub, se_tunnel = tn_id t\<rparr> (ed_registry st)\<rparr>"]
      a t1 q1 w1 q assms(10)
    by (simp add: handleConn_def good_conn_def Let_def)
qed

text \<open>
  C2. An acknowledged webhook reaches its destination. Let the agent of a tunnel be away and the server run any sequence of visits,
  handshakes, heartbeats, departures, limiter clean-ups, store failures and replays for other tunnels. When the agent of the owner
  connects next while the database answers, is admitted, and the local application answers every replayed request with a status below
  500, then the agent is sent exactly the queue: first what was queued before, then the webhooks of the sequence, among them, in the order in
  which they were acknowledged, every request that was answered 202, each with its method, path, query, body and headers (as JSON keeps
  them, with invalid UTF-8 replaced); and the queue is empty.
\<close>
theorem acknowledged_webhooks_are_delivered:
  assumes "server_ok s" and "list_all (leaves_queue p (sc_public_host (sv_config s)) (tn_id t)) evs" and "sub \<noteq> []"
    and "t \<in> set (db_tunnels (ed_db (edge_of s)))" and "tn_sub t = sub" and "s1 = fold (run_event p lib assets) evs s"
    and "db_outcomes (ed_db (edge_of s1)) = []"
    and "admit lib now remote (sv_tunnels s1) = (True, ts)" and "good_conn token sub rules cn"
    and "\<lparr>tk_hash = hashToken p token, tk_user = tn_user t\<rparr> \<in> set (db_tokens (ed_db (edge_of s)))"
    and "pg_text sub" and "json_ok (json_strings rules)" and "MatchString subdomainRE sub"
    and "lk_script lk = map Responds sts @ xs" and "length sts = length (queue (tn_id t) (ed_db (edge_of s1)))" and "list_all (\<lambda>c. c < 500) sts"
  shows "\<exists>s2 lk' s3 es acked. handle_event p lib assets (AgentJoins now remote rnd cn sid) s1
      = (Joined (Some \<lparr>se_id = sid, se_sub = sub, se_tunnel = tn_id t\<rparr>), s2)
    \<and> handle_event p lib assets (OnConnect \<lparr>se_id = sid, se_sub = sub, se_tunnel = tn_id t\<rparr> lk) s2 = (Replayed lk', s3)
    \<and> queue (tn_id t) (ed_db (edge_of s1)) = queue (tn_id t) (ed_db (edge_of s)) @ es
    \<and> lk_sent lk' = lk_sent lk @ map buildRequest (queue (tn_id t) (ed_db (edge_of s)) @ es)
    \<and> subseq acked es \<and> list_all2 carries (acknowledged p lib assets sub evs s) acked
    \<and> queue (tn_id t) (ed_db (edge_of s3)) = []"
proof -
  let ?d = "ed_db (edge_of s)" and ?d1 = "ed_db (edge_of s1)"
  have wf: "db_wf ?d" using assms(1) by (simp add: server_ok_def)
  have "server_ok s1 \<and> evolves ?d ?d1"
    using server.ops_inv [where d = ?d and p = p and lib = lib and assets = assets and ops = evs and s = s] assms(1,6) by (simp add: list_all_iff)
  then have wf1: "db_wf ?d1" and ev: "evolves ?d ?d1" by (simp_all add: server_ok_def)
  obtain es acked where es: "queue (tn_id t) ?d1 = queue (tn_id t) ?d @ es" "subseq acked es"
      "list_all2 carries (acknowledged p lib assets sub evs s) acked"
    using acknowledged_queue [OF assms(1,3,2,4,5), of lib assets] assms(6) by blast
  obtain t1 where t1: "t1 \<in> set (db_tunnels ?d1)" "tn_id t1 = tn_id t" "tn_user t1 = tn_user t" "tn_sub t1 = sub"
    using evolves_tunnel [OF ev assms(4)] assms(5) by (auto simp: tn_ident_def)
  have tok: "\<lparr>tk_hash = hashToken p token, tk_user = tn_user t1\<rparr> \<in> set (db_tokens ?d1)"
    using evolves_token [OF ev assms(10)] t1(3) by simp
  obtain st' where h: "handleConn p ts rnd cn sid (edge_of s1) = (Some \<lparr>se_id = sid, se_sub = sub, se_tunnel = tn_id t1\<rparr>, st')"
    and st': "db_outcomes (ed_db st') = []" "db_wf (ed_db st')" "queue (tn_id t1) (ed_db st') = queue (tn_id t1) ?d1"
    by (rule owner_connects [OF assms(7) wf1 t1(1,4) assms(11-13,3) tok assms(9)])
  have "0 < tn_id t1" using wf1 t1(1) by (auto simp: wf_defs)
  obtain lk' d2 where d2: "Drain (tn_id t) (lk, ed_db st') = (lk', d2)" by fastforce
  have dr: "lk_sent lk' = lk_sent lk @ map buildRequest (queue (tn_id t) ?d1) \<and> queue (tn_id t) d2 = []"
    using drain_all [OF st'(1,2) _ _ assms(16) assms(14) d2] assms(15) st'(3) t1(2) \<open>0 < tn_id t1\<close> by simp
  let ?sess = "\<lparr>se_id = sid, se_sub = sub, se_tunnel = tn_id t\<rparr>" and ?s2 = "set_edge st' (s1\<lparr>sv_tunnels := ts\<rparr>)"
  have "handle_event p lib assets (AgentJoins now remote rnd cn sid) s1 = (Joined (Some ?sess), ?s2)"
    using assms(8) h t1(2) by simp
  moreover have "handle_event p lib assets (OnConnect ?sess lk) ?s2 = (Replayed lk', set_edge (st'\<lparr>ed_db := d2\<rparr>) ?s2)"
    using d2 by (simp add: on_connect_def)
  moreover have "queue (tn_id t) (ed_db (edge_of (set_edge (st'\<lparr>ed_db := d2\<rparr>) ?s2))) = []" using dr by simp
  moreover have "lk_sent lk' = lk_sent lk @ map buildRequest (queue (tn_id t) ?d @ es)" using dr es(1) by simp
  ultimately show ?thesis using es by blast
qed

section \<open>A page's way\<close>

lemma visit_tunnel:
  assumes "host_subdomain p (sc_public_host (sv_config s)) (req_host r) = sub" and "sub \<noteq> []"
    and "Allow_nil lib (ae_now env) (clientIP r @ ''|'' @ sub) (gw_tunnel_limiter (sv_gateway s)) = (True, l)"
    and "db_outcomes (ed_db (edge_of s)) = []" and "db_wf (ed_db (edge_of s))"
    and "t \<in> set (db_tunnels (ed_db (edge_of s)))" and "tn_sub t = sub" and "pg_text sub"
    and "dispatch p (router_config_of p assets env (sv_config s)) reads io agent sub r t (new_writer, edge_of s) = (a, st)"
  shows "\<exists>s'. handle_event p lib assets (Visit env reads io agent r) s = (Visited a, s') \<and> edge_of s' = st \<and> gw_tunnel_limiter (sv_gateway s') = l"
proof -
  let ?cfg = "router_config_of p assets env (sv_config s)"
  have "TunnelBySubdomain sub (ed_db (edge_of s)) = (Inr t, ed_db (edge_of s))"
    using tunnel_by_sub_found [OF assms(5-8)] next_outcome_quiet [OF assms(4)] by simp
  then have "serve_tunnel p ?cfg reads io agent sub r (new_writer, edge_of s) = (a, st)"
    using assms(9) by (simp add: serve_tunnel_found)
  then have "ServeHTTP p lib ?cfg reads io agent (ae_now env) r (new_writer, sv_gateway s)
      = (a, (sv_gateway s)\<lparr>gw_tunnel_limiter := l, gw_edge := st\<rparr>)"
    using ServeHTTP_admitted [OF _ assms(2,3)] assms(1) by (simp add: router_config_of_def edge_of_def)
  then show ?thesis by (simp add: edge_of_def)
qed

lemma page_captured:
  assumes "server_ok s" and "t \<in> set (db_tunnels (ed_db (edge_of s)))" and "tn_sub t = sub" and "sub \<noteq> []" and "pg_text sub"
    and "IsOnline sub (ed_redis (edge_of s)) = ((True, err), rd)" and "Get sub (ed_registry (edge_of s)) = Some sess"
    and "host_subdomain p (sc_public_host (sv_config s)) (req_host r) = sub"
    and "Allow_nil lib (ae_now env) (clientIP r @ ''|'' @ sub) (gw_tunnel_limiter (sv_gateway s)) = (True, l)"
    and "db_outcomes (ed_db (edge_of s)) = []" and "\<And>b. concat (reads b) = b"
    and "agent sess = XReply resp" and "Cacheable p r resp" and "\<not> body_err (resp_body resp)"
    and "length (body_data (resp_body resp)) \<le> maxTeeBody"
    and "PutSnapshot (tn_id t) (req_path r) (QueryHash p (req_query r)) (Header_Get (resp_header resp) ''Content-Type'')
        (Headers resp) (body_data (resp_body resp)) (ed_db (edge_of s)) = (res, d1)"
    and "s2 = run_event p lib assets (AgentLeaves sess) (run_event p lib assets (Visit env reads io agent r) s)"
  shows "server_ok s2 \<and> evolves (ed_db (edge_of s)) d1 \<and> ed_db (edge_of s2) = d1 \<and> Get sub (ed_registry (edge_of s2)) = None
    \<and> gw_tunnel_limiter (sv_gateway s2) = l"
proof -
  let ?d = "ed_db (edge_of s)" and ?body = "body_data (resp_body resp)"
  have wf: "db_wf ?d" using assms(1) by (simp add: server_ok_def)
  then have tid: "tn_id t \<noteq> 0" using assms(2) by (auto simp: wf_defs)
  obtain w1 where "forwardLive p reads io r (agent sess) (tn_id t) (new_writer, ?d) = (Ended None w1, d1)"
    using cacheable_is_stored [OF assms(11,13) tid _ _ assms(14,15), of new_writer io ?d] assms(12,16)
    by (auto simp: new_writer_def storeSnapshot_def Let_def)
  then have "dispatch p (router_config_of p assets env (sv_config s)) reads io agent sub r t (new_writer, edge_of s)
      = (Forwarded (se_id sess) (Ended None w1), (edge_of s)\<lparr>ed_redis := rd, ed_db := d1\<rparr>)"
    by (rule dispatch_live [where agent = agent, OF assms(6,7)])
  then obtain s1 where s1: "run_event p lib assets (Visit env reads io agent r) s = s1"
    "edge_of s1 = (edge_of s)\<lparr>ed_redis := rd, ed_db := d1\<rparr>" "gw_tunnel_limiter (sv_gateway s1) = l"
    using visit_tunnel [OF assms(8,4,9,10) wf assms(2,3,5)] by (fastforce simp: run_event_def)
  have s2: "edge_of s2 = loop_close sess (edge_of s1)" "gw_tunnel_limiter (sv_gateway s2) = l"
    by (simp_all add: assms(17) s1(1)) (simp_all add: run_event_def set_edge_def s1(3) edge_of_def)
  have "se_sub sess = sub" using assms(1,7) by (simp add: server_ok_def sessions_ok_def)
  then have "ed_db (edge_of s2) = d1 \<and> Get sub (ed_registry (edge_of s2)) = None"
    using assms(7) by (simp add: s2(1) s1(2) loop_close_def Let_def Get_Remove)
  moreover have "server_ok s2 \<and> evolves ?d (ed_db (edge_of s2))"
    using run_event_ok [OF assms(1), of p lib assets "Visit env reads io agent r"] run_event_ok [of s1 p lib assets "AgentLeaves sess"]
      evolves_trans by (auto simp: assms(17) s1(1))
  ultimately show ?thesis using s2(2) by simp
qed

text \<open>
  C10. A page outlives its agent. Let a page be fetched through a connected agent, let the response be cacheable and complete, within
  the size limits and stored without an error (so it is not empty), and let the agent then leave. A visit that comes next, a GET or HEAD for the
  same path and query that is let through and is no webhook, with the database answering and the tunnel's other pages older, is answered 200 with the captured body, an HTML page with the offline
  banner put in (unless putting it in panics, then the connection is aborted).
\<close>
theorem page_outlives_its_agent:
  assumes "server_ok s" and "t \<in> set (db_tunnels (ed_db (edge_of s)))" and "tn_sub t = sub" and "sub \<noteq> []" and "pg_text sub"
    and "IsOnline sub (ed_redis (edge_of s)) = ((True, err), rd)" and "Get sub (ed_registry (edge_of s)) = Some sess"
    and "host_subdomain p (sc_public_host (sv_config s)) (req_host r) = sub"
    and "Allow_nil lib (ae_now env) (clientIP r @ ''|'' @ sub) (gw_tunnel_limiter (sv_gateway s)) = (True, l)"
    and "db_outcomes (ed_db (edge_of s)) = []" and "\<And>b. concat (reads b) = b"
    and "agent sess = XReply resp" and "Cacheable p r resp" and "\<not> body_err (resp_body resp)"
    and "length (body_data (resp_body resp)) \<le> maxTeeBody"
    and "fst (PutSnapshot (tn_id t) (req_path r) (QueryHash p (req_query r)) (Header_Get (resp_header resp) ''Content-Type'')
        (Headers resp) (body_data (resp_body resp)) (ed_db (edge_of s))) = Inr ()"
    and "\<forall>x \<in> set (snaps_of (tn_id t) (ed_db (edge_of s))). sn_time x < db_now (ed_db (edge_of s))"
    and "s2 = run_event p lib assets (AgentLeaves sess) (run_event p lib assets (Visit env reads io agent r) s)"
    and "db_outcomes (ed_db (edge_of s2)) = []" and "t2 \<in> set (db_tunnels (ed_db (edge_of s2)))" and "tn_sub t2 = sub"
    and "host_subdomain p (sc_public_host (sv_config s)) (req_host r') = sub"
    and "Allow_nil lib (ae_now env') (clientIP r' @ ''|'' @ sub) (gw_tunnel_limiter (sv_gateway s2)) = (True, l')"
    and "req_path r' = req_path r" and "req_query r' = req_query r" and "req_method r' = ''GET'' \<or> req_method r' = ''HEAD''"
    and "\<not> IsWebhook p (tn_rules t2) r'"
  shows "\<exists>a s3 captured. handle_event p lib assets (Visit env' reads' io' agent' r') s2 = (Visited a, s3)
    \<and> (case snapshot_page p \<lparr>ss_path = req_path r, ss_ctype = Header_Get (resp_header resp) ''Content-Type'',
          ss_headers = json_map (Headers resp), ss_body = body_data (resp_body resp), ss_captured = captured\<rparr> of
        None \<Rightarrow> a = Answered Abort
      | Some page \<Rightarrow> \<exists>w. a = Answered (Reply w) \<and> client_status w = 200 \<and> w_out w = page)"
proof -
  let ?d = "ed_db (edge_of s)" and ?body = "body_data (resp_body resp)" and ?ct = "Header_Get (resp_header resp) ''Content-Type''"
  have wf: "db_wf ?d" using assms(1) by (simp add: server_ok_def)
  obtain d1 where d1: "PutSnapshot (tn_id t) (req_path r) (QueryHash p (req_query r)) ?ct (Headers resp) ?body ?d = (Inr (), d1)"
    using assms(16) by (metis prod.collapse)
  have s2: "server_ok s2" "evolves ?d (ed_db (edge_of s2))" and e2: "ed_db (edge_of s2) = d1" "Get sub (ed_registry (edge_of s2)) = None"
    using page_captured [where reads = reads and agent = agent, OF assms(1-15) d1 assms(18)] by auto
  have wf2: "db_wf d1" using s2(1) e2(1) by (simp add: server_ok_def)
  have t2: "tn_id t2 = tn_id t"
  proof -
    obtain t' where "t' \<in> set (db_tunnels d1)" "tn_id t' = tn_id t" "tn_sub t' = sub"
      using evolves_tunnel [OF s2(2) assms(2)] assms(3) e2(1) by auto
    then show ?thesis using inj_on_key [of tn_sub _ t' t2] wf2 assms(20,21) e2(1) by (auto simp: wf_defs)
  qed
  obtain c where c: "GetSnapshot (tn_id t2) (req_path r') (QueryHash p (req_query r')) d1
      = (Inr \<lparr>ss_path = req_path r, ss_ctype = ?ct, ss_headers = json_map (Headers resp), ss_body = ?body, ss_captured = c\<rparr>, d1)"
    using put_get [OF wf d1 _ assms(17), of d1] assms(15,19,24,25) t2 e2(1) by (auto simp: maxTeeBody_def MaxSnapshotBytes_def)
  obtain sv d3 where sv: "ServeOffline p r' t2 (new_writer, d1) = (sv, d3)" by fastforce
  obtain up er rd2 where on: "IsOnline sub (ed_redis (edge_of s2)) = ((up, er), rd2)" by (metis prod.collapse)
  have "serveOffline (router_config_of p assets env' (sv_config s2)) r' t2 (new_writer, ed_db (edge_of s2)) = (sv, d3)"
    using sv e2(1) by (simp add: serveOffline_def router_config_of_def)
  then have "dispatch p (router_config_of p assets env' (sv_config s2)) reads' io' agent' sub r' t2 (new_writer, edge_of s2)
      = (Answered sv, (edge_of s2)\<lparr>ed_redis := rd2, ed_db := d3\<rparr>)"
    by (intro dispatch_away [OF on]) (simp_all add: e2(2))
  then obtain s3 where "handle_event p lib assets (Visit env' reads' io' agent' r') s2 = (Visited (Answered sv), s3)"
    using visit_tunnel [of p s2 r' sub lib env' l' t2 assets reads' io' agent'] assms(4,5,19-23) wf2 e2(1)
    by (fastforce simp: assms(18))
  then show ?thesis
    using page_served [OF assms(27,26) _ _ _ c sv] by (fastforce simp: new_writer_def split: option.splits)
qed

section \<open>An example of both\<close>

lemma EnqueueEvent_quiet: "db_outcomes d = [] \<Longrightarrow> db_outcomes (snd (EnqueueEvent tid m p q h b d)) = []"
  by (simp add: EnqueueEvent_def Let_def sql_insert_event_def fail_def sql_def map_err_def split: prod.splits)

lemma ServeOffline_quiet: "db_outcomes d = [] \<Longrightarrow> db_outcomes (snd (ServeOffline p r t (w, d))) = []"
  by (cases rule: ServeOffline_db [of p r t w d])
    (auto simp: EnqueueEvent_quiet GetSnapshot_def not_found_def and_then_def map_err_def sql_def sql_get_snap_def ret_def split: option.split)

lemma demo_names: "host_subdomain demo_platform ''lvh.me:8080'' ''myapp.lvh.me:8080'' = ''myapp''"
  using demo_host by (simp add: demo_config_def)

lemma demo_visit_admitted:
  "\<exists>l. Allow_nil demo_lib 0 key (gw_tunnel_limiter (sv_gateway (demo_running d))) = (True, Some l)
     \<and> il_entries l = [key \<mapsto> \<lparr>en_limiter = Some 0, en_seen = 0\<rparr>] \<and> il_last l = Some 0"
  using demo_running_limiters(1) [of d] by (auto simp: Allow_nil_def Allow_def sweepLocked_def demo_lib_def)

lemma demo_tunnel_there: "demo_tunnel \<in> set (db_tunnels demo_db)" "tn_sub demo_tunnel = ''myapp''" "tn_id demo_tunnel = 1" "tn_user demo_tunnel = 1"
  by (simp_all add: demo_db_eq demo_tunnel_def)

lemma demo_not_online: "fst (IsOnline sub demo_redis) = (False, None)"
  by (simp add: IsOnline_def cmd_quiet redis_exists_def demo_redis_def)

abbreviation "demo_hook_visit \<equiv> Visit (demo_env demo_link) bytewise demo_io demo_agent demo_request"

lemma demo_hook_visited:
  "\<exists>w s. handle_event demo_platform demo_lib demo_assets demo_hook_visit (demo_running demo_db) = (Visited (Answered (Reply w)), s)
     \<and> client_status w = 202 \<and> db_outcomes (ed_db (edge_of s)) = []"
proof -
  obtain w d where o: "ServeOffline demo_platform demo_request demo_tunnel (new_writer, demo_db) = (Reply w, d)" "client_status w = 202"
    using demo_webhook_reply by blast
  obtain rd where on: "IsOnline ''myapp'' (ed_redis (edge_of (demo_running demo_db))) = ((False, None), rd)"
    using demo_not_online by (simp add: prod_eq_iff)
  have "serveOffline (router_config_of demo_platform demo_assets (demo_env demo_link) (sv_config (demo_running demo_db))) demo_request demo_tunnel
      (new_writer, ed_db (edge_of (demo_running demo_db))) = (Reply w, d)" using o(1) by (simp add: serveOffline_def router_config_of_def)
  then have di: "dispatch demo_platform (router_config_of demo_platform demo_assets (demo_env demo_link) (sv_config (demo_running demo_db)))
      bytewise demo_io demo_agent ''myapp'' demo_request demo_tunnel (new_writer, edge_of (demo_running demo_db))
      = (Answered (Reply w), (edge_of (demo_running demo_db))\<lparr>ed_redis := rd, ed_db := d\<rparr>)"
    by (intro dispatch_away [OF on]) simp_all
  obtain l where al: "Allow_nil demo_lib (ae_now (demo_env demo_link)) (clientIP demo_request @ ''|'' @ ''myapp'')
      (gw_tunnel_limiter (sv_gateway (demo_running demo_db))) = (True, l)"
    using demo_visit_admitted by (fastforce simp: demo_env_def)
  obtain s where "handle_event demo_platform demo_lib demo_assets demo_hook_visit (demo_running demo_db) = (Visited (Answered (Reply w)), s)"
    "edge_of s = (edge_of (demo_running demo_db))\<lparr>ed_redis := rd, ed_db := d\<rparr>"
    using visit_tunnel [OF _ _ al _ _ _ _ _ di] demo_names demo_tunnel_there demo_texts(1) demo_db_wf demo_running_host [of demo_db]
    by (auto simp: demo_request_def)
  then show ?thesis using o ServeOffline_quiet [of demo_db demo_platform demo_request demo_tunnel new_writer] by auto
qed

section \<open>The journeys of the example\<close>

lemma demo_join_admitted: "\<exists>ts. admit demo_lib 0 remote (sv_tunnels (demo_running d)) = (True, ts)"
  using demo_running_limiters(4,5) [of d]
  by (auto simp: admit_def Allow_def sweepLocked_def demo_lib_def split: option.split)

theorem acknowledged_webhooks_are_delivered_witness:
  "\<exists>s1 s2 lk s3 e. s1 = run_event demo_platform demo_lib demo_assets demo_hook_visit (demo_running demo_db)
    \<and> handle_event demo_platform demo_lib demo_assets (AgentJoins 0 ''10.0.0.7:4000'' [] demo_conn 5) s1
      = (Joined (Some \<lparr>se_id = 5, se_sub = ''myapp'', se_tunnel = 1\<rparr>), s2)
    \<and> handle_event demo_platform demo_lib demo_assets (OnConnect \<lparr>se_id = 5, se_sub = ''myapp'', se_tunnel = 1\<rparr> demo_link) s2 = (Replayed lk, s3)
    \<and> lk_sent lk = [buildRequest e] \<and> carries demo_request e \<and> queue 1 (ed_db (edge_of s3)) = []"
proof -
  let ?s = "demo_running demo_db" and ?run = "run_event demo_platform demo_lib demo_assets"
  let ?s1 = "?run demo_hook_visit ?s"
  obtain w s where h: "handle_event demo_platform demo_lib demo_assets demo_hook_visit ?s = (Visited (Answered (Reply w)), s)"
    "client_status w = 202" "db_outcomes (ed_db (edge_of s)) = []" using demo_hook_visited by blast
  have s: "?s1 = s" using h(1) by (simp add: run_event_def)
  have ack: "acknowledgment demo_platform demo_lib demo_assets ''myapp'' demo_hook_visit ?s = [demo_request]"
    using h demo_names demo_running_host [of demo_db] by (simp add: acknowledgment_def demo_request_def del: handle_event.simps)
  obtain e where one: "queue (tn_id demo_tunnel) (ed_db (edge_of ?s1)) = [e]" "carries demo_request e"
    using acknowledgment_one [OF _ _ _ _ ack, of demo_tunnel] demo_tunnel_there demo_db_wf by (auto simp: demo_queue_empty)
  then have len: "length [200::int] = length (queue (tn_id demo_tunnel) (ed_db (edge_of ?s1)))" by simp
  have host: "host_subdomain demo_platform (sc_public_host (sv_config ?s)) (req_host demo_request) = ''myapp''"
    using demo_names demo_running_host [of demo_db] by (simp add: demo_request_def)
  have lq: "list_all (leaves_queue demo_platform (sc_public_host (sv_config ?s)) (tn_id demo_tunnel)) [demo_hook_visit]"
    using host by simp
  have "sv_tunnels ?s1 = sv_tunnels ?s" by (simp add: run_event_def split: prod.split)
  then obtain ts where ts: "admit demo_lib 0 ''10.0.0.7:4000'' (sv_tunnels ?s1) = (True, ts)"
    using demo_join_admitted by metis
  have good: "good_conn ''lu_72'' ''myapp'' [''/hooks/*''] demo_conn"
    by (simp add: good_conn_def demo_conn_def demo_hello_def Version_def)
  have texts: "pg_text ''myapp''" "json_ok (json_strings [''/hooks/*''])" by code_simp+
  have tok: "\<lparr>tk_hash = hashToken demo_platform ''lu_72'', tk_user = tn_user demo_tunnel\<rparr> \<in> set (db_tokens (ed_db (edge_of ?s)))"
    by (simp add: demo_db_eq demo_user_db_eq demo_tunnel_def)
  have lk: "lk_script demo_link = map Responds [200] @ []" and ok: "list_all (\<lambda>c. c < (500::int)) [200]"
    and last: "?s1 = fold ?run [demo_hook_visit] ?s" by (simp_all add: demo_link_def)
  have there: "demo_tunnel \<in> set (db_tunnels (ed_db (edge_of ?s)))" and quiet: "db_outcomes (ed_db (edge_of ?s1)) = []"
    using demo_tunnel_there h(3) by (simp_all add: s)
  obtain s2 lk' s3 es where j: "handle_event demo_platform demo_lib demo_assets (AgentJoins 0 ''10.0.0.7:4000'' [] demo_conn 5) ?s1
      = (Joined (Some \<lparr>se_id = 5, se_sub = ''myapp'', se_tunnel = tn_id demo_tunnel\<rparr>), s2)"
    "handle_event demo_platform demo_lib demo_assets (OnConnect \<lparr>se_id = 5, se_sub = ''myapp'', se_tunnel = tn_id demo_tunnel\<rparr> demo_link) s2
      = (Replayed lk', s3)"
    "queue (tn_id demo_tunnel) (ed_db (edge_of ?s1)) = queue (tn_id demo_tunnel) (ed_db (edge_of ?s)) @ es"
    "lk_sent lk' = lk_sent demo_link @ map buildRequest (queue (tn_id demo_tunnel) (ed_db (edge_of ?s)) @ es)"
    "queue (tn_id demo_tunnel) (ed_db (edge_of s3)) = []"
    using acknowledged_webhooks_are_delivered [OF demo_running_ok [OF demo_db_wf] lq _ there demo_tunnel_there(2) last quiet ts good tok texts
      demo_name_ok lk len ok, where rnd = "[]" and sid = 5] by blast
  have "lk_sent lk' = [buildRequest e]" using j(3,4) one(1) by (simp add: demo_link_def flip: map_append)
  then show ?thesis using j(1,2,5) one(2) unfolding demo_tunnel_there(3) by blast
qed

section \<open>The page of the example\<close>

text \<open>The example server once the agent of \<open>myapp\<close> has connected as session 5.\<close>

abbreviation "demo_live_server \<equiv> set_edge demo_live_edge (demo_running demo_db)"

lemma demo_live_ok: "server_ok demo_live_server"
  using demo_db_wf by (simp add: server_ok_def sessions_ok_def demo_live_edge_def Get_Put session_for_def)
    (simp add: Get_def NewRegistry_def demo_db_eq demo_tunnel_def)

lemma demo_live_parts: "sv_config (set_edge st s) = sv_config s" "gw_tunnel_limiter (sv_gateway (set_edge st s)) = gw_tunnel_limiter (sv_gateway s)"
  by (simp_all add: set_edge_def)

lemma demo_second_admitted:
  "il_entries l = [key \<mapsto> \<lparr>en_limiter = Some 0, en_seen = 0\<rparr>] \<Longrightarrow> il_last l = Some 0 \<Longrightarrow>
     \<exists>l'. Allow_nil demo_lib 2000000 key (Some l) = (True, l')"
  by (auto simp: Allow_nil_def Allow_def sweepLocked_def demo_lib_def)

abbreviation "demo_page_env \<equiv> (demo_env demo_link)\<lparr>ae_now := 2000000\<rparr>"

lemma demo_page_no_webhook: "\<not> IsWebhook demo_platform (tn_rules demo_tunnel) demo_page_request"
proof -
  have "list_all plain ''/hooks/''" by code_simp
  then have "path_Match (''/hooks/'' @ ''*'') ''/'' \<noteq> Matched" by (subst path_Match_plain_star) (simp_all add: prefix_def)
  then show ?thesis by (simp add: IsWebhook_def header_hit_iff Header_Get_def heuristic_def demo_page_request_def demo_tunnel_def)
qed

theorem page_outlives_its_agent_witness:
  "\<exists>s2 s3 w. s2 = run_event demo_platform demo_lib demo_assets (AgentLeaves (session_for 1 ''myapp'' 5))
       (run_event demo_platform demo_lib demo_assets (Visit (demo_env demo_link) bytewise demo_io demo_agent demo_page_request) demo_live_server)
     \<and> handle_event demo_platform demo_lib demo_assets (Visit demo_page_env bytewise demo_io demo_agent demo_page_request) s2
       = (Visited (Answered (Reply w)), s3)
     \<and> client_status w = 200 \<and> HasPrefix (w_out w) ''<p>hi</p>''"
proof -
  let ?ip = "clientIP demo_page_request @ ''|'' @ ''myapp''" and ?sess = "session_for 1 ''myapp'' 5"
  let ?s2 = "run_event demo_platform demo_lib demo_assets (AgentLeaves ?sess)
       (run_event demo_platform demo_lib demo_assets (Visit (demo_env demo_link) bytewise demo_io demo_agent demo_page_request) demo_live_server)"
  obtain l where al: "Allow_nil demo_lib (ae_now (demo_env demo_link)) ?ip (gw_tunnel_limiter (sv_gateway demo_live_server)) = (True, Some l)"
    "il_entries l = [?ip \<mapsto> \<lparr>en_limiter = Some 0, en_seen = 0\<rparr>]" "il_last l = Some 0"
    using demo_visit_admitted by (fastforce simp: demo_live_parts demo_env_def)
  have e: "ed_db (edge_of demo_live_server) = demo_db" "ed_registry (edge_of demo_live_server) = Put ?sess NewRegistry"
    and on: "IsOnline ''myapp'' (ed_redis (edge_of demo_live_server)) = ((True, None), snd (Heartbeat ''myapp'' demo_redis))"
    using demo_live_online by (simp_all add: demo_live_edge_def)
  have g: "Get ''myapp'' (ed_registry (edge_of demo_live_server)) = Some ?sess" by (simp only: e) (simp add: Get_Put session_for_def)
  have host: "host_subdomain demo_platform (sc_public_host (sv_config demo_live_server)) (req_host demo_page_request) = ''myapp''"
    using demo_names demo_running_host by (simp add: demo_live_parts demo_page_request_def)
  have resp: "\<not> body_err (resp_body demo_page_response)" "length (body_data (resp_body demo_page_response)) \<le> maxTeeBody"
    by (simp_all add: demo_page_response_def maxTeeBody_def)
  let ?put = "PutSnapshot 1 (req_path demo_page_request) (QueryHash demo_platform (req_query demo_page_request))
      (Header_Get (resp_header demo_page_response) ''Content-Type'') (Headers demo_page_response) (body_data (resp_body demo_page_response)) demo_db"
  have "case ?put of (x, d) \<Rightarrow> x = Inr () \<and> db_outcomes d = [] \<and> demo_tunnel \<in> set (db_tunnels d)"
    unfolding demo_page_request_def demo_page_response_def demo_db_eq demo_user_db_eq by code_simp
  then obtain d1 where d1: "?put = (Inr (), d1)" "db_outcomes d1 = []" "demo_tunnel \<in> set (db_tunnels d1)"
    by (cases ?put) auto
  note captured = page_captured [where reads = bytewise and agent = demo_agent, OF demo_live_ok _ demo_tunnel_there(2) _ demo_texts(1) on g host al(1) _
    concat_bytewise demo_agent_def demo_cacheable resp _ refl, unfolded demo_tunnel_there(3), where io = demo_io and assets = demo_assets]
  have s2: "ed_db (edge_of ?s2) = d1" "gw_tunnel_limiter (sv_gateway ?s2) = Some l"
    using captured d1(1) e(1) demo_tunnel_there(1) by simp_all
  obtain l' where al': "Allow_nil demo_lib (ae_now demo_page_env) ?ip (gw_tunnel_limiter (sv_gateway ?s2)) = (True, l')"
    using demo_second_admitted [OF al(2,3)] by (auto simp: s2(2))
  have visit: "req_method demo_page_request = ''GET'' \<or> req_method demo_page_request = ''HEAD''"
    and body: "body_data (resp_body demo_page_response) = ''<p>hi</p>''"
    and ct: "Header_Get (resp_header demo_page_response) ''Content-Type'' = ''text/html''"
    unfolding demo_page_request_def demo_page_response_def demo_tunnel_def by code_simp+
  have hi: "ToLower (pl_lower demo_platform) ''<p>hi</p>'' = ''<p>hi</p>''" by (simp add: lower_eval)
  have last: "LastIndex (ToLower (pl_lower demo_platform) ''<p>hi</p>'') ''</body>'' = None" unfolding hi by code_simp
  then have page: "snapshot_page demo_platform \<lparr>ss_path = a, ss_ctype = ''text/html'', ss_headers = h, ss_body = ''<p>hi</p>'', ss_captured = c\<rparr>
      = Some (''<p>hi</p>'' @ banner demo_platform c)" for a h c
    by (simp add: snapshot_page_def isHTML_def HasPrefix_def InjectBanner_def Let_def)
  have prem: "demo_tunnel \<in> set (db_tunnels (ed_db (edge_of demo_live_server)))" "db_outcomes (ed_db (edge_of demo_live_server)) = []"
    "\<forall>x \<in> set (snaps_of (tn_id demo_tunnel) (ed_db (edge_of demo_live_server))). sn_time x < db_now (ed_db (edge_of demo_live_server))"
    "fst (PutSnapshot (tn_id demo_tunnel) (req_path demo_page_request) (QueryHash demo_platform (req_query demo_page_request))
      (Header_Get (resp_header demo_page_response) ''Content-Type'') (Headers demo_page_response) (body_data (resp_body demo_page_response))
      (ed_db (edge_of demo_live_server))) = Inr ()"
    unfolding e demo_tunnel_there(3) using demo_tunnel_there(1) d1(1) by (simp_all add: snaps_of_def demo_no_snaps)
  have "demo_tunnel \<in> set (db_tunnels (ed_db (edge_of ?s2)))" "db_outcomes (ed_db (edge_of ?s2)) = []" using d1(2,3) s2(1) by simp_all
  note outlives = page_outlives_its_agent [where reads = bytewise and agent = demo_agent, OF demo_live_ok prem(1) demo_tunnel_there(2) _ demo_texts(1)
    on g host al(1) prem(2) concat_bytewise demo_agent_def demo_cacheable resp prem(4,3) refl this(2,1) demo_tunnel_there(2) host al' refl refl visit demo_page_no_webhook]
  show ?thesis using outlives [where io' = demo_io and reads' = bytewise and agent' = demo_agent]
    unfolding body ct page by (auto simp: HasPrefix_def simp del: handle_event.simps)
qed

end
