(* ===== verification/AgentLife.thy ===== *)
theory AgentLife
  imports TunnelServer
begin

text \<open>
  Many agents at once: the goroutines of \<open>handleConn\<close> and its heartbeat loop, one per connection, share the
  registry and the presence store and interleave between their calls. A connection's goroutine is
  between the calls in one of the phases below; each step of the relation is one call of one
  goroutine, an agent hanging up, the server being told to stop, or time passing.
\<close>

datatype phase = Authed | Registered | Looping | Removing | Finished | Stopped

record world =
  wd_registry :: registry
  wd_redis :: redis
  wd_agents :: "nat \<Rightarrow> (session \<times> phase) option"
  wd_gone :: "nat list"  \<comment> \<open>sessions whose agent has hung up\<close>
  wd_cancelled :: bool   \<comment> \<open>the context of the server is done\<close>

definition conn_closed :: "world \<Rightarrow> nat \<Rightarrow> bool" where
  "conn_closed w i = (i \<in> set (wd_gone w) \<or> i \<in> set (rg_closed (wd_registry w)))"

definition set_phase :: "session \<Rightarrow> phase \<Rightarrow> world \<Rightarrow> world" where
  "set_phase s ph w = w\<lparr>wd_agents := (wd_agents w)(se_id s \<mapsto> (s, ph))\<rparr>"

text \<open>
  A heartbeat runs under the server's context and fails at once when that is done; the clean-up of a closed connection runs under a
  context of its own. A loop that sees the context done returns without any clean-up, its connection still
  open and registered.
\<close>

definition beat :: "session \<Rightarrow> world \<Rightarrow> world" where
  "beat s w = (if wd_cancelled w then w else w\<lparr>wd_redis := snd (Heartbeat (se_sub s) (wd_redis w))\<rparr>)"

inductive step :: "world \<Rightarrow> world \<Rightarrow> bool" where
  hello: "wd_agents w (se_id s) = None \<Longrightarrow> step w (set_phase s Authed w)"
| register: "wd_agents w i = Some (s, Authed) \<Longrightarrow>
     step w (set_phase s Registered (w\<lparr>wd_registry := Put s (wd_registry w)\<rparr>))"
| first_beat: "wd_agents w i = Some (s, Registered) \<Longrightarrow>
     step w (set_phase s Looping (beat s w))"
| tick: "wd_agents w i = Some (s, Looping) \<Longrightarrow> step w (beat s w)"
| hang_up: "wd_agents w i = Some (s, ph) \<Longrightarrow> step w (w\<lparr>wd_gone := i # wd_gone w\<rparr>)"
| remove: "wd_agents w i = Some (s, Looping) \<Longrightarrow> conn_closed w i \<Longrightarrow>
     step w (set_phase s Removing (w\<lparr>wd_registry := Remove s (wd_registry w)\<rparr>))"
| clear: "wd_agents w i = Some (s, Removing) \<Longrightarrow>
     step w (set_phase s Finished (w\<lparr>wd_redis := snd (Clear (se_sub s) (wd_redis w))\<rparr>))"
| stop: "wd_agents w i = Some (s, Looping) \<Longrightarrow> wd_cancelled w \<Longrightarrow> step w (set_phase s Stopped w)"
| cancel: "step w (w\<lparr>wd_cancelled := True\<rparr>)"
| pass: "step w (w\<lparr>wd_redis := wait t (wd_redis w)\<rparr>)"

definition start :: "redis \<Rightarrow> world" where
  "start r = \<lparr>wd_registry = NewRegistry, wd_redis = r, wd_agents = Map.empty, wd_gone = [], wd_cancelled = False\<rparr>"

inductive reachable :: "redis \<Rightarrow> world \<Rightarrow> bool" for r where
  init: "reachable r (start r)"
| after: "reachable r w \<Longrightarrow> step w w' \<Longrightarrow> reachable r w'"

section \<open>The invariant\<close>

definition serving :: "world \<Rightarrow> session \<Rightarrow> bool" where
  "serving w s = (\<exists>ph. wd_agents w (se_id s) = Some (s, ph) \<and> ph \<in> {Registered, Looping, Stopped})"

definition world_ok :: "world \<Rightarrow> bool" where
  "world_ok w =
     ((\<forall>i s ph. wd_agents w i = Some (s, ph) \<longrightarrow> se_id s = i)
      \<and> (\<forall>k s. Get k (wd_registry w) = Some s \<longrightarrow> se_sub s = k \<and> serving w s)
      \<and> (\<forall>s. serving w s \<and> se_id s \<notin> set (rg_closed (wd_registry w)) \<longrightarrow> Get (se_sub s) (wd_registry w) = Some s))"

lemma world_ok_start: "world_ok (start r)"
  by (simp add: world_ok_def start_def Get_def NewRegistry_def serving_def)

lemma set_phase_simps [simp]:
  "wd_registry (set_phase s ph w) = wd_registry w" "wd_redis (set_phase s ph w) = wd_redis w"
  "wd_gone (set_phase s ph w) = wd_gone w" "wd_cancelled (set_phase s ph w) = wd_cancelled w"
  "wd_agents (set_phase s ph w) = (wd_agents w)(se_id s \<mapsto> (s, ph))"
  by (simp_all add: set_phase_def)

lemma world_ok_id: "world_ok w \<Longrightarrow> wd_agents w i = Some (s, ph) \<Longrightarrow> se_id s = i"
  by (simp add: world_ok_def)

lemma world_ok_registered: "world_ok w \<Longrightarrow> Get k (wd_registry w) = Some s \<Longrightarrow> se_sub s = k \<and> serving w s"
  by (simp add: world_ok_def)

lemma world_ok_open:
  "world_ok w \<Longrightarrow> serving w s \<Longrightarrow> se_id s \<notin> set (rg_closed (wd_registry w)) \<Longrightarrow> Get (se_sub s) (wd_registry w) = Some s"
  by (simp add: world_ok_def)

lemma serving_upd:
  "serving (set_phase s ph w) x \<longleftrightarrow> (if se_id x = se_id s then x = s \<and> ph \<in> {Registered, Looping, Stopped} else serving w x)"
  by (auto simp: serving_def)

lemma serving_cong [simp]:
  "serving (w\<lparr>wd_registry := r\<rparr>) = serving w" "serving (w\<lparr>wd_redis := d\<rparr>) = serving w" "serving (w\<lparr>wd_gone := g\<rparr>) = serving w" "serving (w\<lparr>wd_cancelled := c\<rparr>) = serving w"
  by (simp_all add: serving_def fun_eq_iff)

lemma beat_simps [simp]:
  "wd_registry (beat s w) = wd_registry w" "wd_agents (beat s w) = wd_agents w" "wd_cancelled (beat s w) = wd_cancelled w" "serving (beat s w) = serving w"
  by (simp_all add: beat_def)

lemma phase_ids:
  assumes "world_ok w" and "wd_agents (set_phase s ph w') j = Some (x, q)" and "wd_agents w' = wd_agents w"
  shows "se_id x = j"
proof (cases "j = se_id s")
  case True
  then show ?thesis using assms(2) by simp
next
  case False
  then have "wd_agents w j = Some (x, q)" using assms(2,3) by simp
  then show ?thesis by (rule world_ok_id [OF assms(1)])
qed

lemma world_ok_phase:
  assumes "world_ok w" and "wd_registry w' = wd_registry w" and "wd_agents w' = wd_agents w"
    and "serving (set_phase s ph w') = serving w"
  shows "world_ok (set_phase s ph w')"
proof -
  have "se_id x = j" if "wd_agents (set_phase s ph w') j = Some (x, q)" for j x q
    by (rule phase_ids [OF assms(1) that assms(3)])
  moreover have "wd_registry (set_phase s ph w') = wd_registry w" by (simp add: assms(2))
  ultimately show ?thesis using assms(1) unfolding world_ok_def assms(4) by metis
qed

lemma world_ok_register:
  assumes "wd_agents w i = Some (s, Authed)" and "world_ok w"
  shows "world_ok (set_phase s Registered (w\<lparr>wd_registry := Put s (wd_registry w)\<rparr>))" (is "world_ok ?w")
proof -
  have i: "se_id s = i" using world_ok_id assms by blast
  have no: "\<not> serving w x" if "se_id x = i" for x using assms(1) that by (simp add: serving_def)
  show ?thesis
    unfolding world_ok_def
  proof (intro conjI allI impI)
    fix j x ph assume "wd_agents ?w j = Some (x, ph)"
    then show "se_id x = j" using world_ok_id [OF assms(2)] by (auto split: if_splits)
  next
    fix k x assume g: "Get k (wd_registry ?w) = Some x"
    then show "se_sub x = k" using world_ok_registered [OF assms(2)] by (auto simp: Get_Put split: if_splits)
    show "serving ?w x"
      using g no i world_ok_registered [OF assms(2)] by (auto simp: Get_Put serving_upd split: if_splits)
  next
    fix x assume x: "serving ?w x
      \<and> se_id x \<notin> set (rg_closed (wd_registry ?w))"
    show "Get (se_sub x) (wd_registry ?w) = Some x"
    proof (cases "x = s")
      case True
      then show ?thesis by (simp add: Get_Put)
    next
      case False
      then have "serving w x" "se_id x \<noteq> se_id s" "se_id x \<notin> set (rg_closed (wd_registry w))"
        using x by (auto simp: serving_upd closed_Put split: if_splits option.splits)
      then have "Get (se_sub x) (wd_registry w) = Some x" using world_ok_open [OF assms(2)] by blast
      then show ?thesis using x \<open>se_id x \<noteq> se_id s\<close> by (auto simp: Get_Put closed_Put)
    qed
  qed
qed

lemma world_ok_remove:
  assumes "wd_agents w i = Some (s, Looping)" and "world_ok w"
  shows "world_ok (set_phase s Removing (w\<lparr>wd_registry := Remove s (wd_registry w)\<rparr>))" (is "world_ok ?w")
proof -
  have i: "se_id s = i" "serving w s" using assms world_ok_id by (auto simp: serving_def)
  have other: "serving (set_phase s Removing (w\<lparr>wd_registry := Remove s (wd_registry w)\<rparr>)) x \<longleftrightarrow> serving w x \<and> x \<noteq> s" for x
    using i assms(1) by (auto simp: serving_upd serving_def)
  have g: "Get k (Remove s (wd_registry w)) = (if Get k (wd_registry w) = Some s then None else Get k (wd_registry w))" for k
  proof (cases "Get k (wd_registry w)")
    case None
    then show ?thesis by (simp add: Get_Remove)
  next
    case (Some x)
    note x = world_ok_registered [OF assms(2) Some]
    show ?thesis
    proof (cases "se_id x = i")
      case True
      then have "x = s" using x assms(1) by (simp add: serving_def)
      then show ?thesis using Some x by (simp add: Get_Remove)
    next
      case False
      then have "x \<noteq> s" using i by blast
      then show ?thesis using Some False i by (simp add: Get_Remove)
    qed
  qed
  have "se_id x = j" if "wd_agents ?w j = Some (x, q)" for j x q
    by (rule phase_ids [OF assms(2) that]) simp
  moreover have "se_sub x = k \<and> serving ?w x" if "Get k (wd_registry ?w) = Some x" for k x
    using that world_ok_registered [OF assms(2), of k x] other [of x] g [of k] by (simp split: if_splits)
  moreover have "Get (se_sub x) (wd_registry ?w) = Some x"
    if "serving ?w x" "se_id x \<notin> set (rg_closed (wd_registry ?w))" for x
    using that world_ok_open [OF assms(2), of x] other [of x] g [of "se_sub x"] by simp
  ultimately show ?thesis unfolding world_ok_def by blast
qed

lemma step_world_ok:
  assumes "step w w'" and "world_ok w"
  shows "world_ok w'"
  using assms
proof (induction rule: step.induct)
  case (hello w s)
  then have "serving (set_phase s Authed w) = serving w" by (auto simp: serving_upd fun_eq_iff serving_def)
  then show ?case using hello(2) by (intro world_ok_phase) simp_all
next
  case (register w i s)
  then show ?case by (rule world_ok_register)
next
  case (first_beat w i s)
  then have "se_id s = i" "serving w s" using world_ok_id by (auto simp: serving_def)
  then have "serving (set_phase s Looping (beat s w)) = serving w"
    using first_beat by (auto simp: serving_upd fun_eq_iff serving_def)
  then show ?case using first_beat(2) by (intro world_ok_phase) simp_all
next
  case (remove w i s)
  then show ?case by (intro world_ok_remove)
next
  case (clear w i s)
  then have i: "se_id s = i" using world_ok_id by blast
  then have "serving (set_phase s Finished (w\<lparr>wd_redis := snd (Clear (se_sub s) (wd_redis w))\<rparr>)) = serving w"
    using clear(1) by (auto simp: serving_upd fun_eq_iff serving_def)
  then show ?case using clear(2) by (intro world_ok_phase) simp_all
next
  case (stop w i s)
  then have "se_id s = i" "serving w s" using world_ok_id by (auto simp: serving_def)
  then have "serving (set_phase s Stopped w) = serving w" using stop by (auto simp: serving_upd fun_eq_iff serving_def)
  then show ?case using stop(3) by (intro world_ok_phase) simp_all
qed (auto simp: world_ok_def)

lemma reachable_ok: "reachable r w \<Longrightarrow> world_ok w"
  by (induction rule: reachable.induct) (auto intro: world_ok_start step_world_ok)

section \<open>What holds of every interleaving\<close>

text \<open>
  C11. One agent per name. In every state the connections can reach, however their goroutines interleave, a name
  has at most one connection in service that the server has not closed, it is the one the registry
  hands to visitors, and the registry never hands out a connection whose clean-up has begun.
\<close>
theorem one_open_agent_per_name:
  assumes "reachable r w"
  shows "(\<forall>s s'. serving w s \<and> serving w s' \<and> se_sub s = se_sub s' \<and> s \<noteq> s' \<longrightarrow>
        se_id s \<in> set (rg_closed (wd_registry w)) \<or> se_id s' \<in> set (rg_closed (wd_registry w)))
    \<and> (\<forall>s. serving w s \<and> se_id s \<notin> set (rg_closed (wd_registry w)) \<longrightarrow> Get (se_sub s) (wd_registry w) = Some s)
    \<and> (\<forall>k s. Get k (wd_registry w) = Some s \<longrightarrow> se_sub s = k \<and> serving w s)"
proof -
  note ok = reachable_ok [OF assms]
  have "se_id s \<in> set (rg_closed (wd_registry w)) \<or> se_id s' \<in> set (rg_closed (wd_registry w))"
    if "serving w s" "serving w s'" "se_sub s = se_sub s'" "s \<noteq> s'" for s s'
    using world_ok_open [OF ok that(1)] world_ok_open [OF ok that(2)] that(3,4) by (metis option.inject)
  then show ?thesis using world_ok_open [OF ok] world_ok_registered [OF ok] by blast
qed

section \<open>A reconnect that ends up offline\<close>

text \<open>
  An agent reconnects while its old connection is still registered. The registry closes the old connection; the new
  one announces itself; then the old connection's loop notices, finds itself replaced in the registry, and clears
  the presence of the name, which by now belongs to the new one.
\<close>

definition old_agent :: session where "old_agent = session_for 1 ''myapp'' 1"
definition new_agent :: session where "new_agent = session_for 1 ''myapp'' 2"

definition life1 :: world where
  "life1 = set_phase old_agent Authed (start demo_redis)"
definition life2 :: world where
  "life2 = set_phase old_agent Registered (life1\<lparr>wd_registry := Put old_agent (wd_registry life1)\<rparr>)"
definition life3 :: world where
  "life3 = set_phase old_agent Looping (beat old_agent life2)"
definition life4 :: world where "life4 = set_phase new_agent Authed life3"
definition life5 :: world where
  "life5 = set_phase new_agent Registered (life4\<lparr>wd_registry := Put new_agent (wd_registry life4)\<rparr>)"
definition life6 :: world where
  "life6 = set_phase new_agent Looping (beat new_agent life5)"
definition life7 :: world where
  "life7 = set_phase old_agent Removing (life6\<lparr>wd_registry := Remove old_agent (wd_registry life6)\<rparr>)"
definition life8 :: world where
  "life8 = set_phase old_agent Finished (life7\<lparr>wd_redis := snd (Clear ''myapp'' (wd_redis life7))\<rparr>)"

lemmas agents_def = old_agent_def new_agent_def session_for_def
lemmas life_defs = life1_def life2_def life3_def life4_def life5_def life6_def life7_def life8_def start_def beat_def

lemma subs [simp]: "se_sub old_agent = ''myapp''" "se_sub new_agent = ''myapp''" "se_id old_agent = 1" "se_id new_agent = 2"
  by (simp_all add: agents_def)

lemma life_registry: "wd_registry life8 = \<lparr>rg_sessions = [''myapp'' \<mapsto> new_agent], rg_closed = [1]\<rparr>"
  by (simp add: life_defs Put_def Remove_def NewRegistry_def Let_def)

lemma life_steps: "step (start demo_redis) life1" "step life1 life2" "step life2 life3" "step life3 life4"
  "step life4 life5" "step life5 life6" "step life6 life7" "step life7 life8"
proof -
  show "step (start demo_redis) life1" unfolding life1_def by (rule step.hello) (simp add: start_def)
  show "step life1 life2" unfolding life2_def by (rule step.register [of _ 1]) (simp add: life1_def)
  show "step life2 life3" using step.first_beat [of life2 1 old_agent] by (simp add: life2_def life3_def)
  show "step life3 life4" unfolding life4_def by (rule step.hello) (simp add: life3_def life2_def life1_def start_def)
  show "step life4 life5" unfolding life5_def by (rule step.register [of _ 2]) (simp add: life4_def)
  show "step life5 life6" using step.first_beat [of life5 2 new_agent] by (simp add: life5_def life6_def)
  have "conn_closed life6 1"
    by (simp add: conn_closed_def life_defs closed_Put Get_Put)
  then show "step life6 life7" unfolding life7_def by (intro step.remove [of _ 1]) (simp_all add: life6_def life5_def life4_def life3_def)
  show "step life7 life8" using step.clear [of life7 1 old_agent] by (simp add: life7_def life8_def)
qed

lemma life_reachable: "reachable demo_redis life8"
  by (intro reachable.after [OF _ life_steps(8)] reachable.after [OF _ life_steps(7)] reachable.after [OF _ life_steps(6)]
      reachable.after [OF _ life_steps(5)] reachable.after [OF _ life_steps(4)] reachable.after [OF _ life_steps(3)]
      reachable.after [OF _ life_steps(2)] reachable.after [OF _ life_steps(1)] reachable.init)

text \<open>
  Presence has no owner. A state can be reached, with no failure anywhere, in which the agent that has just
  reconnected is registered, in its loop and not closed by anyone, and yet its name is offline:
  unlike the registry, the presence entry is cleared by the replaced connection. Visitors are then served as if the agent were away.
\<close>
theorem reconnected_agent_can_be_offline:
  "\<exists>w s. reachable demo_redis w \<and> wd_agents w (se_id s) = Some (s, Looping) \<and> \<not> conn_closed w (se_id s)
     \<and> Get (se_sub s) (wd_registry w) = Some s \<and> rd_outcomes (wd_redis w) = []
     \<and> fst (IsOnline (se_sub s) (wd_redis w)) = (False, None)"
proof (intro exI [of _ life8] exI [of _ new_agent] conjI)
  have q: "rd_outcomes (wd_redis life8) = []"
    by (simp add: life_defs demo_redis_def Heartbeat_def Clear_def cmd_quiet redis_set_def redis_del_def)
  then show "rd_outcomes (wd_redis life8) = []" .
  have "rd_keys (wd_redis life8) (presenceKey ''myapp'') = None"
    by (simp add: life_defs demo_redis_def Heartbeat_def Clear_def cmd_quiet redis_set_def redis_del_def)
  then show "fst (IsOnline (se_sub new_agent) (wd_redis life8)) = (False, None)"
    using q by (simp add: IsOnline_def cmd_quiet redis_exists_def)
  show "reachable demo_redis life8" by (rule life_reachable)
  show "\<not> conn_closed life8 (se_id new_agent)"
    by (simp add: conn_closed_def life_registry) (simp add: life_defs)
  show "Get (se_sub new_agent) (wd_registry life8) = Some new_agent"
    by (simp add: life_registry Get_def)
qed (simp add: life_defs)

text \<open>
  The next heartbeat repairs it: in every reachable state, a tick of the loop of the connection the registry holds
  for a name, if it gets through before the server is told to stop, makes that name online, and leaves the registry as it is.
\<close>
theorem tick_restores_presence:
  assumes "reachable r w" and "wd_agents w i = Some (s, Looping)" and "rd_outcomes (wd_redis w) = []" and "\<not> wd_cancelled w"
  shows "step w (beat s w) \<and> fst (IsOnline (se_sub s) (wd_redis (beat s w))) = (True, None)"
  using step.tick [OF assms(2)] assms(3,4)
  by (simp add: beat_def IsOnline_def Heartbeat_def cmd_quiet redis_set_def redis_exists_def PresenceTTL_def)

theorem tick_restores_presence_witness:
  "fst (IsOnline ''myapp'' (snd (Heartbeat ''myapp'' (wd_redis life8)))) = (True, None)"
  using tick_restores_presence [OF life_reachable, of 2 new_agent]
  by (simp add: life_defs demo_redis_def Heartbeat_def Clear_def cmd_quiet redis_set_def redis_del_def)

theorem one_open_agent_per_name_witness:
  "Get ''myapp'' (wd_registry life8) = Some new_agent"
proof -
  have "serving life8 new_agent" by (simp add: serving_def life_defs)
  moreover have "se_id new_agent \<notin> set (rg_closed (wd_registry life8))"
    by (simp add: life_registry)
  ultimately show ?thesis using one_open_agent_per_name [OF life_reachable] by auto
qed

end
