(* ===== verification/Spec2Isabelle.thy ===== *)
theory Spec2Isabelle
  imports AppReplay Listen Journeys CliCalls StoreOps Migrate AgentLife
begin

text \<open>
  liveurl gives a program on a laptop a public address that keeps answering while the laptop is away. An agent (the \<open>liveurl\<close> command)
  dials the server (\<open>liveurld\<close>) and keeps one multiplexed connection open; the server sends every request for the agent's
  subdomain down that connection. While no agent is connected, webhooks are stored and replayed at the next
  connection, and page visits are answered from a cache of pages captured earlier.

  The parts and how they interact:
  \<^item> The public router (\<open>internal/edge/router.go\<close>) turns a host name into a subdomain and a subdomain into a tunnel, asks the presence store
    and the session registry for a live agent, and hands the request to the live proxy (\<open>proxy.go\<close>) or the
    offline dispatcher (\<open>offline.go\<close>). Its apex host serves the landing page, the dashboard and the control API.
  \<^item> The tunnel server (\<open>tunnelserver.go\<close>) admits agents, authenticates their handshake against the accounts, registers the session
    (\<open>session.go\<close>), keeps the presence key alive, and starts the replay of the tunnel's queue (\<open>replay/replay.go\<close>).
  \<^item> The store (\<open>internal/store\<close>) keeps accounts, tunnels, queued webhooks and captured pages in Postgres, and presence in Redis.
  \<^item> The control API (\<open>internal/control/server.go\<close>) is what the command-line client and the dashboard call.
  \<^item> The agent (\<open>internal/agent\<close>) reconnects with a growing delay and forwards each stream to the local application.

  Shared by all theories:
  \<^item> \<open>Prelude\<close>: hint collections, list lemmas, the loop \<open>process_until\<close> (a \<open>for range\<close> that returns early), and the locales
    \<open>keyed_slots\<close> and its extension \<open>owned_slots\<close> (a table whose slots are set, read and cleared by key, by an owner) and \<open>invariant_ops\<close> (operations
    that keep an invariant, hence every sequence of them does).
  \<^item> \<open>GoStrings\<close>, \<open>GoHttp\<close>, \<open>GoPathMatch\<close>, \<open>GoRegexp\<close>, \<open>GoJson\<close>, \<open>GoJsonRound\<close>, \<open>GoStruct\<close>, \<open>GoServe\<close>: what the program uses of Go's
    standard library. Strings are lists of bytes. A response writer is a record that remembers what was sent and may refuse further
    writes; \<open>handler_header\<close> is the header the handler left in it, \<open>client_header\<close> the one the client gets, with what \<open>net/http\<close> adds
    (record \<open>net_http\<close>: the date, the sniffed content type, the lines that frame the exchange); a body is its data and whether reading it ends in an error.
  \<^item> \<open>Db\<close>: the tables of \<open>internal/store/migrations\<close> as lists of records, with a clock and a list of outcomes that decides for
    every statement whether it is executed, fails, or is executed with its answer lost. \<open>transaction\<close> rolls back what it did unless the
    commit goes through. \<open>db_wf\<close> is the type invariant (keys, references, counters, admissible attempt counts); \<open>evolves\<close> says that nothing
    recorded was lost or altered: accounts, tokens and tunnels stay, a stored request keeps its content. \<open>good\<close> is both, for one operation.

  The program, one theory per part (definitions carry the names of the Go functions; a name that is taken gets a suffix):
  \<^item> \<open>StoreUsers\<close>, \<open>StoreTunnels\<close>, \<open>StoreEvents\<close>, \<open>StoreSnapshots\<close>, \<open>Presence\<close>, \<open>Migrate\<close>: the files of \<open>internal/store\<close>. Every operation is
    its SQL statements on the tables, with its errors. The lemmas show what each returns and changes, that tunnels keep their owner,
    that arrivals are read back as a first-in-first-out queue (locale \<open>fifo\<close>), that a tunnel's pages stay within the cap and come back
    as stored, and that migrations are applied once, in order, whatever interrupts them. \<open>StoreOps\<close> collects
    the operations into one type and closes the invariants under any history.
  \<^item> \<open>Proto\<close>, \<open>ProtoWire\<close>: the handshake messages and their framing, with the round trip.
  \<^item> \<open>Classify\<close>, \<open>PageCache\<close>, \<open>Offline\<close>: which requests are webhooks, which responses are stored and how a banner is put in, and what the offline
    dispatcher does with both.
  \<^item> \<open>Registry\<close>, \<open>RateLimit\<close>, \<open>TunnelServer\<close>, \<open>AgentLife\<close>: sessions per subdomain; the limiter with its sweep, shown to be
    indistinguishable from one that never forgets; the handshake; and the interleavings of the connection goroutines as the step
    relation \<open>step\<close>, with its reachable states and their invariant.
  \<^item> \<open>Replay\<close>, \<open>ReplayRuns\<close>: one replay and a drain, for every behaviour of the connection and the database (nothing is lost, nothing is marked
    delivered that was not sent) and, when the database answers, exactly what is sent and what remains.
  \<^item> \<open>Proxy\<close>, \<open>Router\<close>, \<open>Tenants\<close>: forwarding with capture; the handler of the public listener; and its isolation of
    tenants, on the contract \<open>offline_handler\<close> that the offline dispatcher is shown to meet.
  \<^item> \<open>Control\<close>, \<open>ApiAccess\<close>, \<open>ApiCalls\<close>: the control API; its access control, on the contract \<open>owner_handler\<close> that every
    endpoint is shown to meet; and what its calls return.
  \<^item> \<open>Agent\<close>: the reconnect loop, one connection, one forwarded request: what is written to the local application and what is answered. \<open>AppConfig\<close>: settings and the credentials file. \<open>Cli\<close>, \<open>CliCalls\<close>: the
    commands of the client, and what they print when the network is the control API.
  \<^item> \<open>Server\<close>, \<open>QueueGrowth\<close>, \<open>Journeys\<close>: the server command, which composes the parts into one state; the events that change it; the
    invariant of the whole; which events leave a tunnel's queue to grow only; and the two journeys of a webhook and of a page from end to end.
  \<^item> \<open>Listen\<close>: the accept loop of the tunnel listener, shown to treat every address as if it were alone and to be a sequence of the
    server's events, and how the server command ends.
  \<^item> \<open>DemoApp\<close>, \<open>AppReplay\<close>: the example site (\<open>examples/demoapp\<close>) as a local application, and a replay through the agent: what
    reaches the application when it is there, and what happens to the webhooks when it is not.

  How properties are stated. Failures are inputs: the outcomes of the database and of Redis, the script of a replay link, the
  exchange with an agent, the errors of reading and writing are arguments, and a property without a hypothesis on them holds for all. What is
  outside the repository is an argument too: SHA-256, bcrypt, random bytes, Unicode case mapping, Postgres' wording of errors and the
  local time format (record \<open>platform\<close>), the token bucket of \<open>golang.org/x/time/rate\<close> (record \<open>bucket_lib\<close>), the number parser, the
  clock. A witness after each property applies it to a concrete state; the states build on each other, from the sign-up of one
  account to a running server with queued webhooks.

  Bounds and fuel. The only fuel is that of the JSON parser: twice the length of the input, proved to be enough for whatever any fuel can
  parse (\<open>parse_fuel\<close>); like Go's parser it stops at ten thousand nested levels. The agent's endless loop is
  run over the list of its turns, and ends because its context does (\<open>runs_until_cancelled\<close>). Database keys and HTTP statuses are
  unbounded integers: their columns and Go types are 64 bits wide and the program does no arithmetic on them
  except for counting attempts, which \<open>db_wf\<close> bounds. Delays are integers in nanoseconds, at most thirty
  seconds; times of the database and of Redis are integers in microseconds.

  Atomicity. In \<open>Server\<close> a request, a call or a handshake is one event; in \<open>StoreOps\<close> a store operation is, so the invariants of the database also
  hold for every interleaving of whole operations of several requests. The statements inside one operation do not interleave with another's:
  for \<open>ClaimTunnel\<close> and \<open>MarkFailed\<close>, which run two statements without a transaction, and for \<open>PutSnapshot\<close>, whose
  transaction runs at READ COMMITTED, the program does not ensure that. \<open>requeue_can_be_lost\<close> shows what a requeue between the two statements
  of \<open>MarkFailed\<close> does; two captures at the same moment can together exceed the cap that \<open>snapshot_cap_is_kept\<close> proves for one. Drains run beside other events: \<open>ReplayStep\<close> is one replay of a drain in
  progress, and \<open>overlapping_drains_deliver_twice\<close> shows what two of them do to one queue. Connection
  goroutines interleave in \<open>AgentLife\<close>.

  Not modelled: sockets, TLS, yamux framing, HTTP parsing and writing on the wire, and timeouts other than as errors of the operation they
  cut short; the HTTP servers' own loops and their graceful shutdown; the command trees, flags and help texts of both commands (the
  cobra library); log lines, except that a failing accept logs one; opening and closing of clients; \<open>strconv.ParseFloat\<close>; the dashboard's static files
  (\<open>internal/dashboard\<close>, served by \<open>http.FileServerFS\<close>), which have no logic of their own. The scanning of database rows into structs is the identity on row records.
\<close>

end
